(* ===== verification/Prelude.thy ===== *)
theory Prelude
  imports Main "HOL-Library.Word" "HOL-Library.Char_ord" "HOL-Library.List_Lexorder"
begin

text \<open>
  Shared by every component: the machine integers of the code, the faults a C++ execution
  can end in, the result type that carries them, and the generic facts on lists (memory
  blocks written in place) that the component proofs use.
\<close>

unbundle bit_operations_syntax

named_theorems mem_simps \<open>reading a block of memory after a write to it\<close>

section \<open>Types\<close>

type_synonym byte = "8 word"
type_synonym u32 = "32 word"
type_synonym u64 = "64 word"

text \<open>
  What ends an execution before it returns: an access outside its memory block, an
  invalid pointer (null, dangling or past-the-end iterator), an integer division by
  zero, a read of an indeterminate value, or a C++ exception.
\<close>

datatype fault = Out_Of_Bounds | Bad_Pointer | Div_By_Zero | Indeterminate | Thrown

type_synonym 'a res = "fault + 'a"

section \<open>Sequencing of results\<close>

definition rbind :: "'a res \<Rightarrow> ('a \<Rightarrow> 'b res) \<Rightarrow> 'b res" where
  "rbind m f = (case m of Inl e \<Rightarrow> Inl e | Inr a \<Rightarrow> f a)"

lemma rbind_simps [simp]:
  "rbind (Inr a) f = f a"
  "rbind (Inl e) f = Inl e"
  by (simp_all add: rbind_def)

lemma rbind_Inr_iff: "rbind m f = Inr b \<longleftrightarrow> (\<exists>a. m = Inr a \<and> f a = Inr b)"
  by (cases m) simp_all

lemma rbind_InrE [elim!]:
  assumes "rbind m f = Inr b"
  obtains a where "m = Inr a" and "f a = Inr b"
  using assms by (auto simp: rbind_Inr_iff)

lemma rbind_assoc: "rbind (rbind m f) g = rbind m (\<lambda>a. rbind (f a) g)"
  by (cases m) simp_all

lemma rbind_cong [fundef_cong]:
  assumes "m = m'" and "\<And>a. m' = Inr a \<Longrightarrow> f a = g a"
  shows "rbind m f = rbind m' g"
  using assms by (cases m') simp_all

text \<open>A loop over a container that stops at the first fault.\<close>

fun rfold :: "('x \<Rightarrow> 's \<Rightarrow> 's res) \<Rightarrow> 'x list \<Rightarrow> 's \<Rightarrow> 's res" where
  "rfold f [] s = Inr s"
| "rfold f (x # xs) s = rbind (f x s) (rfold f xs)"

lemma rfold_append: "rfold f (xs @ ys) s = rbind (rfold f xs s) (rfold f ys)"
  by (induction xs arbitrary: s) (auto simp: rbind_assoc intro: rbind_cong)

lemma rfold_invariant:
  assumes "rfold f xs s = Inr t" and "P s"
    and "\<And>x s t. x \<in> set xs \<Longrightarrow> P s \<Longrightarrow> f x s = Inr t \<Longrightarrow> P t"
  shows "P t"
  using assms
proof (induction xs arbitrary: s)
  case Nil
  then show ?case by simp
next
  case (Cons x xs)
  from Cons.prems(1) obtain u where u: "f x s = Inr u" "rfold f xs u = Inr t" by auto
  from Cons.prems(3) [OF _ Cons.prems(2) u(1)] have "P u" by simp
  with u(2) show ?case by (rule Cons.IH) (use Cons.prems(3) in auto)
qed

lemma rfold_total:
  assumes "\<And>x s. x \<in> set xs \<Longrightarrow> P s \<Longrightarrow> \<exists>t. f x s = Inr t \<and> P t" and "P s"
  shows "\<exists>t. rfold f xs s = Inr t \<and> P t"
  using assms
proof (induction xs arbitrary: s)
  case Nil
  then show ?case by simp
next
  case (Cons x xs)
  from Cons.prems(1) [of x s] Cons.prems(2) obtain u where u: "f x s = Inr u" "P u" by auto
  from Cons.prems(1) have "\<exists>t. rfold f xs u = Inr t \<and> P t"
    by (intro Cons.IH [OF _ u(2)]) auto
  with u show ?case by simp
qed

section \<open>Writing a block into memory\<close>

text \<open>
  \<^verbatim>\<open>memcpy(&m[off], bs, n)\<close> and the typed stores of the code, on a block whose bytes are a
  list: a copy that would leave the block is a fault.
\<close>

definition overwrite :: "nat \<Rightarrow> 'a list \<Rightarrow> 'a list \<Rightarrow> 'a list" where
  "overwrite off bs m = take off m @ bs @ drop (off + length bs) m"

definition chunk :: "nat \<Rightarrow> nat \<Rightarrow> 'a list \<Rightarrow> 'a list" where
  "chunk off n m = take n (drop off m)"

definition poke :: "nat \<Rightarrow> 'a list \<Rightarrow> 'a list \<Rightarrow> 'a list res" where
  "poke off bs m =
     (if off + length bs \<le> length m then Inr (overwrite off bs m) else Inl Out_Of_Bounds)"

definition peek :: "nat \<Rightarrow> nat \<Rightarrow> 'a list \<Rightarrow> 'a list res" where
  "peek off n m = (if off + n \<le> length m then Inr (chunk off n m) else Inl Out_Of_Bounds)"

lemma length_overwrite [simp]:
  "off + length bs \<le> length m \<Longrightarrow> length (overwrite off bs m) = length m"
  by (simp add: overwrite_def)

lemma length_chunk [simp]: "off + n \<le> length m \<Longrightarrow> length (chunk off n m) = n"
  by (simp add: chunk_def)

lemma chunk_overwrite_same [mem_simps]:
  "off \<le> length m \<Longrightarrow> n = length bs \<Longrightarrow> chunk off n (overwrite off bs m) = bs"
  by (simp add: chunk_def overwrite_def)

lemma chunk_overwrite_before [mem_simps]:
  "o1 + n \<le> o2 \<Longrightarrow> o2 \<le> length m \<Longrightarrow> chunk o1 n (overwrite o2 bs m) = chunk o1 n m"
  by (auto simp: chunk_def overwrite_def drop_take)

lemma chunk_overwrite_after [mem_simps]:
  "o2 + length bs \<le> o1 \<Longrightarrow> o2 + length bs \<le> length m \<Longrightarrow>
     chunk o1 n (overwrite o2 bs m) = chunk o1 n m"
  by (simp add: chunk_def overwrite_def)

lemma poke_Inr_iff:
  "poke off bs m = Inr m' \<longleftrightarrow> off + length bs \<le> length m \<and> m' = overwrite off bs m"
  by (auto simp: poke_def)

lemma poke_ok [simp]: "off + length bs \<le> length m \<Longrightarrow> poke off bs m = Inr (overwrite off bs m)"
  by (simp add: poke_def)

lemma poke_bad [simp]: "length m < off + length bs \<Longrightarrow> poke off bs m = Inl Out_Of_Bounds"
  by (simp add: poke_def)

lemma peek_ok [simp]: "off + n \<le> length m \<Longrightarrow> peek off n m = Inr (chunk off n m)"
  by (simp add: peek_def)

lemma peek_bad [simp]: "length m < off + n \<Longrightarrow> peek off n m = Inl Out_Of_Bounds"
  by (simp add: peek_def)

lemma chunk_0: "chunk 0 n m = take n m"
  by (simp add: chunk_def)

lemma chunk_append:
  "chunk off (n + k) m = chunk off n m @ chunk (off + n) k m"
  by (simp add: chunk_def take_add add.commute [of off n])

section \<open>Bounded conversions\<close>

lemma unat_of_nat_u32: "n < 2 ^ 32 \<Longrightarrow> unat (word_of_nat n :: u32) = n"
  by (simp add: unat_of_nat take_bit_nat_eq_self)

lemma unat_of_nat_u64: "n < 2 ^ 64 \<Longrightarrow> unat (word_of_nat n :: u64) = n"
  by (simp add: unat_of_nat take_bit_nat_eq_self)

lemma unat_u32_lt [simp]: "unat (x :: u32) < 4294967296"
  using unsigned_less [of x, where ?'a = nat] by simp

lemma unat_u64_lt [simp]: "unat (x :: u64) < 18446744073709551616"
  using unsigned_less [of x, where ?'a = nat] by simp

end
