(* ===== verification/Stdio.thy ===== *)
theory Stdio
  imports Prelude
begin

text \<open>
  The part of the C library's formatted input and output the code uses: unsigned decimal
  output (\<^verbatim>\<open>operator<<\<close> and \<^verbatim>\<open>%u\<close>, \<^verbatim>\<open>%lu\<close>), \<^verbatim>\<open>sprintf\<close> into a fixed array, and \<^verbatim>\<open>sscanf\<close>
  with literal characters and the conversions \<^verbatim>\<open>%u\<close>, \<^verbatim>\<open>%lu\<close> and \<^verbatim>\<open>%d\<close>.
\<close>

section \<open>Decimal output\<close>

definition digit_char :: "nat \<Rightarrow> char" where
  "digit_char n = char_of (48 + n)"

definition is_digit :: "char \<Rightarrow> bool" where
  "is_digit c \<longleftrightarrow> 48 \<le> (of_char c :: nat) \<and> of_char c \<le> (57 :: nat)"

definition digit_val :: "char \<Rightarrow> nat" where
  "digit_val c = of_char c - 48"

fun show_nat :: "nat \<Rightarrow> string" where
  "show_nat n = (if n < 10 then [digit_char n] else show_nat (n div 10) @ [digit_char (n mod 10)])"

declare show_nat.simps [simp del]

definition show32 :: "u32 \<Rightarrow> string" where
  "show32 x = show_nat (unat x)"

definition show64 :: "u64 \<Rightarrow> string" where
  "show64 x = show_nat (unat x)"

definition read_digits :: "string \<Rightarrow> nat" where
  "read_digits s = foldl (\<lambda>a c. 10 * a + digit_val c) 0 s"

lemma of_char_digit: "n < 10 \<Longrightarrow> of_char (digit_char n) = (48 + n :: nat)"
  by (simp add: digit_char_def)

lemma digit_char_digit: "n < 10 \<Longrightarrow> is_digit (digit_char n) \<and> digit_val (digit_char n) = n"
  by (simp add: is_digit_def digit_val_def of_char_digit)

lemma show_nat_digits: "\<forall>c \<in> set (show_nat n). is_digit c"
proof (induction n rule: show_nat.induct)
  case (1 n)
  then show ?case by (subst show_nat.simps) (auto simp: digit_char_digit)
qed

lemma show_nat_nonempty: "show_nat n \<noteq> []"
  by (subst show_nat.simps) simp

lemma read_show_nat: "read_digits (show_nat n) = n"
proof (induction n rule: show_nat.induct)
  case (1 n)
  then show ?case
    by (subst show_nat.simps) (auto simp: read_digits_def digit_char_digit)
qed

lemma show_nat_inject: "show_nat m = show_nat n \<longleftrightarrow> m = n"
  by (metis read_show_nat)

lemma is_digit_not_special: "is_digit c \<Longrightarrow> c \<noteq> CHR ''_'' \<and> c \<noteq> CHR ''-'' \<and> c \<noteq> CHR ''+'' \<and> c \<noteq> CHR ''/''"
  by (auto simp: is_digit_def)

section \<open>sprintf into a fixed array\<close>

text \<open>The text and its terminating zero must fit in the array.\<close>

definition sprintf_into :: "nat \<Rightarrow> string \<Rightarrow> string res" where
  "sprintf_into cap s = (if length s < cap then Inr s else Inl Out_Of_Bounds)"

section \<open>sscanf\<close>

datatype directive = Lit char | Conv_U | Conv_D

definition is_space :: "char \<Rightarrow> bool" where
  "is_space c \<longleftrightarrow> (of_char c :: nat) \<in> {9, 10, 11, 12, 13, 32}"

text \<open>
  One integer conversion on 64 bits: white space is skipped, one sign is taken, at least one
  digit is needed. \<^verbatim>\<open>strtoul\<close> saturates at the largest value and then applies the sign;
  \<^verbatim>\<open>strtol\<close> saturates at the ends of the signed range.
\<close>

definition scan_value :: "bool \<Rightarrow> bool \<Rightarrow> nat \<Rightarrow> u64" where
  "scan_value sgnd neg n =
     (if sgnd then
        (if neg then - word_of_nat (min n (2 ^ 63)) else word_of_nat (min n (2 ^ 63 - 1)))
      else if 2 ^ 64 \<le> n then - 1
      else if neg then - word_of_nat n else word_of_nat n)"

definition scan_int :: "bool \<Rightarrow> string \<Rightarrow> (u64 \<times> string) option" where
  "scan_int sgnd s0 =
     (let s = dropWhile is_space s0;
          neg = (case s of c # _ \<Rightarrow> c = CHR ''-'' | [] \<Rightarrow> False);
          t = (case s of c # r \<Rightarrow> if c = CHR ''-'' \<or> c = CHR ''+'' then r else s | [] \<Rightarrow> s);
          ds = takeWhile is_digit t
      in if ds = [] then None
         else Some (scan_value sgnd neg (read_digits ds), dropWhile is_digit t))"

text \<open>The values assigned, in order, up to the first directive that fails.\<close>

fun sscanf :: "directive list \<Rightarrow> string \<Rightarrow> u64 list" where
  "sscanf [] s = []"
| "sscanf (Lit c # ds) s = (case s of [] \<Rightarrow> [] | x # xs \<Rightarrow> if x = c then sscanf ds xs else [])"
| "sscanf (Conv_U # ds) s =
     (case scan_int False s of None \<Rightarrow> [] | Some (v, r) \<Rightarrow> v # sscanf ds r)"
| "sscanf (Conv_D # ds) s =
     (case scan_int True s of None \<Rightarrow> [] | Some (v, r) \<Rightarrow> v # sscanf ds r)"

text \<open>A variable \<^verbatim>\<open>sscanf\<close> did not assign holds no determinate value.\<close>

definition scanned :: "u64 list \<Rightarrow> nat \<Rightarrow> u64 res" where
  "scanned vs i = (if i < length vs then Inr (vs ! i) else Inl Indeterminate)"

lemma sscanf_literals: "sscanf (map Lit p @ ds) (p @ s) = sscanf ds s"
  by (induction p) simp_all

lemma not_space_digit: "is_digit c \<Longrightarrow> \<not> is_space c"
  by (auto simp: is_digit_def is_space_def)

lemma takeWhile_digits:
  assumes "\<forall>c \<in> set ds. is_digit c" and "\<not> (case r of [] \<Rightarrow> False | c # _ \<Rightarrow> is_digit c)"
  shows "takeWhile is_digit (ds @ r) = ds" and "dropWhile is_digit (ds @ r) = r"
  using assms by (induction ds) (auto split: list.splits)

lemma scan_int_show:
  assumes "\<not> (case r of [] \<Rightarrow> False | c # _ \<Rightarrow> is_digit c)"
  shows "scan_int sgnd (show_nat n @ r) = Some (scan_value sgnd False n, r)"
proof -
  obtain c cs where s: "show_nat n = c # cs" using show_nat_nonempty [of n] by (cases "show_nat n") auto
  with show_nat_digits [of n] have c: "is_digit c" by auto
  have all: "\<forall>x \<in> set (show_nat n). is_digit x" by (rule show_nat_digits)
  from c is_digit_not_special [OF c] not_space_digit [OF c]
  have "dropWhile is_space (show_nat n @ r) = show_nat n @ r" by (simp add: s)
  moreover have "takeWhile is_digit (show_nat n @ r) = show_nat n"
    and "dropWhile is_digit (show_nat n @ r) = r"
    using takeWhile_digits [OF all assms] by simp_all
  ultimately show ?thesis
    using is_digit_not_special [OF c] read_show_nat [of n]
    by (simp add: scan_int_def Let_def s)
qed

lemma scan_value_small: "n < 2 ^ 64 \<Longrightarrow> scan_value False False n = word_of_nat n"
  by (simp add: scan_value_def)

lemma scan_value_signed: "n < 2 ^ 63 \<Longrightarrow> scan_value True False n = word_of_nat n"
  by (simp add: scan_value_def min_def)

text \<open>A value printed from 32 bits and scanned into 64 is cut back to the same 32 bits.\<close>

lemma ucast_up_down [simp]: "(ucast (ucast x :: u64) :: u32) = x" for x :: u32
  by transfer (simp add: take_bit_take_bit)

end
