(* ===== verification/Posix.thy ===== *)
theory Posix
  imports Stdio
begin

text \<open>
  The operating-system calls of the C library that the code makes: files and directories by
  path, file descriptors with their offsets, the listing of a directory. A path is the list
  of its components, so repeated slashes do not matter, as in POSIX; every path the code
  builds is absolute and holds no \<^verbatim>\<open>.\<close>, \<^verbatim>\<open>..\<close> or link. What the environment decides is a field
  of the world that no operation changes: how many bytes the kernel accepts in one \<^verbatim>\<open>write\<close>
  (a full disk accepts fewer than asked) and the date the clock shows.
\<close>

section \<open>State\<close>

datatype node = Dir | File "byte list"

record descr =
  d_path :: "string list"
  d_pos :: nat

record world =
  w_nodes :: "(string list \<times> node) list"
  w_fds :: "(int \<times> descr) list"
  w_wmax :: nat
  w_date :: string

section \<open>Paths\<close>

fun split_slash :: "string \<Rightarrow> string list" where
  "split_slash [] = [[]]"
| "split_slash (c # s) =
     (if c = CHR ''/'' then [] # split_slash s
      else (case split_slash s of [] \<Rightarrow> [[c]] | w # ws \<Rightarrow> (c # w) # ws))"

definition resolve :: "string \<Rightarrow> string list" where
  "resolve s = filter (\<lambda>c. c \<noteq> []) (split_slash s)"

definition is_name :: "string \<Rightarrow> bool" where
  "is_name n \<longleftrightarrow> n \<noteq> [] \<and> CHR ''/'' \<notin> set n"

lemma split_slash_nonempty [simp]: "split_slash s \<noteq> []"
  by (induction s) (auto split: list.splits)

lemma split_slash_append: "split_slash (a @ CHR ''/'' # b) = split_slash a @ split_slash b"
  by (induction a) (auto split: list.splits)

lemma split_slash_plain: "CHR ''/'' \<notin> set n \<Longrightarrow> split_slash n = [n]"
  by (induction n) auto

lemma resolve_append: "resolve (a @ CHR ''/'' # b) = resolve a @ resolve b"
  by (simp add: resolve_def split_slash_append)

lemma resolve_Nil [simp]: "resolve [] = []"
  by (simp add: resolve_def)

lemma resolve_name [simp]: "is_name n \<Longrightarrow> resolve n = [n]"
  by (simp add: is_name_def resolve_def split_slash_plain)

lemma split_slash_no_slash: "c \<in> set (split_slash s) \<Longrightarrow> CHR ''/'' \<notin> set c"
  by (induction s arbitrary: c) (auto split: list.splits if_splits)

lemma resolve_names: "c \<in> set (resolve s) \<Longrightarrow> is_name c"
  by (auto simp: resolve_def is_name_def split_slash_no_slash)

section \<open>Nodes\<close>

definition node_at :: "world \<Rightarrow> string list \<Rightarrow> node option" where
  "node_at w p = (if p = [] then Some Dir else map_of (w_nodes w) p)"

definition put_node :: "string list \<Rightarrow> node \<Rightarrow> world \<Rightarrow> world" where
  "put_node p n w = w\<lparr>w_nodes := (p, n) # filter (\<lambda>e. fst e \<noteq> p) (w_nodes w)\<rparr>"

definition drop_node :: "string list \<Rightarrow> world \<Rightarrow> world" where
  "drop_node p w = w\<lparr>w_nodes := filter (\<lambda>e. fst e \<noteq> p) (w_nodes w)\<rparr>"

definition fs_ok :: "world \<Rightarrow> bool" where
  "fs_ok w \<longleftrightarrow> distinct (map fst (w_nodes w)) \<and> [] \<notin> fst ` set (w_nodes w)"

lemma map_of_filter_neq: "map_of (filter (\<lambda>e. fst e \<noteq> p) xs) q = (if q = p then None else map_of xs q)"
  by (induction xs) auto

lemma node_at_put:
  "p \<noteq> [] \<Longrightarrow> node_at (put_node p n w) q = (if q = p then Some n else node_at w q)"
  by (auto simp: node_at_def put_node_def map_of_filter_neq)

lemma node_at_drop:
  "p \<noteq> [] \<Longrightarrow> node_at (drop_node p w) q = (if q = p then None else node_at w q)"
  by (auto simp: node_at_def drop_node_def map_of_filter_neq)

lemma fs_ok_put: "fs_ok w \<Longrightarrow> p \<noteq> [] \<Longrightarrow> fs_ok (put_node p n w)"
  by (auto simp: fs_ok_def put_node_def distinct_map filter_map inj_on_def)

lemma fs_ok_drop: "fs_ok w \<Longrightarrow> fs_ok (drop_node p w)"
  by (auto simp: fs_ok_def drop_node_def distinct_map inj_on_def)

lemma node_frames [simp]:
  "w_fds (put_node p n w) = w_fds w" "w_wmax (put_node p n w) = w_wmax w"
  "w_date (put_node p n w) = w_date w" "w_fds (drop_node p w) = w_fds w"
  "w_wmax (drop_node p w) = w_wmax w" "w_date (drop_node p w) = w_date w"
  by (simp_all add: put_node_def drop_node_def)

lemma node_at_fds [simp]: "node_at (w\<lparr>w_fds := f\<rparr>) = node_at w"
  by (rule ext) (simp add: node_at_def)

lemma fs_ok_fds [simp]: "fs_ok (w\<lparr>w_fds := f\<rparr>) = fs_ok w"
  by (simp add: fs_ok_def)

section \<open>File descriptors\<close>

text \<open>\<^verbatim>\<open>open\<close> returns the lowest descriptor not in use.\<close>

definition next_fd :: "(int \<times> descr) list \<Rightarrow> int" where
  "next_fd t = hd (filter (\<lambda>i. i \<notin> fst ` set t) (map int [0 ..< Suc (length t)]))"

definition new_fd :: "string list \<Rightarrow> world \<Rightarrow> int \<times> world" where
  "new_fd p w = (let fd = next_fd (w_fds w)
     in (fd, w\<lparr>w_fds := (fd, \<lparr>d_path = p, d_pos = 0\<rparr>) # w_fds w\<rparr>))"

text \<open>\<^verbatim>\<open>open(path, O_CREAT|O_RDWR|O_NONBLOCK, S_IRWXU)\<close>: no truncation of an existing file.\<close>

definition open_creat :: "string \<Rightarrow> world \<Rightarrow> int \<times> world" where
  "open_creat s w = (let p = resolve s in
     case node_at w p of
       Some Dir \<Rightarrow> (- 1, w)
     | Some (File _) \<Rightarrow> new_fd p w
     | None \<Rightarrow> if node_at w (butlast p) = Some Dir then new_fd p (put_node p (File []) w)
               else (- 1, w))"

text \<open>\<^verbatim>\<open>open(path, O_RDONLY)\<close>.\<close>

definition open_rdonly :: "string \<Rightarrow> world \<Rightarrow> int \<times> world" where
  "open_rdonly s w =
     (case node_at w (resolve s) of None \<Rightarrow> (- 1, w) | Some _ \<Rightarrow> new_fd (resolve s) w)"

definition set_pos :: "int \<Rightarrow> nat \<Rightarrow> world \<Rightarrow> world" where
  "set_pos fd k w = w\<lparr>w_fds := map (\<lambda>e. if fst e = fd then (fd, (snd e)\<lparr>d_pos := k\<rparr>) else e) (w_fds w)\<rparr>"

definition sys_read :: "int \<Rightarrow> nat \<Rightarrow> world \<Rightarrow> int \<times> byte list \<times> world" where
  "sys_read fd n w =
     (case map_of (w_fds w) fd of
        None \<Rightarrow> (- 1, [], w)
      | Some d \<Rightarrow>
          (case node_at w (d_path d) of
             Some (File c) \<Rightarrow> (let bs = take n (drop (d_pos d) c)
               in (int (length bs), bs, set_pos fd (d_pos d + length bs) w))
           | _ \<Rightarrow> (- 1, [], w)))"

definition sys_write :: "int \<Rightarrow> byte list \<Rightarrow> world \<Rightarrow> int \<times> world" where
  "sys_write fd bs w =
     (case map_of (w_fds w) fd of
        None \<Rightarrow> (- 1, w)
      | Some d \<Rightarrow>
          (let acc = take (w_wmax w) bs; n = length acc; p = d_path d; k = d_pos d in
           case node_at w p of
             Some (File c) \<Rightarrow>
               (let c' = take k (c @ replicate (k - length c) 0) @ acc @ drop (k + n) c
                in (int n, set_pos fd (k + n) (put_node p (File c') w)))
           | Some Dir \<Rightarrow> (- 1, w)
           | None \<Rightarrow> (int n, set_pos fd (k + n) w)))"

definition sys_close :: "int \<Rightarrow> world \<Rightarrow> world" where
  "sys_close fd w = (if fd < 0 then w else w\<lparr>w_fds := filter (\<lambda>e. fst e \<noteq> fd) (w_fds w)\<rparr>)"

definition sys_unlink :: "string \<Rightarrow> world \<Rightarrow> world" where
  "sys_unlink s w = (case node_at w (resolve s) of
     Some (File _) \<Rightarrow> drop_node (resolve s) w | _ \<Rightarrow> w)"

definition sys_mkdir :: "string \<Rightarrow> world \<Rightarrow> int \<times> world" where
  "sys_mkdir s w = (let p = resolve s in
     if node_at w p = None \<and> node_at w (butlast p) = Some Dir then (0, put_node p Dir w)
     else (- 1, w))"

section \<open>Directory listing\<close>

definition children :: "world \<Rightarrow> string list \<Rightarrow> string list" where
  "children w p = map (last \<circ> fst) (filter (\<lambda>e. butlast (fst e) = p) (w_nodes w))"

text \<open>\<^verbatim>\<open>scandir(dir, &files, select, alphasort)\<close>: \<open>None\<close> for the error return \<open>- 1\<close>.\<close>

definition scandir :: "world \<Rightarrow> string \<Rightarrow> (string \<Rightarrow> bool) \<Rightarrow> string list option" where
  "scandir w s sel =
     (if node_at w (resolve s) = Some Dir
      then Some (sort (filter sel (''.'' # ''..'' # children w (resolve s)))) else None)"

section \<open>Facts\<close>

lemma next_fd_props: "next_fd t \<notin> fst ` set t \<and> 0 \<le> next_fd t"
proof -
  let ?c = "filter (\<lambda>i. i \<notin> fst ` set t) (map int [0 ..< Suc (length t)])"
  have "?c \<noteq> []"
  proof
    assume "?c = []"
    then have sub: "int ` {0 ..< Suc (length t)} \<subseteq> fst ` set t"
      unfolding filter_empty_conv by (simp del: upt_Suc add: image_subset_iff)
    have "card (int ` {0 ..< Suc (length t)}) = Suc (length t)"
      by (subst card_image) auto
    moreover have "card (fst ` set t) \<le> length t"
      using card_image_le [of "set t" fst] card_length [of t] by simp
    ultimately show False using card_mono [OF _ sub] by simp
  qed
  then have "hd ?c \<in> set ?c" by (rule hd_in_set)
  then have "next_fd t \<in> set ?c" by (simp only: next_fd_def)
  then show ?thesis by (auto simp del: upt_Suc)
qed

lemmas next_fd_fresh = next_fd_props [THEN conjunct1]
lemmas next_fd_nonneg [simp] = next_fd_props [THEN conjunct2]

lemma next_fd_not_neg [simp]: "\<not> next_fd t < 0"
  by (simp add: not_less)

lemma filter_fresh: "k \<notin> fst ` set t \<Longrightarrow> filter (\<lambda>e. fst e \<noteq> k) t = t"
  by (induction t) auto

lemma node_at_close [simp]: "node_at (sys_close fd w) = node_at w"
  by (simp add: sys_close_def)

lemma map_update_fresh: "k \<notin> fst ` set t \<Longrightarrow> map (\<lambda>e. if fst e = k then f e else e) t = t"
  by (induction t) auto

lemma put_put [simp]: "put_node p n (put_node p m w) = put_node p n w"
  by (simp add: put_node_def)

lemma put_node_fds: "put_node p n (w\<lparr>w_fds := f\<rparr>) = (put_node p n w)\<lparr>w_fds := f\<rparr>"
  by (simp add: put_node_def)

lemma old_fds [simp]: "w\<lparr>w_fds := w_fds w\<rparr> = w"
  by simp

lemma map_of_set_pos:
  "map_of (map (\<lambda>e. if fst e = fd then (fd, (snd e)\<lparr>d_pos := k\<rparr>) else e) t) fd' =
     (if fd' = fd then map_option (\<lambda>d. d\<lparr>d_pos := k\<rparr>) (map_of t fd) else map_of t fd')"
  by (induction t) auto

text \<open>The content a path has before it is written to.\<close>

definition content :: "world \<Rightarrow> string list \<Rightarrow> byte list" where
  "content w p = (case node_at w p of Some (File c) \<Rightarrow> c | _ \<Rightarrow> [])"

text \<open>A path that \<^verbatim>\<open>open(..., O_CREAT)\<close> accepts.\<close>

definition can_create :: "world \<Rightarrow> string list \<Rightarrow> bool" where
  "can_create w p \<longleftrightarrow> (case node_at w p of
     None \<Rightarrow> node_at w (butlast p) = Some Dir | Some Dir \<Rightarrow> False | Some (File _) \<Rightarrow> True)"

lemma can_create_nonempty: "can_create w p \<Longrightarrow> p \<noteq> []"
  by (auto simp: can_create_def node_at_def)

lemma open_creat_fails: "\<not> can_create w (resolve s) \<Longrightarrow> open_creat s w = (- 1, w)"
  by (auto simp: open_creat_def can_create_def Let_def split: option.splits node.splits)

lemma open_creat_keeps:
  assumes "node_at w q = Some n"
  shows "node_at (snd (open_creat s w)) q = Some n"
  using assms can_create_nonempty [of w "resolve s"]
  by (auto simp: open_creat_def can_create_def new_fd_def Let_def node_at_put
      split: option.splits node.splits)

lemma open_creat_fd: "fst (open_creat s w) < 0 \<longleftrightarrow> \<not> can_create w (resolve s)"
  by (auto simp: open_creat_def can_create_def new_fd_def Let_def not_less
      split: option.splits node.splits)

lemma open_creat_ok:
  assumes "can_create w (resolve s)"
  obtains w0 where "open_creat s w = (next_fd (w_fds w),
      w0\<lparr>w_fds := (next_fd (w_fds w), \<lparr>d_path = resolve s, d_pos = 0\<rparr>) # w_fds w\<rparr>)"
    and "w_fds w0 = w_fds w" "w_wmax w0 = w_wmax w" "w_date w0 = w_date w"
    and "node_at w0 (resolve s) = Some (File (content w (resolve s)))"
    and "\<And>n. put_node (resolve s) n w0 = put_node (resolve s) n w"
    and "fs_ok w \<Longrightarrow> fs_ok w0"
proof (cases "node_at w (resolve s)")
  case None
  with assms can_create_nonempty [OF assms] show thesis
    by (intro that [of "put_node (resolve s) (File []) w"])
      (auto simp: open_creat_def can_create_def new_fd_def Let_def node_at_put content_def fs_ok_put)
next
  case (Some n)
  with assms show thesis
    by (intro that [of w])
      (auto simp: open_creat_def can_create_def new_fd_def Let_def content_def split: node.splits)
qed

text \<open>Opening and creating files changes no content.\<close>

lemma open_creat_content: "content (snd (open_creat s w)) q = content w q"
proof (cases "can_create w (resolve s)")
  case False
  then show ?thesis by (simp add: open_creat_fails)
next
  case True
  note ne = can_create_nonempty [OF this]
  from True show ?thesis
    by (auto simp: open_creat_def can_create_def new_fd_def Let_def content_def node_at_put [OF ne] node_at_def
        put_node_def map_of_filter_neq split: option.splits node.splits)
qed

text \<open>
  Open, one write, close: the written prefix replaces the beginning of the file, what was
  behind it stays (there is no truncation), and no other path and no descriptor changes.
\<close>

lemma creat_write_close:
  assumes "can_create w (resolve s)" and "open_creat s w = (fd, w1)"
    and "sys_write fd bs w1 = (r, w2)"
  shows "r = int (min (w_wmax w) (length bs))"
    and "sys_close fd w2 = put_node (resolve s)
           (File (take (w_wmax w) bs @ drop (min (w_wmax w) (length bs)) (content w (resolve s)))) w"
proof -
  obtain w0 where w0: "open_creat s w = (next_fd (w_fds w),
      w0\<lparr>w_fds := (next_fd (w_fds w), \<lparr>d_path = resolve s, d_pos = 0\<rparr>) # w_fds w\<rparr>)"
    "w_fds w0 = w_fds w" "w_wmax w0 = w_wmax w" "w_date w0 = w_date w"
    "node_at w0 (resolve s) = Some (File (content w (resolve s)))"
    "\<And>n. put_node (resolve s) n w0 = put_node (resolve s) n w"
    by (rule open_creat_ok [OF assms(1)]) blast
  have fd: "fd = next_fd (w_fds w)"
    and w1: "w1 = w0\<lparr>w_fds := (fd, \<lparr>d_path = resolve s, d_pos = 0\<rparr>) # w_fds w\<rparr>"
    using assms(2) w0(1) by auto
  show "r = int (min (w_wmax w) (length bs))"
    using assms(3) w0 by (simp add: sys_write_def w1 Let_def min.commute split: prod.splits)
  show "sys_close fd w2 = put_node (resolve s)
           (File (take (w_wmax w) bs @ drop (min (w_wmax w) (length bs)) (content w (resolve s)))) w"
    using assms(3) w0 next_fd_fresh [of "w_fds w"]
    by (auto simp: sys_write_def w1 fd Let_def sys_close_def set_pos_def filter_fresh
        map_update_fresh put_node_fds min.commute)
qed

text \<open>Open for reading, one read, close: the descriptor table and the files are as before.\<close>

lemma open_read_close:
  assumes "node_at w (resolve s) = Some (File c)"
  obtains fd w1 w2 where "open_rdonly s w = (fd, w1)" "0 \<le> fd"
    "sys_read fd n w1 = (int (length (take n c)), take n c, w2)" "sys_close fd w2 = w"
  using assms next_fd_fresh [of "w_fds w"]
  by (intro that) (auto simp: open_rdonly_def new_fd_def Let_def sys_read_def sys_close_def
      set_pos_def filter_fresh map_update_fresh)

lemma node_at_unlink:
  "node_at (sys_unlink s w) q =
     (if q = resolve s \<and> (\<exists>c. node_at w q = Some (File c)) then None else node_at w q)"
proof (cases "resolve s = []")
  case True
  then show ?thesis by (auto simp: sys_unlink_def node_at_def split: option.splits node.splits)
next
  case False
  then show ?thesis
    by (auto simp: sys_unlink_def node_at_drop split: option.splits node.splits)
qed

lemma unlink_frames [simp]:
  "w_fds (sys_unlink s w) = w_fds w" "w_wmax (sys_unlink s w) = w_wmax w"
  "w_date (sys_unlink s w) = w_date w"
  by (simp_all add: sys_unlink_def split: option.splits node.splits)

lemma fs_ok_unlink: "fs_ok w \<Longrightarrow> fs_ok (sys_unlink s w)"
  by (simp add: sys_unlink_def fs_ok_drop split: option.splits node.splits)

lemma set_children:
  assumes "fs_ok w"
  shows "set (children w p) = {c. node_at w (p @ [c]) \<noteq> None}"
proof -
  have "set (children w p) = {c. p @ [c] \<in> fst ` set (w_nodes w)}"
  proof -
    have *: "q = p @ [last q]" if "q \<in> fst ` set (w_nodes w)" "butlast q = p" for q
      using assms that append_butlast_last_id [of q] by (cases "q = []") (auto simp: fs_ok_def)
    show ?thesis
      by (auto simp: children_def image_iff) (metis * fst_conv imageI last_snoc, force)
  qed
  then show ?thesis by (auto simp: node_at_def map_of_eq_None_iff)
qed

lemma distinct_children:
  assumes "fs_ok w"
  shows "distinct (children w p)"
proof -
  have "inj_on last (fst ` {e \<in> set (w_nodes w). butlast (fst e) = p})"
  proof (rule inj_onI)
    fix x y
    assume x: "x \<in> fst ` {e \<in> set (w_nodes w). butlast (fst e) = p}"
      and y: "y \<in> fst ` {e \<in> set (w_nodes w). butlast (fst e) = p}" and eq: "last x = last y"
    from x y assms have "x \<noteq> []" "y \<noteq> []" by (force simp: fs_ok_def)+
    moreover have "butlast x = butlast y" using x y by auto
    ultimately show "x = y" using eq by (metis append_butlast_last_id)
  qed
  moreover have "distinct (map fst (filter (\<lambda>e. butlast (fst e) = p) (w_nodes w)))"
    using assms by (auto simp: fs_ok_def distinct_map inj_on_def)
  ultimately show ?thesis
    by (simp add: children_def distinct_map comp_inj_on flip: map_map)
qed

end
