(* ===== verification/Byte_Codec.thy ===== *)
theory Byte_Codec
  imports Prelude
begin

text \<open>
  The fixed-width integer fields of a memory block. The code reads and writes them through
  \<^verbatim>\<open>uint32_t*\<close> and \<^verbatim>\<open>uint64_t*\<close> pointers into a \<^verbatim>\<open>char*\<close> block; the machines it runs on are
  little-endian, so a field is its bytes, least significant first. The locale is the
  interface the buffer relies on: a codec of a fixed width whose decoder undoes the encoder.
\<close>

section \<open>Little-endian bytes\<close>

fun le_bytes :: "nat \<Rightarrow> nat \<Rightarrow> byte list" where
  "le_bytes 0 v = []"
| "le_bytes (Suc n) v = word_of_nat (v mod 256) # le_bytes n (v div 256)"

fun le_value :: "byte list \<Rightarrow> nat" where
  "le_value [] = 0"
| "le_value (b # bs) = unat b + 256 * le_value bs"

definition enc32 :: "u32 \<Rightarrow> byte list" where
  "enc32 x = le_bytes 4 (unat x)"

definition dec32 :: "byte list \<Rightarrow> u32" where
  "dec32 bs = word_of_nat (le_value bs)"

definition enc64 :: "u64 \<Rightarrow> byte list" where
  "enc64 x = le_bytes 8 (unat x)"

definition dec64 :: "byte list \<Rightarrow> u64" where
  "dec64 bs = word_of_nat (le_value bs)"

lemma length_le_bytes [simp]: "length (le_bytes n v) = n"
  by (induction n arbitrary: v) simp_all

lemma le_value_le_bytes: "le_value (le_bytes n v) = v mod 256 ^ n"
proof (induction n arbitrary: v)
  case 0
  then show ?case by simp
next
  case (Suc n)
  have "unat (word_of_nat (v mod 256) :: byte) = v mod 256"
    by (simp add: unat_of_nat take_bit_eq_mod)
  with Suc show ?case by (simp add: mod_mult2_eq)
qed

lemma le_value_bound: "le_value bs < 256 ^ length bs"
proof (induction bs)
  case Nil
  then show ?case by simp
next
  case (Cons b bs)
  have "unat b < 256" using unsigned_less [of b, where ?'a = nat] by simp
  with Cons show ?case by simp
qed

lemma le_bytes_le_value: "length bs = n \<Longrightarrow> le_bytes n (le_value bs) = bs"
proof (induction n arbitrary: bs)
  case 0
  then show ?case by simp
next
  case (Suc n)
  then obtain b bs' where bs: "bs = b # bs'" "length bs' = n" by (cases bs) auto
  have "unat b < 256" using unsigned_less [of b, where ?'a = nat] by simp
  with Suc.IH [OF bs(2)] show ?case by (simp add: bs(1))
qed

lemma length_enc32 [simp]: "length (enc32 x) = 4"
  by (simp add: enc32_def)

lemma length_enc64 [simp]: "length (enc64 x) = 8"
  by (simp add: enc64_def)

lemma dec32_enc32 [simp]: "dec32 (enc32 x) = x"
  by (simp add: dec32_def enc32_def le_value_le_bytes)

lemma dec64_enc64 [simp]: "dec64 (enc64 x) = x"
  by (simp add: dec64_def enc64_def le_value_le_bytes)

lemma enc32_dec32: "length bs = 4 \<Longrightarrow> enc32 (dec32 bs) = bs"
  using le_value_bound [of bs] by (simp add: enc32_def dec32_def unat_of_nat_u32 le_bytes_le_value)

lemma enc64_dec64: "length bs = 8 \<Longrightarrow> enc64 (dec64 bs) = bs"
  using le_value_bound [of bs] by (simp add: enc64_def dec64_def unat_of_nat_u64 le_bytes_le_value)

section \<open>The codec interface\<close>

locale fixed_codec =
  fixes enc :: "'w \<Rightarrow> byte list" and dec :: "byte list \<Rightarrow> 'w" and width :: nat
  assumes length_enc: "length (enc x) = width"
    and dec_enc: "dec (enc x) = x"
begin

lemma enc_inject: "enc x = enc y \<longleftrightarrow> x = y"
  by (metis dec_enc)

text \<open>A field read back after it was stored, and a field untouched by a store elsewhere.\<close>

lemma load_store_same:
  assumes "poke off (enc x) m = Inr m'"
  shows "rbind (peek off width m') (\<lambda>bs. Inr (dec bs)) = Inr x"
  using assms by (auto simp: poke_Inr_iff length_enc dec_enc mem_simps)

lemma load_store_other:
  assumes "poke off (enc x) m = Inr m'" and "o1 + n \<le> off \<or> off + width \<le> o1"
  shows "peek o1 n m' = peek o1 n m"
  using assms by (auto simp: poke_Inr_iff length_enc peek_def mem_simps)

text \<open>An array of fields is decoded element by element.\<close>

lemma chunk_concat_enc:
  "i < length xs \<Longrightarrow> dec (chunk (i * width) width (concat (map enc xs))) = xs ! i"
proof (induction xs arbitrary: i)
  case Nil
  then show ?case by simp
next
  case (Cons x xs)
  show ?case
  proof (cases i)
    case 0
    then show ?thesis by (simp add: chunk_def length_enc dec_enc)
  next
    case (Suc j)
    with Cons show ?thesis by (simp add: chunk_def length_enc add.commute)
  qed
qed

lemma length_concat_enc: "length (concat (map enc xs)) = length xs * width"
  by (induction xs) (simp_all add: length_enc)

end

interpretation c32: fixed_codec enc32 dec32 4
  by unfold_locales simp_all

interpretation c64: fixed_codec enc64 dec64 8
  by unfold_locales simp_all

end
