(* ===== verification/Buffer.thy ===== *)
theory Buffer
  imports Byte_Codec
begin

text \<open>
  \<^verbatim>\<open>include/buffer.hh\<close>: the data object exchanged between the processes. A buffer is the
  memory block from \<^verbatim>\<open>_ptr\<close> on, the flag that says whether the buffer owns it, and the
  payload size, which is kept beside the block. The detector, source and event identifiers
  are 32-bit fields at offsets 0, 4 and 8, the bunch crossing a 64-bit field at offset 12,
  the payload starts at 20. Every access checks the block, so an access the code does not
  guard is a fault of the model. The zlib library is a parameter.
\<close>

section \<open>State and accessors\<close>

record buffer =
  b_allocate :: bool
  b_mem :: "byte list"
  b_psize :: u32

text \<open>
  \<^verbatim>\<open>new char[max_size]\<close> leaves the bytes indeterminate: \<open>junk\<close> is whatever the allocator
  hands out. The second constructor maps the buffer onto a block of the caller.
\<close>

definition buffer_new :: "u32 \<Rightarrow> (nat \<Rightarrow> byte) \<Rightarrow> buffer" where
  "buffer_new max_size junk =
     \<lparr>b_allocate = True, b_mem = map junk [0 ..< unat max_size], b_psize = 0\<rparr>"

definition buffer_map :: "byte list \<Rightarrow> u32 \<Rightarrow> buffer" where
  "buffer_map ptr offset = \<lparr>b_allocate = False, b_mem = drop (unat offset) ptr, b_psize = 0\<rparr>"

definition store_field :: "nat \<Rightarrow> byte list \<Rightarrow> buffer \<Rightarrow> buffer res" where
  "store_field off bs b = rbind (poke off bs (b_mem b)) (\<lambda>m. Inr (b\<lparr>b_mem := m\<rparr>))"

definition setDetectorId :: "u32 \<Rightarrow> buffer \<Rightarrow> buffer res" where
  "setDetectorId i b = store_field 0 (enc32 i) b"

definition setDataSourceId :: "u32 \<Rightarrow> buffer \<Rightarrow> buffer res" where
  "setDataSourceId i b = store_field 4 (enc32 i) b"

definition setEventId :: "u32 \<Rightarrow> buffer \<Rightarrow> buffer res" where
  "setEventId i b = store_field 8 (enc32 i) b"

definition setBxId :: "u64 \<Rightarrow> buffer \<Rightarrow> buffer res" where
  "setBxId i b = store_field 12 (enc64 i) b"

definition setPayloadSize :: "u32 \<Rightarrow> buffer \<Rightarrow> buffer" where
  "setPayloadSize s b = b\<lparr>b_psize := s\<rparr>"

definition setPayload :: "byte list \<Rightarrow> u32 \<Rightarrow> buffer \<Rightarrow> buffer res" where
  "setPayload src payload_size b =
     rbind (peek 0 (unat payload_size) src) (\<lambda>bs.
     rbind (store_field 20 bs b) (\<lambda>b'. Inr (b'\<lparr>b_psize := payload_size\<rparr>)))"

definition detectorId :: "buffer \<Rightarrow> u32 res" where
  "detectorId b = rbind (peek 0 4 (b_mem b)) (\<lambda>bs. Inr (dec32 bs))"

definition dataSourceId :: "buffer \<Rightarrow> u32 res" where
  "dataSourceId b = rbind (peek 4 4 (b_mem b)) (\<lambda>bs. Inr (dec32 bs))"

definition eventId :: "buffer \<Rightarrow> u32 res" where
  "eventId b = rbind (peek 8 4 (b_mem b)) (\<lambda>bs. Inr (dec32 bs))"

definition bxId :: "buffer \<Rightarrow> u64 res" where
  "bxId b = rbind (peek 12 8 (b_mem b)) (\<lambda>bs. Inr (dec64 bs))"

definition size_of :: "buffer \<Rightarrow> u32" where
  "size_of b = b_psize b + 3 * 4 + 8"

definition payloadSize :: "buffer \<Rightarrow> u32" where
  "payloadSize b = b_psize b"

text \<open>What \<^verbatim>\<open>ptr()\<close> and \<^verbatim>\<open>payload()\<close> give a reader of \<open>n\<close> bytes.\<close>

definition read_ptr :: "nat \<Rightarrow> buffer \<Rightarrow> byte list res" where
  "read_ptr n b = peek 0 n (b_mem b)"

definition read_payload :: "nat \<Rightarrow> buffer \<Rightarrow> byte list res" where
  "read_payload n b = peek 20 n (b_mem b)"

section \<open>Compression\<close>

text \<open>
  The library calls: \<open>z_compress Z cap src\<close> is what the first \<^verbatim>\<open>*destLen\<close> bytes of a
  destination of \<open>cap\<close> bytes hold after \<^verbatim>\<open>compress\<close> (the code ignores the return code), and
  \<open>z_bound\<close> is \<^verbatim>\<open>compressBound\<close>.
\<close>

record zlib =
  z_compress :: "nat \<Rightarrow> byte list \<Rightarrow> byte list"
  z_uncompress :: "nat \<Rightarrow> byte list \<Rightarrow> byte list"
  z_bound :: "nat \<Rightarrow> nat"

text \<open>
  What zlib documents: it never writes past the destination, and data compressed into a
  destination of at least \<^verbatim>\<open>compressBound\<close> bytes is restored by \<^verbatim>\<open>uncompress\<close> into any
  destination that has room for it.
\<close>

definition zlib_ok :: "zlib \<Rightarrow> bool" where
  "zlib_ok Z \<longleftrightarrow>
     (\<forall>cap src. length (z_compress Z cap src) \<le> cap \<and> length (z_uncompress Z cap src) \<le> cap) \<and>
     (\<forall>cap src. z_bound Z (length src) \<le> cap \<longrightarrow>
        length (z_compress Z cap src) \<le> z_bound Z (length src) \<and>
        (\<forall>cap' \<ge> length src. z_uncompress Z cap' (z_compress Z cap src) = src))"

definition transform :: "(byte list \<Rightarrow> byte list) \<Rightarrow> buffer \<Rightarrow> buffer res" where
  "transform f b =
     rbind (read_payload (unat (payloadSize b)) b) (\<lambda>src.
     rbind (store_field 20 (f src) b) (\<lambda>b'. Inr (b'\<lparr>b_psize := word_of_nat (length (f src))\<rparr>)))"

definition buffer_compress :: "zlib \<Rightarrow> buffer \<Rightarrow> buffer res" where
  "buffer_compress Z b = transform (z_compress Z 0x20000) b"

definition buffer_uncompress :: "zlib \<Rightarrow> buffer \<Rightarrow> buffer res" where
  "buffer_uncompress Z b = transform (z_uncompress Z 0x20000) b"

section \<open>The abstract content of a buffer\<close>

text \<open>
  A frame is what a buffer means: four tags and a payload. \<open>frame_bytes\<close> is the layout the
  processes exchange; \<open>holds b f\<close> says that the block and the payload size of \<open>b\<close> represent
  the frame.
\<close>

record frame =
  f_det :: u32
  f_src :: u32
  f_evt :: u32
  f_bx :: u64
  f_payload :: "byte list"

definition header_bytes :: "frame \<Rightarrow> byte list" where
  "header_bytes f = enc32 (f_det f) @ enc32 (f_src f) @ enc32 (f_evt f) @ enc64 (f_bx f)"

definition frame_bytes :: "frame \<Rightarrow> byte list" where
  "frame_bytes f = header_bytes f @ f_payload f"

definition short :: "frame \<Rightarrow> bool" where
  "short f \<longleftrightarrow> length (f_payload f) \<le> 0x20000"

definition holds :: "buffer \<Rightarrow> frame \<Rightarrow> bool" where
  "holds b f \<longleftrightarrow> length (f_payload f) + 20 < 2 ^ 32 \<and>
     b_psize b = word_of_nat (length (f_payload f)) \<and>
     length (f_payload f) + 20 \<le> length (b_mem b) \<and>
     take (length (f_payload f) + 20) (b_mem b) = frame_bytes f"

lemma length_header [simp]: "length (header_bytes f) = 20"
  by (simp add: header_bytes_def)

lemma length_frame_bytes [simp]: "length (frame_bytes f) = 20 + length (f_payload f)"
  by (simp add: frame_bytes_def)

lemma store_field_Inr:
  "store_field off bs b = Inr b' \<longleftrightarrow>
     off + length bs \<le> length (b_mem b) \<and> b' = b\<lparr>b_mem := overwrite off bs (b_mem b)\<rparr>"
  by (auto simp: store_field_def rbind_Inr_iff poke_Inr_iff)

lemma store_field_ok [simp]:
  "off + length bs \<le> length (b_mem b) \<Longrightarrow>
     store_field off bs b = Inr (b\<lparr>b_mem := overwrite off bs (b_mem b)\<rparr>)"
  by (simp add: store_field_def)

lemma store_field_bad [simp]:
  "length (b_mem b) < off + length bs \<Longrightarrow> store_field off bs b = Inl Out_Of_Bounds"
  by (simp add: store_field_def)

lemmas setter_defs = setDetectorId_def setDataSourceId_def setEventId_def setBxId_def
lemmas getter_defs = detectorId_def dataSourceId_def eventId_def bxId_def

lemma holds_psize:
  assumes "holds b f"
  shows "unat (b_psize b) = length (f_payload f)" and "unat (size_of b) = length (f_payload f) + 20"
proof -
  have l: "length (f_payload f) + 20 < 2 ^ 32" using assms by (simp add: holds_def)
  have p: "b_psize b = word_of_nat (length (f_payload f))" using assms by (simp add: holds_def)
  show "unat (b_psize b) = length (f_payload f)" using l by (simp add: p unat_of_nat_u32)
  have "size_of b = word_of_nat (length (f_payload f) + 20)" by (simp add: size_of_def p)
  with l show "unat (size_of b) = length (f_payload f) + 20" by (simp only: unat_of_nat_u32)
qed

lemma chunk_take: "off + n \<le> k \<Longrightarrow> chunk off n (take k m) = chunk off n m"
  by (simp add: chunk_def drop_take min_def)

lemma holds_chunk:
  assumes "holds b f" and "off + n \<le> length (f_payload f) + 20"
  shows "peek off n (b_mem b) = Inr (chunk off n (frame_bytes f))"
proof -
  have le: "length (f_payload f) + 20 \<le> length (b_mem b)"
    and eq: "take (length (f_payload f) + 20) (b_mem b) = frame_bytes f"
    using assms(1) by (auto simp: holds_def)
  have "chunk off n (b_mem b) = chunk off n (frame_bytes f)"
    using chunk_take [OF assms(2), of "b_mem b"] eq by simp
  with le assms(2) show ?thesis by simp
qed

lemma chunk_frame:
  "chunk 0 4 (frame_bytes f) = enc32 (f_det f)"
  "chunk 4 4 (frame_bytes f) = enc32 (f_src f)"
  "chunk 8 4 (frame_bytes f) = enc32 (f_evt f)"
  "chunk 12 8 (frame_bytes f) = enc64 (f_bx f)"
  "chunk 20 (length (f_payload f)) (frame_bytes f) = f_payload f"
  "chunk 0 20 (frame_bytes f) = header_bytes f"
  by (simp_all add: chunk_def frame_bytes_def header_bytes_def)

text \<open>The accessors of a buffer that holds a frame return the frame's tags.\<close>

lemma holds_getters:
  assumes "holds b f"
  shows "detectorId b = Inr (f_det f)" "dataSourceId b = Inr (f_src f)"
    "eventId b = Inr (f_evt f)" "bxId b = Inr (f_bx f)"
    "read_payload (unat (payloadSize b)) b = Inr (f_payload f)"
    "read_ptr (unat (size_of b)) b = Inr (frame_bytes f)"
proof -
  show "detectorId b = Inr (f_det f)" "dataSourceId b = Inr (f_src f)"
    "eventId b = Inr (f_evt f)" "bxId b = Inr (f_bx f)"
    using holds_chunk [OF assms, of 0 4] holds_chunk [OF assms, of 4 4]
      holds_chunk [OF assms, of 8 4] holds_chunk [OF assms, of 12 8]
    by (simp_all add: getter_defs chunk_frame)
  show "read_payload (unat (payloadSize b)) b = Inr (f_payload f)"
    using holds_chunk [OF assms, of 20 "length (f_payload f)"]
    by (simp add: read_payload_def payloadSize_def holds_psize [OF assms] chunk_frame)
  show "read_ptr (unat (size_of b)) b = Inr (frame_bytes f)"
    using assms by (simp add: read_ptr_def holds_psize [OF assms] holds_def chunk_0)
qed

text \<open>A frame that is copied to the start of a block, with its size set, is held.\<close>

lemma holds_copy:
  assumes "length (f_payload f) + 20 < 2 ^ 32" "length (f_payload f) + 20 \<le> length (b_mem b)"
  shows "holds (b\<lparr>b_mem := overwrite 0 (frame_bytes f) (b_mem b),
                 b_psize := word_of_nat (length (f_payload f))\<rparr>) f"
  using assms by (simp add: holds_def overwrite_def)

section \<open>The operations on frames\<close>

text \<open>
  Every block with room for the header and the payload holds exactly one frame,
  \<open>frame_of b\<close>; the setters are the updates of that frame.
\<close>

definition buf_ok :: "buffer \<Rightarrow> bool" where
  "buf_ok b \<longleftrightarrow> 20 + unat (b_psize b) \<le> length (b_mem b) \<and> 20 + unat (b_psize b) < 2 ^ 32"

definition frame_of :: "buffer \<Rightarrow> frame" where
  "frame_of b = \<lparr>f_det = dec32 (chunk 0 4 (b_mem b)), f_src = dec32 (chunk 4 4 (b_mem b)),
     f_evt = dec32 (chunk 8 4 (b_mem b)), f_bx = dec64 (chunk 12 8 (b_mem b)),
     f_payload = chunk 20 (unat (b_psize b)) (b_mem b)\<rparr>"

lemma holds_frame_of:
  assumes "buf_ok b"
  shows "holds b (frame_of b)"
proof -
  let ?m = "b_mem b" and ?n = "unat (b_psize b)"
  have len: "20 + ?n \<le> length ?m" using assms by (simp add: buf_ok_def)
  have hd: "chunk 0 20 ?m = chunk 0 4 ?m @ chunk 4 4 ?m @ chunk 8 4 ?m @ chunk 12 8 ?m"
    using chunk_append [of 0 12 8 ?m] chunk_append [of 0 8 4 ?m] chunk_append [of 0 4 4 ?m] by simp
  have "take (?n + 20) ?m = chunk 0 20 ?m @ chunk 20 ?n ?m"
    using chunk_append [of 0 20 ?n ?m] by (simp add: chunk_0 add.commute)
  with len assms hd show ?thesis
    by (simp add: holds_def frame_of_def frame_bytes_def header_bytes_def buf_ok_def
        enc32_dec32 enc64_dec64)
qed

lemma length_payload: "buf_ok b \<Longrightarrow> length (f_payload (frame_of b)) = unat (payloadSize b)"
  by (simp add: frame_of_def buf_ok_def payloadSize_def)

lemma holds_unique:
  assumes "holds b f"
  shows "buf_ok b" and "frame_of b = f"
proof -
  have n: "unat (b_psize b) = length (f_payload f)" by (rule holds_psize [OF assms])
  show "buf_ok b" using assms n by (simp add: holds_def buf_ok_def)
  have c: "chunk off k (b_mem b) = chunk off k (frame_bytes f)"
    if "off + k \<le> length (f_payload f) + 20" for off k
    using holds_chunk [OF assms that] assms that by (simp add: holds_def)
  show "frame_of b = f"
    by (simp add: frame_of_def n c chunk_frame)
qed

lemma frame_of_setters:
  assumes "buf_ok b"
  shows "setDetectorId d b = Inr b' \<Longrightarrow> buf_ok b' \<and> frame_of b' = (frame_of b)\<lparr>f_det := d\<rparr>"
    and "setDataSourceId d b = Inr b' \<Longrightarrow> buf_ok b' \<and> frame_of b' = (frame_of b)\<lparr>f_src := d\<rparr>"
    and "setEventId d b = Inr b' \<Longrightarrow> buf_ok b' \<and> frame_of b' = (frame_of b)\<lparr>f_evt := d\<rparr>"
    and "setBxId x b = Inr b' \<Longrightarrow> buf_ok b' \<and> frame_of b' = (frame_of b)\<lparr>f_bx := x\<rparr>"
  using assms
  by (auto simp: setter_defs store_field_Inr buf_ok_def frame_of_def mem_simps)

lemma setters_total:
  assumes "20 \<le> length (b_mem b)"
  obtains b1 b2 b3 b4 where "setDetectorId d b = Inr b1" "setDataSourceId s b = Inr b2"
    "setEventId e b = Inr b3" "setBxId x b = Inr b4"
  using assms that by (simp add: setter_defs)

lemma setter_block:
  "store_field off bs b = Inr b' \<Longrightarrow> length (b_mem b') = length (b_mem b) \<and>
     b_psize b' = b_psize b \<and> b_allocate b' = b_allocate b"
  by (auto simp: store_field_Inr)

lemma length_buffer_new [simp]: "length (b_mem (buffer_new n junk)) = unat n"
  by (simp add: buffer_new_def)

lemma buffer_new_psize [simp]: "b_psize (buffer_new n junk) = 0"
  by (simp add: buffer_new_def)

text \<open>A buffer as the event builder allocates it, with a payload that fits a work array.\<close>

definition fragment_ok :: "buffer \<Rightarrow> bool" where
  "fragment_ok b \<longleftrightarrow> buf_ok b \<and> length (b_mem b) = 0x80000 \<and> unat (b_psize b) \<le> 0x20000"

text \<open>The frame that a block of bytes lays out.\<close>

definition parse_frame :: "byte list \<Rightarrow> frame" where
  "parse_frame c = \<lparr>f_det = dec32 (chunk 0 4 c), f_src = dec32 (chunk 4 4 c),
     f_evt = dec32 (chunk 8 4 c), f_bx = dec64 (chunk 12 8 c), f_payload = drop 20 c\<rparr>"

lemma parse_frame_bytes [simp]: "parse_frame (frame_bytes f) = f"
  by (simp add: parse_frame_def chunk_frame) (simp add: frame_bytes_def)

section \<open>Properties\<close>

lemma setPayload_Inr:
  "setPayload src n b = Inr b' \<longleftrightarrow>
     unat n \<le> length src \<and> 20 + unat n \<le> length (b_mem b) \<and>
     b' = b\<lparr>b_mem := overwrite 20 (take (unat n) src) (b_mem b), b_psize := n\<rparr>"
  by (auto simp: setPayload_def rbind_Inr_iff store_field_Inr peek_def chunk_0)

lemma transform_Inr:
  "transform f b = Inr b' \<longleftrightarrow>
     20 + unat (b_psize b) \<le> length (b_mem b) \<and>
     (let o' = f (chunk 20 (unat (b_psize b)) (b_mem b)) in
       20 + length o' \<le> length (b_mem b) \<and>
       b' = b\<lparr>b_mem := overwrite 20 o' (b_mem b), b_psize := word_of_nat (length o')\<rparr>)"
  by (auto simp: transform_def rbind_Inr_iff store_field_Inr read_payload_def payloadSize_def
      peek_def Let_def)

lemma transform_frame:
  assumes "transform f b = Inr b'" and "length (f (f_payload (frame_of b))) + 20 < 2 ^ 32"
  shows "buf_ok b' \<and> frame_of b' = (frame_of b)\<lparr>f_payload := f (f_payload (frame_of b))\<rparr>"
proof -
  let ?o = "f (f_payload (frame_of b))"
  have p: "unat (word_of_nat (length ?o) :: u32) = length ?o"
    using assms(2) by (simp add: unat_of_nat_u32)
  have b': "b' = b\<lparr>b_mem := overwrite 20 ?o (b_mem b), b_psize := word_of_nat (length ?o)\<rparr>"
    and fit: "20 + length ?o \<le> length (b_mem b)"
    using assms(1) by (auto simp: transform_Inr Let_def frame_of_def)
  show ?thesis
    using fit assms(2)
    by (simp add: b' buf_ok_def unat_of_nat_u32 frame_of_def mem_simps)
qed

lemma transform_ok:
  assumes "buf_ok b" and "20 + length (f (f_payload (frame_of b))) \<le> length (b_mem b)"
  shows "\<exists>b'. transform f b = Inr b' \<and> length (b_mem b') = length (b_mem b)"
  using assms by (simp add: transform_Inr Let_def frame_of_def buf_ok_def)

lemma transform_block:
  "transform f b = Inr b' \<Longrightarrow> length (b_mem b') = length (b_mem b) \<and> b_allocate b' = b_allocate b"
  by (auto simp: transform_Inr Let_def)

text \<open>
  \<^verbatim>\<open>setPayload\<close> copies exactly when the source has the bytes and the block has room for
  them behind the 20 header bytes; otherwise it leaves the block. When it copies, the
  payload read back is the source's prefix, the size is set, and the four tags are as before.
\<close>

theorem setPayload_spec:
  assumes "buf_ok b"
  shows "if unat n \<le> length src \<and> 20 + unat n \<le> length (b_mem b)
     then \<exists>b'. setPayload src n b = Inr b' \<and> payloadSize b' = n \<and>
            read_payload (unat n) b' = Inr (take (unat n) src) \<and>
            frame_of b' = (frame_of b)\<lparr>f_payload := take (unat n) src\<rparr>
     else setPayload src n b = Inl Out_Of_Bounds"
proof (cases "unat n \<le> length src \<and> 20 + unat n \<le> length (b_mem b)")
  case True
  then show ?thesis
    using assms
    by (simp add: setPayload_Inr buf_ok_def payloadSize_def read_payload_def frame_of_def mem_simps)
next
  case False
  then show ?thesis by (cases "unat n \<le> length src") (auto simp: setPayload_def)
qed

theorem setPayload_spec_witness:
  "\<exists>b'. setPayload [1, 2, 3] 2 (buffer_new 24 (\<lambda>_. 0)) = Inr b' \<and> payloadSize b' = 2 \<and>
     read_payload 2 b' = Inr [1, 2]"
proof -
  have ok: "buf_ok (buffer_new 24 (\<lambda>_. 0))" by (simp add: buf_ok_def)
  from setPayload_spec [OF ok, of 2 "[1, 2, 3]"] show ?thesis by auto
qed

text \<open>
  C40: a payload that is compressed and then uncompressed is the same payload, and neither
  step touches the tags, whenever the payload fits the 128 kB work array and the block has
  room for the worst case of the compressor; both calls then return.
\<close>

theorem compress_uncompress:
  assumes "zlib_ok Z" and "buf_ok b" and "unat (payloadSize b) \<le> 0x20000"
    and "z_bound Z (unat (payloadSize b)) \<le> 0x20000"
    and "20 + z_bound Z (unat (payloadSize b)) \<le> length (b_mem b)"
  shows "\<exists>b1 b2. buffer_compress Z b = Inr b1 \<and> buffer_uncompress Z b1 = Inr b2 \<and>
           unat (payloadSize b1) \<le> z_bound Z (unat (payloadSize b)) \<and>
           frame_of b1 = (frame_of b)\<lparr>f_payload := z_compress Z 0x20000 (f_payload (frame_of b))\<rparr> \<and>
           frame_of b2 = frame_of b \<and> payloadSize b2 = payloadSize b"
proof -
  let ?p = "f_payload (frame_of b)" and ?c = "z_compress Z 0x20000 (f_payload (frame_of b))"
  have len: "length ?p = unat (payloadSize b)"
    by (rule length_payload [OF assms(2)])
  have bound: "z_bound Z (length ?p) \<le> 0x20000" and fits: "length ?p \<le> 0x20000"
    using assms(3,4) by (simp_all add: len)
  have c: "length ?c \<le> z_bound Z (length ?p)" and u: "z_uncompress Z 0x20000 ?c = ?p"
    using assms(1) bound fits unfolding zlib_ok_def by blast+
  have small: "length ?c + 20 < 2 ^ 32" and small': "length ?p + 20 < 2 ^ 32"
    using c assms(3,4) by (simp_all add: len)
  have fit: "20 + length ?c \<le> length (b_mem b)" using c assms(5) by (simp add: len)
  obtain b1 where
    b1: "transform (z_compress Z 0x20000) b = Inr b1" "length (b_mem b1) = length (b_mem b)"
    using transform_ok [where f = "z_compress Z 0x20000", OF assms(2) fit] by blast
  from transform_frame [where f = "z_compress Z 0x20000", OF b1(1) small] have ok1: "buf_ok b1"
    and fr1: "frame_of b1 = (frame_of b)\<lparr>f_payload := ?c\<rparr>" by auto
  have len1: "length (f_payload (frame_of b1)) = unat (payloadSize b1)"
    by (rule length_payload [OF ok1])
  have fit1: "20 + length (z_uncompress Z 0x20000 (f_payload (frame_of b1))) \<le> length (b_mem b1)"
    using assms(2) b1(2) by (simp add: fr1 u len buf_ok_def payloadSize_def)
  obtain b2 where b2: "transform (z_uncompress Z 0x20000) b1 = Inr b2"
    using transform_ok [where f = "z_uncompress Z 0x20000", OF ok1 fit1] by blast
  have fr2: "buf_ok b2 \<and> frame_of b2 = frame_of b"
    using transform_frame [where f = "z_uncompress Z 0x20000", OF b2] small' by (simp add: fr1 u)
  have "payloadSize b2 = payloadSize b"
    using fr2 length_payload [of b2] len by (simp add: word_unat_eq_iff)
  with b1 b2 fr1 fr2 len1 c show ?thesis
    by (simp add: buffer_compress_def buffer_uncompress_def len)
qed

theorem compress_uncompress_witness:
  "\<exists>Z b1 b2. buffer_compress Z (setPayloadSize 8 (buffer_new 64 (\<lambda>_. 7))) = Inr b1 \<and> buffer_uncompress Z b1 = Inr b2 \<and>
     frame_of b2 = frame_of (setPayloadSize 8 (buffer_new 64 (\<lambda>_. 7)))"
proof -
  let ?Z = "\<lparr>z_compress = take, z_uncompress = take, z_bound = \<lambda>n. n\<rparr>"
  have z: "zlib_ok ?Z" by (simp add: zlib_ok_def)
  have ok: "buf_ok (setPayloadSize 8 (buffer_new 64 (\<lambda>_. 7)))" by (simp add: buf_ok_def setPayloadSize_def)
  from compress_uncompress [OF z ok] show ?thesis by (auto simp: payloadSize_def setPayloadSize_def)
qed

section \<open>Concrete instances\<close>

text \<open>A compressor that stores, and a fragment with a payload of \<open>n\<close> bytes.\<close>

definition demo_zlib :: zlib where
  "demo_zlib = \<lparr>z_compress = take, z_uncompress = take, z_bound = \<lambda>n. n\<rparr>"

definition demo_fragment :: "u32 \<Rightarrow> buffer" where
  "demo_fragment n = setPayloadSize n (buffer_new 0x80000 (\<lambda>_. 7))"

lemma demo_fragment_ok: "unat n \<le> 0x20000 \<Longrightarrow> fragment_ok (demo_fragment n)"
  by (simp add: demo_fragment_def fragment_ok_def buf_ok_def setPayloadSize_def)

lemma demo_zlib_ok: "zlib_ok demo_zlib"
  by (simp add: zlib_ok_def demo_zlib_def)

definition demo_frame :: frame where
  "demo_frame = \<lparr>f_det = 1, f_src = 2, f_evt = 3, f_bx = 4, f_payload = [9, 8, 7]\<rparr>"

end
