(* ===== verification/Spool.thy ===== *)
theory Spool
  imports Posix Buffer
begin

text \<open>
  The static functions of \<^verbatim>\<open>src/shmdriver.cxx\<close>: the shared-memory directory through which the
  data sockets hand event fragments to the event builder. A fragment is a file of the
  directory named by its four identifiers; an empty file of the same name under \<^verbatim>\<open>closed\<close> says
  that the data are complete. The last section gives the directory its meaning, a map from
  names to bytes, and shows each function to be an operation of that map.
\<close>

section \<open>Keys\<close>

definition dskey :: "u32 \<Rightarrow> u32 \<Rightarrow> u32" where
  "dskey d s = (s AND 0xFFF) OR (push_bit 12 (d AND 0xFFF))"

definition key_source_id :: "u32 \<Rightarrow> u32" where
  "key_source_id k = k AND 0xFFF"

definition key_detector_id :: "u32 \<Rightarrow> u32" where
  "key_detector_id k = (drop_bit 12 k) AND 0xFFF"

section \<open>File names\<close>

definition event_name :: "u32 \<Rightarrow> u32 \<Rightarrow> u32 \<Rightarrow> u64 \<Rightarrow> string" where
  "event_name detid sourceid eventid bxid =
     ''Event_'' @ show32 detid @ ''_'' @ show32 sourceid @ ''_'' @ show32 eventid @ ''_'' @ show64 bxid"

definition event_format :: "directive list" where
  "event_format = map Lit ''Event_'' @
     [Conv_U, Lit CHR ''_'', Conv_U, Lit CHR ''_'', Conv_U, Lit CHR ''_'', Conv_U]"

definition name_detId :: "string \<Rightarrow> u32 res" where
  "name_detId n = rbind (scanned (sscanf event_format n) 0) (\<lambda>v. Inr (ucast v))"

definition name_sourceId :: "string \<Rightarrow> u32 res" where
  "name_sourceId n = rbind (scanned (sscanf event_format n) 1) (\<lambda>v. Inr (ucast v))"

definition name_eventId :: "string \<Rightarrow> u32 res" where
  "name_eventId n = rbind (scanned (sscanf event_format n) 2) (\<lambda>v. Inr (ucast v))"

definition name_bxId :: "string \<Rightarrow> u64 res" where
  "name_bxId n = scanned (sscanf event_format n) 3"

section \<open>Directory operations\<close>

definition file_select_2 :: "string \<Rightarrow> bool" where
  "file_select_2 n \<longleftrightarrow> \<not> (n = ''.'' \<or> n = ''..'')"

definition create_directories :: "string \<Rightarrow> world \<Rightarrow> world" where
  "create_directories memdir w = snd (sys_mkdir (memdir @ ''/closed'') w)"

definition shm_ls :: "string \<Rightarrow> world \<Rightarrow> string list" where
  "shm_ls sourcedir w =
     (case scandir w (sourcedir @ ''/closed/'') file_select_2 of None \<Rightarrow> [] | Some files \<Rightarrow> files)"

text \<open>One turn of the loop of \<^verbatim>\<open>purgeShm\<close>: both files are unlinked by way of \<^verbatim>\<open>char fname[256]\<close>.\<close>

definition purge_one :: "string \<Rightarrow> string \<Rightarrow> world \<Rightarrow> world res" where
  "purge_one memory_dir n w =
     rbind (sprintf_into 256 (memory_dir @ ''/'' @ n)) (\<lambda>fname.
     rbind (sprintf_into 256 (memory_dir @ ''/closed/'' @ ''/'' @ n)) (\<lambda>fname'.
     Inr (sys_unlink fname' (sys_unlink fname w))))"

definition purgeShm :: "string \<Rightarrow> world \<Rightarrow> world res" where
  "purgeShm memory_dir w =
     (case scandir w (memory_dir @ ''/closed/'') file_select_2 of
        None \<Rightarrow> Inr w
      | Some files \<Rightarrow> rfold (purge_one memory_dir) files w)"

definition shm_pull :: "string \<Rightarrow> buffer \<Rightarrow> string \<Rightarrow> world \<Rightarrow> (buffer \<times> world) res" where
  "shm_pull n buf sourcedir w =
     (let sc = sourcedir @ ''/closed/'' @ n; sd = sourcedir @ ''/'' @ n;
          (fd, w1) = open_rdonly sd w in
      if fd < 0 then Inr (buf, w1)
      else
        (let (size_buf, bs, w2) = sys_read fd 0x20000 w1 in
         rbind (poke 0 bs (b_mem buf)) (\<lambda>m.
         Inr (setPayloadSize (word_of_int size_buf - 20) (buf\<lparr>b_mem := m\<rparr>),
              sys_unlink sd (sys_unlink sc (sys_close fd w2))))))"

definition shm_store ::
  "u32 \<Rightarrow> u32 \<Rightarrow> u32 \<Rightarrow> u64 \<Rightarrow> byte list \<Rightarrow> u32 \<Rightarrow> string \<Rightarrow> world \<Rightarrow> world res" where
  "shm_store detid sourceid eventid bxid ptr nbytes destdir w =
     rbind (sprintf_into 512 (destdir @ ''/'' @ event_name detid sourceid eventid bxid)) (\<lambda>name1.
     (let (fd, w1) = open_creat name1 w in
      if fd < 0 then Inr w1
      else
        rbind (peek 0 (unat nbytes) ptr) (\<lambda>bytes.
        (let (ier, w2) = sys_write fd bytes w1 in
         if word_of_int ier \<noteq> nbytes then Inr (sys_close fd w2)
         else
           (let w3 = sys_close fd w2 in
            rbind (sprintf_into 512
              (destdir @ ''/closed/'' @ event_name detid sourceid eventid bxid)) (\<lambda>name2.
            (let (fd2, w4) = open_creat name2 w3 in Inr (sys_close fd2 w4))))))))"

section \<open>Keys and names: round trips\<close>

lemma mask12: "(0xFFF :: u32) = mask 12"
  by (simp add: mask_eq_exp_minus_1)

lemma dskey_source: "key_source_id (dskey d s) = s AND 0xFFF"
  unfolding key_source_id_def dskey_def mask12
  by (rule bit_word_eqI) (auto simp: bit_simps)

lemma dskey_detector: "key_detector_id (dskey d s) = d AND 0xFFF"
  unfolding key_detector_id_def dskey_def mask12
  by (rule bit_word_eqI) (auto simp: bit_simps)

text \<open>
  The key of a data source keeps the low twelve bits of each identifier and nothing else:
  the two selectors give them back, and two sources share a key exactly when those bits agree.
\<close>

theorem dskey_fields:
  "key_source_id (dskey d s) = s AND 0xFFF \<and> key_detector_id (dskey d s) = d AND 0xFFF \<and>
   (dskey d s = dskey d' s' \<longleftrightarrow> d AND 0xFFF = d' AND 0xFFF \<and> s AND 0xFFF = s' AND 0xFFF)"
proof -
  have "d AND 0xFFF = d' AND 0xFFF \<and> s AND 0xFFF = s' AND 0xFFF" if "dskey d s = dskey d' s'"
    using arg_cong [OF that, of key_source_id] arg_cong [OF that, of key_detector_id]
    by (simp add: dskey_source dskey_detector)
  moreover have "dskey d s = dskey d' s'" if "d AND 0xFFF = d' AND 0xFFF \<and> s AND 0xFFF = s' AND 0xFFF"
    using that by (simp only: dskey_def)
  ultimately show ?thesis using dskey_source dskey_detector by blast
qed

lemma scan_then_underscore:
  "sscanf (Conv_U # Lit CHR ''_'' # ds) (show_nat n @ CHR ''_'' # r) =
     scan_value False False n # sscanf ds r"
  by (simp add: scan_int_show is_digit_def)

lemma scan_last: "sscanf [Conv_U] (show_nat n) = [scan_value False False n]"
  using scan_int_show [of "[]" False n] by simp

lemma sscanf_event_name:
  "sscanf event_format (event_name d s e b) =
     [word_of_nat (unat d), word_of_nat (unat s), word_of_nat (unat e), b]"
proof -
  have v: "scan_value False False (unat x) = word_of_nat (unat x)" for x :: u32
    using unat_u32_lt [of x] by (intro scan_value_small) (simp del: unat_u32_lt)
  have v': "scan_value False False (unat b) = b"
    using unat_u64_lt [of b] by (subst scan_value_small) (simp_all del: unat_u64_lt)
  show ?thesis
    unfolding event_format_def event_name_def sscanf_literals
    by (simp add: show32_def show64_def scan_then_underscore scan_last v v' del: sscanf.simps)
qed

text \<open>
  The four identifiers of a fragment are recovered from its file name by the four parsers,
  for all their values; in particular the name determines them.
\<close>

theorem event_name_fields:
  "name_detId (event_name d s e b) = Inr d \<and> name_sourceId (event_name d s e b) = Inr s \<and>
   name_eventId (event_name d s e b) = Inr e \<and> name_bxId (event_name d s e b) = Inr b"
  by (simp add: name_detId_def name_sourceId_def name_eventId_def name_bxId_def scanned_def
      sscanf_event_name)

lemma event_name_inject:
  assumes "event_name d s e b = event_name d' s' e' b'"
  shows "d = d' \<and> s = s' \<and> e = e' \<and> b = b'"
  using event_name_fields [of d s e b, unfolded assms] event_name_fields [of d' s' e' b']
  by auto

lemma event_name_no_slash: "CHR ''/'' \<notin> set (event_name d s e b)"
proof -
  have "CHR ''/'' \<notin> set (show_nat n)" for n
    using show_nat_digits [of n] is_digit_not_special by blast
  then show ?thesis by (simp add: event_name_def show32_def show64_def)
qed

lemma event_name_is_name [simp]: "is_name (event_name d s e b)"
  using event_name_no_slash [of d s e b] by (simp add: is_name_def) (simp add: event_name_def)

lemma event_name_not_closed: "event_name d s e b \<noteq> ''closed''"
  by (simp add: event_name_def)

section \<open>The directory as a map from names to bytes\<close>

definition data_path :: "string \<Rightarrow> string \<Rightarrow> string list" where
  "data_path dir n = resolve dir @ [n]"

definition mark_path :: "string \<Rightarrow> string \<Rightarrow> string list" where
  "mark_path dir n = resolve dir @ [''closed'', n]"

text \<open>
  The fragments a reader can take: those with a marker, mapped to the bytes of their file.
\<close>

definition spool_view :: "string \<Rightarrow> world \<Rightarrow> string \<Rightarrow> byte list option" where
  "spool_view dir w n =
     (if node_at w (mark_path dir n) = None then None else Some (content w (data_path dir n)))"

text \<open>
  The directory is usable: it and its \<^verbatim>\<open>closed\<close> directory exist, markers are files with short
  names, and every marker has its data file.
\<close>

definition spool_ok :: "string \<Rightarrow> world \<Rightarrow> bool" where
  "spool_ok dir w \<longleftrightarrow> fs_ok w \<and> node_at w (resolve dir) = Some Dir \<and>
     node_at w (resolve dir @ [''closed'']) = Some Dir \<and>
     (\<forall>n. node_at w (mark_path dir n) \<noteq> None \<longrightarrow>
        is_name n \<and> n \<noteq> ''closed'' \<and> file_select_2 n \<and> length dir + length n + 9 < 256 \<and>
        (\<exists>c. node_at w (mark_path dir n) = Some (File c)) \<and>
        (\<exists>c. node_at w (data_path dir n) = Some (File c)))"

lemma resolve_paths [simp]:
  assumes "is_name n"
  shows "resolve (dir @ CHR ''/'' # n) = data_path dir n"
    and "resolve (dir @ CHR ''/'' # CHR ''c'' # CHR ''l'' # CHR ''o'' # CHR ''s'' # CHR ''e'' # CHR ''d'' # CHR ''/'' # n) = mark_path dir n"
    and "resolve (dir @ CHR ''/'' # CHR ''c'' # CHR ''l'' # CHR ''o'' # CHR ''s'' # CHR ''e'' # CHR ''d'' # CHR ''/'' # CHR ''/'' # n) = mark_path dir n"
proof -
  have c: "resolve (''closed'' @ CHR ''/'' # m) = ''closed'' # resolve m" for m
    by (subst resolve_append) (simp add: resolve_def)
  have c': "resolve (CHR ''/'' # m) = resolve m" for m
    using resolve_append [of "[]" m] by simp
  show "resolve (dir @ CHR ''/'' # n) = data_path dir n"
    by (simp add: resolve_append data_path_def assms)
  show "resolve (dir @ CHR ''/'' # CHR ''c'' # CHR ''l'' # CHR ''o'' # CHR ''s'' # CHR ''e'' # CHR ''d'' # CHR ''/'' # n) = mark_path dir n"
    using c [of n] by (simp add: resolve_append mark_path_def assms)
  show "resolve (dir @ CHR ''/'' # CHR ''c'' # CHR ''l'' # CHR ''o'' # CHR ''s'' # CHR ''e'' # CHR ''d'' # CHR ''/'' # CHR ''/'' # n) = mark_path dir n"
    using c [of "CHR ''/'' # n"] by (simp add: resolve_append c' mark_path_def assms)
qed

lemma resolve_closed [simp]:
  "resolve (dir @ ''/closed/'') = resolve dir @ [''closed'']"
  "resolve (dir @ ''/closed'') = resolve dir @ [''closed'']"
proof -
  have "resolve ''closed/'' = [''closed'']" "resolve ''closed'' = [''closed'']"
    by (simp_all add: resolve_def)
  then show "resolve (dir @ ''/closed/'') = resolve dir @ [''closed'']"
    "resolve (dir @ ''/closed'') = resolve dir @ [''closed'']"
    using resolve_append [of dir "''closed/''"] resolve_append [of dir "''closed''"] by simp_all
qed

lemma paths_differ [simp]:
  "mark_path dir n \<noteq> data_path dir m" "data_path dir m \<noteq> mark_path dir n"
  "(data_path dir n = data_path dir m) = (n = m)" "(mark_path dir n = mark_path dir m) = (n = m)"
  "data_path dir n \<noteq> []" "mark_path dir n \<noteq> []" "data_path dir n \<noteq> resolve dir"
  "mark_path dir n \<noteq> resolve dir" "mark_path dir n \<noteq> resolve dir @ [''closed'']"
  "(data_path dir n = resolve dir @ [''closed'']) = (n = ''closed'')"
  "(resolve dir @ [''closed''] = data_path dir n) = (n = ''closed'')"
  "resolve dir \<noteq> data_path dir n" "resolve dir \<noteq> mark_path dir n"
  "resolve dir @ [''closed''] \<noteq> mark_path dir n"
  by (auto simp: data_path_def mark_path_def)

lemma butlast_paths [simp]:
  "butlast (data_path dir n) = resolve dir" "butlast (mark_path dir n) = resolve dir @ [''closed'']"
  by (simp_all add: data_path_def mark_path_def butlast_append)

section \<open>The functions as operations of the map\<close>

lemma spool_viewD:
  assumes "spool_ok dir w" and "spool_view dir w n = Some c"
  shows "is_name n" "n \<noteq> ''closed''" "length dir + length n + 9 < 256"
    "\<exists>m. node_at w (mark_path dir n) = Some (File m)"
    "node_at w (data_path dir n) = Some (File c)"
  using assms by (auto simp: spool_ok_def spool_view_def content_def split: if_splits)

lemma shm_ls_sorted:
  assumes "spool_ok dir w"
  shows "set (shm_ls dir w) = dom (spool_view dir w)"
    and "sorted (shm_ls dir w)" and "distinct (shm_ls dir w)"
proof -
  let ?cl = "resolve dir @ [''closed'']"
  have ok: "fs_ok w" "node_at w ?cl = Some Dir" using assms by (auto simp: spool_ok_def)
  have ls: "shm_ls dir w = sort (filter file_select_2 (children w ?cl))"
    using ok by (simp add: shm_ls_def scandir_def file_select_2_def)
  have "set (children w ?cl) = {n. node_at w (mark_path dir n) \<noteq> None}"
    by (simp add: set_children [OF ok(1)] mark_path_def)
  moreover have "file_select_2 n" if "node_at w (mark_path dir n) \<noteq> None" for n
    using assms that by (simp add: spool_ok_def)
  ultimately show "set (shm_ls dir w) = dom (spool_view dir w)"
    by (auto simp: ls spool_view_def dom_def)
  show "sorted (shm_ls dir w)" by (simp add: ls)
  show "distinct (shm_ls dir w)" using distinct_children [OF ok(1)] by (simp add: ls)
qed

text \<open>Taking one fragment off the directory, whatever the way: both files disappear.\<close>

lemma remove_fragment:
  assumes ok: "spool_ok dir w" and dom: "n \<in> dom (spool_view dir w)" and "fs_ok w'"
    and nodes: "\<And>q. node_at w' q =
      (if q = data_path dir n \<or> q = mark_path dir n then None else node_at w q)"
  shows "spool_ok dir w' \<and> spool_view dir w' = (spool_view dir w)(n := None)"
proof -
  from dom obtain c where c: "spool_view dir w n = Some c" by auto
  note n = spool_viewD [OF ok c]
  have "spool_ok dir w'"
    using ok assms(3) n(2) by (simp add: spool_ok_def nodes)
  moreover have "spool_view dir w' m = ((spool_view dir w)(n := None)) m" for m
    by (simp add: spool_view_def nodes content_def)
  ultimately show ?thesis by auto
qed

text \<open>A change of the world that is confined to the files of the directory's fragments.\<close>

definition spool_frame :: "string \<Rightarrow> world \<Rightarrow> world \<Rightarrow> bool" where
  "spool_frame memdir w w' \<longleftrightarrow> w_fds w' = w_fds w \<and> w_wmax w' = w_wmax w \<and> w_date w' = w_date w \<and>
     (\<forall>q. (\<forall>n. q \<noteq> data_path memdir n \<and> q \<noteq> mark_path memdir n) \<longrightarrow> node_at w' q = node_at w q)"

lemma spool_frame_refl [simp]: "spool_frame dir w w"
  by (simp add: spool_frame_def)

lemma spool_frame_trans: "spool_frame dir w w' \<Longrightarrow> spool_frame dir w' w'' \<Longrightarrow> spool_frame dir w w''"
  by (simp add: spool_frame_def)

text \<open>What later stores rely on: the write limit, and no directory in the place of a fragment.\<close>

definition spool_kept :: "string \<Rightarrow> world \<Rightarrow> world \<Rightarrow> bool" where
  "spool_kept dir w w' \<longleftrightarrow> w_wmax w' = w_wmax w \<and>
     (\<forall>n. node_at w' (data_path dir n) = Some Dir \<longrightarrow> node_at w (data_path dir n) = Some Dir)"

lemma spool_kept_refl [simp]: "spool_kept dir w w"
  by (simp add: spool_kept_def)

lemma spool_kept_trans: "spool_kept dir w w' \<Longrightarrow> spool_kept dir w' w'' \<Longrightarrow> spool_kept dir w w''"
  by (simp add: spool_kept_def)

lemma spool_keptI:
  assumes "spool_frame dir w w'" and "\<And>q. node_at w' q = node_at w q \<or> node_at w' q = None"
  shows "spool_kept dir w w'"
proof -
  have "node_at w (data_path dir n) = Some Dir" if "node_at w' (data_path dir n) = Some Dir" for n
    using assms(2) [of "data_path dir n"] that by auto
  with assms(1) show ?thesis by (simp add: spool_kept_def spool_frame_def)
qed

lemma purge_one_view:
  assumes ok: "spool_ok dir w" and dom: "n \<in> dom (spool_view dir w)"
  shows "\<exists>w'. purge_one dir n w = Inr w' \<and> spool_ok dir w' \<and> spool_frame dir w w' \<and> spool_kept dir w w' \<and>
           spool_view dir w' = (spool_view dir w)(n := None) \<and>
           (\<forall>q. node_at w' q = (if q = data_path dir n \<or> q = mark_path dir n then None else node_at w q))"
proof -
  from dom obtain c where c: "spool_view dir w n = Some c" by auto
  note n = spool_viewD [OF ok c]
  let ?w' = "sys_unlink (dir @ ''/closed/'' @ ''/'' @ n) (sys_unlink (dir @ ''/'' @ n) w)"
  have run: "purge_one dir n w = Inr ?w'"
    using n(3) by (simp add: purge_one_def sprintf_into_def)
  have nodes: "node_at ?w' q = (if q = data_path dir n \<or> q = mark_path dir n then None else node_at w q)" for q
    using n by (auto simp: node_at_unlink)
  have "fs_ok ?w'" using ok by (simp add: spool_ok_def fs_ok_unlink)
  moreover have fr: "spool_frame dir w ?w'" unfolding spool_frame_def using nodes by simp
  moreover have "spool_kept dir w ?w'" by (rule spool_keptI [OF fr]) (simp only: nodes, auto)
  ultimately show ?thesis using remove_fragment [OF ok dom _ nodes] run nodes by blast
qed

lemma purge_list:
  assumes "spool_ok dir w" and "set ns \<subseteq> dom (spool_view dir w)" and "distinct ns"
  shows "\<exists>w'. rfold (purge_one dir) ns w = Inr w' \<and> spool_ok dir w' \<and> spool_frame dir w w' \<and> spool_kept dir w w' \<and>
           spool_view dir w' = (spool_view dir w) |` (- set ns) \<and>
           (\<forall>q. node_at w' q = (if \<exists>n \<in> set ns. q = data_path dir n \<or> q = mark_path dir n
                              then None else node_at w q))"
  using assms
proof (induction ns arbitrary: w)
  case Nil
  then show ?case by simp
next
  case (Cons n ns)
  from Cons.prems obtain w1 where w1: "purge_one dir n w = Inr w1" "spool_ok dir w1" "spool_frame dir w w1"
    "spool_kept dir w w1"
    "spool_view dir w1 = (spool_view dir w)(n := None)"
    "\<forall>q. node_at w1 q = (if q = data_path dir n \<or> q = mark_path dir n then None else node_at w q)"
    using purge_one_view [of dir w n] by auto
  have "set ns \<subseteq> dom (spool_view dir w1)" using Cons.prems w1(5) by auto
  with Cons.IH [OF w1(2)] Cons.prems(3) obtain w2 where w2: "rfold (purge_one dir) ns w1 = Inr w2"
    "spool_ok dir w2" "spool_frame dir w1 w2" "spool_kept dir w1 w2" "spool_view dir w2 = (spool_view dir w1) |` (- set ns)"
    "\<forall>q. node_at w2 q = (if \<exists>n \<in> set ns. q = data_path dir n \<or> q = mark_path dir n
                              then None else node_at w1 q)" by auto
  have "(spool_view dir w1) |` (- set ns) = (spool_view dir w) |` (- set (n # ns))"
    using w1(5) by (auto simp: restrict_map_def fun_eq_iff)
  with w1 w2 spool_frame_trans [OF w1(3) w2(3)] spool_kept_trans [OF w1(4) w2(4)] show ?case by auto
qed

lemma purgeShm_view:
  assumes "spool_ok dir w"
  shows "\<exists>w'. purgeShm dir w = Inr w' \<and> spool_ok dir w' \<and> spool_frame dir w w' \<and> spool_kept dir w w' \<and>
           spool_view dir w' = Map.empty \<and> shm_ls dir w' = [] \<and>
           (\<forall>q. (\<forall>n \<in> dom (spool_view dir w). q \<noteq> data_path dir n \<and> q \<noteq> mark_path dir n) \<longrightarrow>
                node_at w' q = node_at w q)"
proof -
  note ls = shm_ls_sorted [OF assms]
  have "node_at w (resolve dir @ [''closed'']) = Some Dir" using assms by (simp add: spool_ok_def)
  then have p: "purgeShm dir w = rfold (purge_one dir) (shm_ls dir w) w"
    by (simp add: purgeShm_def shm_ls_def scandir_def)
  from purge_list [OF assms _ ls(3)] ls(1) obtain w' where w': "purgeShm dir w = Inr w'"
    "spool_ok dir w'" "spool_frame dir w w'" "spool_kept dir w w'"
    "spool_view dir w' = (spool_view dir w) |` (- dom (spool_view dir w))"
    "\<forall>q. node_at w' q = (if \<exists>n \<in> dom (spool_view dir w). q = data_path dir n \<or> q = mark_path dir n
                              then None else node_at w q)" unfolding p by auto
  have "spool_view dir w' = Map.empty"
    by (auto simp: w'(5) restrict_map_def fun_eq_iff dom_def)
  with w' shm_ls_sorted(1) [OF w'(2)] show ?thesis by auto
qed

text \<open>It writes nothing: what a file holds afterwards it held before.\<close>

lemma purgeShm_content:
  assumes "spool_ok dir w" and "purgeShm dir w = Inr w'"
  shows "content w' q = [] \<or> content w' q = content w q"
proof -
  note ls = shm_ls_sorted [OF assms(1)]
  have "node_at w (resolve dir @ [''closed'']) = Some Dir" using assms(1) by (simp add: spool_ok_def)
  then have p: "purgeShm dir w = rfold (purge_one dir) (shm_ls dir w) w"
    by (simp add: purgeShm_def shm_ls_def scandir_def)
  from purge_list [OF assms(1) _ ls(3)] ls(1) assms(2) have
    "node_at w' q = (if \<exists>n \<in> dom (spool_view dir w). q = data_path dir n \<or> q = mark_path dir n then None else node_at w q)"
    unfolding p by auto
  then show ?thesis by (simp add: content_def)
qed

text \<open>
  \<^verbatim>\<open>purgeShm\<close> on a usable directory returns with no fragment left to read, and removes no
  file but the two of each listed fragment.
\<close>

theorem purgeShm_empties:
  assumes "spool_ok dir w"
  shows "\<exists>w'. purgeShm dir w = Inr w' \<and> spool_ok dir w' \<and> shm_ls dir w' = [] \<and>
           (\<forall>q. (\<forall>n \<in> set (shm_ls dir w). q \<noteq> data_path dir n \<and> q \<noteq> mark_path dir n) \<longrightarrow>
                node_at w' q = node_at w q)"
  using purgeShm_view [OF assms] shm_ls_sorted(1) [OF assms] by auto

lemma shm_pull_view:
  assumes ok: "spool_ok dir w" and c: "spool_view dir w n = Some c"
    and fit: "length (take 0x20000 c) \<le> length (b_mem buf)"
  shows "\<exists>w'. shm_pull n buf dir w =
             Inr (setPayloadSize (word_of_nat (length (take 0x20000 c)) - 20)
                   (buf\<lparr>b_mem := overwrite 0 (take 0x20000 c) (b_mem buf)\<rparr>), w') \<and>
           spool_ok dir w' \<and> spool_view dir w' = (spool_view dir w)(n := None) \<and> spool_frame dir w w' \<and> spool_kept dir w w' \<and>
           (\<forall>q. node_at w' q = (if q = data_path dir n \<or> q = mark_path dir n then None else node_at w q))"
proof -
  note n = spool_viewD [OF ok c]
  from n(1,5) have node: "node_at w (resolve (dir @ ''/'' @ n)) = Some (File c)" by simp
  obtain fd w1 w2 where fd: "open_rdonly (dir @ ''/'' @ n) w = (fd, w1)" "0 \<le> fd"
    "sys_read fd 0x20000 w1 = (int (length (take 0x20000 c)), take 0x20000 c, w2)"
    "sys_close fd w2 = w"
    by (rule open_read_close [OF node])
  let ?w' = "sys_unlink (dir @ ''/'' @ n) (sys_unlink (dir @ ''/closed/'' @ n) w)"
  have run: "shm_pull n buf dir w =
     Inr (setPayloadSize (word_of_nat (length (take 0x20000 c)) - 20)
           (buf\<lparr>b_mem := overwrite 0 (take 0x20000 c) (b_mem buf)\<rparr>), ?w')"
    using fd fit by (simp add: shm_pull_def Let_def)
  have nodes: "node_at ?w' q = (if q = data_path dir n \<or> q = mark_path dir n then None else node_at w q)" for q
    using n by (auto simp: node_at_unlink)
  have "fs_ok ?w'" using ok by (simp add: spool_ok_def fs_ok_unlink)
  moreover have fr: "spool_frame dir w ?w'" unfolding spool_frame_def using nodes by simp
  moreover have "spool_kept dir w ?w'" by (rule spool_keptI [OF fr]) (simp only: nodes, auto)
  moreover from c have "n \<in> dom (spool_view dir w)" by auto
  ultimately show ?thesis using remove_fragment [OF ok _ _ nodes] run nodes by auto
qed

text \<open>A file that is created and closed at once keeps its content, a new one is empty.\<close>

lemma creat_close:
  assumes "can_create w (resolve p)" and "open_creat p w = (fd, w1)" and w': "w' = sys_close fd w1"
  shows "w_fds w' = w_fds w" and "w_wmax w' = w_wmax w" and "w_date w' = w_date w" and "fs_ok w \<Longrightarrow> fs_ok w'"
    and "node_at w' q = (if q = resolve p then Some (File (content w (resolve p))) else node_at w q)"
proof -
  obtain w0 where w0: "open_creat p w = (next_fd (w_fds w), w0\<lparr>w_fds := (next_fd (w_fds w),
        \<lparr>d_path = resolve p, d_pos = 0\<rparr>) # w_fds w\<rparr>)" "w_fds w0 = w_fds w"
    "w_wmax w0 = w_wmax w" "w_date w0 = w_date w" "node_at w0 (resolve p) = Some (File (content w (resolve p)))"
    "\<And>n. put_node (resolve p) n w0 = put_node (resolve p) n w" "fs_ok w \<Longrightarrow> fs_ok w0"
    by (rule open_creat_ok [OF assms(1)]) blast
  have e: "w' = w0"
  proof -
    have fd: "fd = next_fd (w_fds w0)" and w1: "w1 = w0\<lparr>w_fds := (fd, \<lparr>d_path = resolve p, d_pos = 0\<rparr>) # w_fds w0\<rparr>"
      using w0(1,2) assms(2) by auto
    show ?thesis by (simp add: w' sys_close_def w1 fd filter_fresh next_fd_fresh)
  qed
  show "w_fds w' = w_fds w" "w_wmax w' = w_wmax w" "w_date w' = w_date w" "fs_ok w \<Longrightarrow> fs_ok w'"
    using w0(2-4,7) by (simp_all add: e)
  show "node_at w' q = (if q = resolve p then Some (File (content w (resolve p))) else node_at w q)"
  proof (cases "q = resolve p")
    case True
    then show ?thesis using w0(5) by (simp add: e)
  next
    case False
    have "node_at (put_node (resolve p) Dir w0) q = node_at (put_node (resolve p) Dir w) q" using w0(6) by simp
    with False show ?thesis by (simp add: e node_at_put [OF can_create_nonempty [OF assms(1)]])
  qed
qed

lemma shm_store_view:
  assumes ok: "spool_ok dir w" and n: "n = event_name det src evt bx"
    and size: "unat nbytes \<le> length ptr" "unat nbytes \<le> w_wmax w"
    and len: "length dir + length n + 9 < 256"
    and free: "node_at w (data_path dir n) \<noteq> Some Dir"
  shows "\<exists>w'. shm_store det src evt bx ptr nbytes dir w = Inr w' \<and> spool_ok dir w' \<and>
     spool_view dir w' = (spool_view dir w)(n \<mapsto>
        take (unat nbytes) ptr @ drop (unat nbytes) (content w (data_path dir n))) \<and>
     w_wmax w' = w_wmax w \<and> w_date w' = w_date w \<and> w_fds w' = w_fds w \<and>
     (\<forall>q. node_at w' q = Some Dir \<longleftrightarrow> node_at w q = Some Dir) \<and>
     (\<forall>m. m \<noteq> n \<longrightarrow> content w' (data_path dir m) = content w (data_path dir m))"
proof -
  let ?bs = "take (unat nbytes) ptr"
  let ?c = "?bs @ drop (unat nbytes) (content w (data_path dir n))"
  have nm: "is_name n" "n \<noteq> ''closed''" "file_select_2 n"
    using n event_name_not_closed event_name_is_name
    by (simp_all add: file_select_2_def) (simp add: event_name_def)
  let ?p1 = "dir @ ''/'' @ n" and ?p2 = "dir @ ''/closed/'' @ n"
  have r1: "resolve ?p1 = data_path dir n" and r2: "resolve ?p2 = mark_path dir n"
    using nm(1) by simp_all
  have create1: "can_create w (resolve ?p1)"
    using ok free unfolding r1
    by (auto simp: can_create_def spool_ok_def split: option.splits node.splits)
  obtain fd w1 where fd: "open_creat ?p1 w = (fd, w1)" by (cases "open_creat ?p1 w")
  have fdn: "\<not> fd < 0" using open_creat_fd [of ?p1 w] create1 fd by simp
  obtain r w2 where wr: "sys_write fd ?bs w1 = (r, w2)" by (cases "sys_write fd ?bs w1")
  have lbs: "length ?bs = unat nbytes" using size(1) by simp
  from creat_write_close [OF create1 fd wr] size(2) lbs
  have r: "word_of_int r = nbytes" and w3: "sys_close fd w2 = put_node (data_path dir n) (File ?c) w"
    unfolding r1 by (auto simp: min_def)
  define w3 where "w3 = put_node (data_path dir n) (File ?c) w"
  have clean: "fs_ok w3" using ok by (simp add: w3_def spool_ok_def fs_ok_put)
  have create2: "can_create w3 (resolve ?p2)"
    using ok nm(2) unfolding r2
    by (auto simp: can_create_def w3_def node_at_put spool_ok_def split: option.splits node.splits)
  obtain fd2 w4 where fd2: "open_creat ?p2 w3 = (fd2, w4)" by (cases "open_creat ?p2 w3")
  define w' where "w' = sys_close fd2 w4"
  have run: "shm_store det src evt bx ptr nbytes dir w = Inr w'"
    using fd fdn wr r w3 fd2 len size(1)
    by (simp add: shm_store_def Let_def sprintf_into_def chunk_0 w3_def w'_def flip: n)
  note mark = creat_close [OF create2 fd2 w'_def, unfolded r2]
  have nodes: "node_at w' q = (if q = mark_path dir n then Some (File (content w3 (mark_path dir n)))
      else if q = data_path dir n then Some (File ?c) else node_at w q)" for q
    by (simp add: mark(5) node_at_put w3_def)
  have "spool_ok dir w'"
    using ok nm len mark(4) [OF clean] paths_differ [of dir]
    by (auto simp: spool_ok_def nodes)
  moreover have "spool_view dir w' m = ((spool_view dir w)(n \<mapsto> ?c)) m" for m
    by (simp add: spool_view_def nodes content_def)
  moreover have "node_at w (mark_path dir n) \<noteq> Some Dir" using ok by (auto simp: spool_ok_def)
  then have "node_at w' q = Some Dir \<longleftrightarrow> node_at w q = Some Dir" for q
    using free by (simp add: nodes)
  moreover have "content w' (data_path dir m) = content w (data_path dir m)" if "m \<noteq> n" for m
    using that by (simp add: content_def nodes)
  ultimately show ?thesis
    using run mark(1-3) by (auto simp: w3_def)
qed

section \<open>Calls that leave the directory alone\<close>

text \<open>
  A path outside the directory's files, a world whose open descriptors are all on such paths,
  and the calls of other components that keep all of this and what a reader sees.
\<close>

definition outside :: "string \<Rightarrow> string list \<Rightarrow> bool" where
  "outside dir q \<longleftrightarrow> (\<forall>n. q \<noteq> data_path dir n \<and> q \<noteq> mark_path dir n)"

definition world_ok :: "string \<Rightarrow> world \<Rightarrow> bool" where
  "world_ok dir w \<longleftrightarrow> spool_ok dir w \<and> (\<forall>d \<in> snd ` set (w_fds w). outside dir (d_path d)) \<and>
     CHR ''/'' \<notin> set (w_date w)"

definition quiet :: "string \<Rightarrow> world \<Rightarrow> world \<Rightarrow> bool" where
  "quiet dir w w' \<longleftrightarrow> world_ok dir w' \<and> spool_kept dir w w' \<and> spool_view dir w' = spool_view dir w"

lemma quiet_refl: "world_ok dir w \<Longrightarrow> quiet dir w w"
  by (simp add: quiet_def)

lemma quiet_trans: "quiet dir w w' \<Longrightarrow> quiet dir w' w'' \<Longrightarrow> quiet dir w w''"
  by (auto simp: quiet_def intro: spool_kept_trans)

lemma quietI:
  assumes "world_ok dir w" and "fs_ok w'" and "w_date w' = w_date w" and "w_wmax w' = w_wmax w"
    and "\<forall>d \<in> snd ` set (w_fds w'). outside dir (d_path d)"
    and "node_at w (resolve dir) = Some Dir \<Longrightarrow> node_at w' (resolve dir) = Some Dir"
    and nodes: "\<And>q. \<not> outside dir q \<Longrightarrow> node_at w' q = node_at w q"
  shows "quiet dir w w'"
proof -
  have n: "node_at w' (data_path dir m) = node_at w (data_path dir m)"
    "node_at w' (mark_path dir m) = node_at w (mark_path dir m)" for m
    by (rule nodes, auto simp: outside_def)+
  have c: "node_at w' (resolve dir @ [''closed'']) = node_at w (resolve dir @ [''closed''])"
    using n(1) [of "''closed''"] by (simp add: data_path_def)
  show ?thesis
    using assms(1-6) by (auto simp: quiet_def world_ok_def spool_ok_def spool_view_def content_def
        spool_kept_def n c)
qed

lemma quiet_write:
  assumes "world_ok dir w"
  shows "quiet dir w (snd (sys_write fd bs w))"
proof (cases "map_of (w_fds w) fd")
  case None
  then show ?thesis using assms by (simp add: sys_write_def quiet_refl)
next
  case (Some d)
  then have "(fd, d) \<in> set (w_fds w)" by (rule map_of_SomeD)
  then have out: "outside dir (d_path d)" using assms by (force simp: world_ok_def)
  have fds: "outside dir (d_path d')" if "w_fds w' = w_fds w" "(a, d') \<in> set (w_fds (set_pos fd k w'))"
    for a d' k w'
    using assms that out by (force simp: world_ok_def set_pos_def split: if_splits)
  have ok: "fs_ok w" using assms by (simp add: world_ok_def spool_ok_def)
  have ne: "d_path d \<noteq> []" if "node_at w (d_path d) = Some (File c)" for c
    using that by (auto simp: node_at_def)
  have mv: "node_at (set_pos fd k w') = node_at w'" "fs_ok (set_pos fd k w') = fs_ok w'"
    "w_date (set_pos fd k w') = w_date w'" "w_wmax (set_pos fd k w') = w_wmax w'" for k w'
    by (simp_all add: set_pos_def)
  show ?thesis
  proof (cases "\<exists>c. node_at w (d_path d) = Some (File c)")
    case True
    then obtain c where c: "node_at w (d_path d) = Some (File c)" ..
    show ?thesis
      using out ok ne [OF c] c
      by (intro quietI [OF assms])
        (auto simp: sys_write_def Some Let_def mv fs_ok_put node_at_put intro: fds [rotated])
  next
    case False
    then show ?thesis
      using ok assms by (intro quietI [OF assms])
        (auto simp: sys_write_def Some Let_def mv world_ok_def intro: fds [rotated]
          split: option.splits node.splits)
  qed
qed

lemma quiet_close: "world_ok dir w \<Longrightarrow> quiet dir w (sys_close fd w)"
  by (rule quietI) (auto simp: world_ok_def spool_ok_def sys_close_def)

lemma quiet_open_creat:
  assumes "world_ok dir w" and "outside dir (resolve s)"
  shows "quiet dir w (snd (open_creat s w))"
proof (cases "can_create w (resolve s)")
  case False
  then show ?thesis using assms(1) by (simp add: open_creat_fails quiet_refl)
next
  case True
  note ne = can_create_nonempty [OF True]
  have ok: "fs_ok w" using assms(1) by (simp add: world_ok_def spool_ok_def)
  show ?thesis
  proof (rule quietI [OF assms(1)])
    show "fs_ok (snd (open_creat s w))" "w_date (snd (open_creat s w)) = w_date w"
      "w_wmax (snd (open_creat s w)) = w_wmax w"
      using ok ne by (auto simp: open_creat_def new_fd_def Let_def fs_ok_put
          split: option.splits node.splits)
    show "\<forall>d \<in> snd ` set (w_fds (snd (open_creat s w))). outside dir (d_path d)"
      using assms by (auto simp: open_creat_def new_fd_def Let_def world_ok_def
          split: option.splits node.splits)
    show "node_at (snd (open_creat s w)) (resolve dir) = Some Dir" if "node_at w (resolve dir) = Some Dir"
      using that by (rule open_creat_keeps)
    show "node_at (snd (open_creat s w)) q = node_at w q" if "\<not> outside dir q" for q
      using that assms(2) ne by (auto simp: open_creat_def new_fd_def Let_def node_at_put
          split: option.splits node.splits)
  qed
qed

lemma length_show_nat: "n < 10 ^ k \<Longrightarrow> 0 < k \<Longrightarrow> length (show_nat n) \<le> k"
proof (induction n arbitrary: k rule: show_nat.induct)
  case (1 n)
  show ?case
  proof (cases "n < 10")
    case True
    then show ?thesis using "1.prems" by (subst show_nat.simps) simp
  next
    case False
    have "k \<noteq> 1" using "1.prems" False by auto
    with "1.prems"(2) obtain j where k: "k = Suc j" "0 < j" by (cases k) auto
    have "n div 10 < 10 ^ j" using "1.prems"(1) by (simp add: k(1) less_mult_imp_div_less mult.commute)
    with "1.IH" False k have "length (show_nat (n div 10)) \<le> j" by blast
    then show ?thesis using False k by (subst show_nat.simps) simp
  qed
qed

lemma length_event_name: "length (event_name d s e b) \<le> 59"
proof -
  have 32: "length (show32 x) \<le> 10" for x
    unfolding show32_def using unat_u32_lt [of x] by (intro length_show_nat) (simp_all del: unat_u32_lt)
  have 64: "length (show64 b) \<le> 20"
    unfolding show64_def using unat_u64_lt [of b] by (intro length_show_nat) (simp_all del: unat_u64_lt)
  show ?thesis using 32 [of d] 32 [of s] 32 [of e] 64 by (simp add: event_name_def)
qed

lemma quiet_store:
  assumes "world_ok dir w" and "unat nbytes \<le> length ptr" and "length dest \<le> 440"
    and "\<And>n. outside dir (data_path dest n)" and "\<And>n. outside dir (mark_path dest n)"
  shows "\<exists>w'. shm_store det src evt bx ptr nbytes dest w = Inr w' \<and> quiet dir w w'"
proof -
  let ?n = "event_name det src evt bx"
  let ?f1 = "dest @ ''/'' @ ?n" and ?f2 = "dest @ ''/closed/'' @ ?n"
  have name: "sprintf_into 512 ?f1 = Inr ?f1" "sprintf_into 512 ?f2 = Inr ?f2"
    using assms(3) length_event_name [of det src evt bx] by (simp_all add: sprintf_into_def)
  have out: "outside dir (resolve ?f1)" "outside dir (resolve ?f2)"
    using assms(4,5) by simp_all
  have peek: "peek 0 (unat nbytes) ptr = Inr (take (unat nbytes) ptr)"
    using assms(2) by (simp add: chunk_0)
  obtain fd w1 where o1: "open_creat ?f1 w = (fd, w1)" by (cases "open_creat ?f1 w")
  have q1: "quiet dir w w1" using quiet_open_creat [OF assms(1) out(1)] o1 by simp
  obtain r w2 where wr: "sys_write fd (take (unat nbytes) ptr) w1 = (r, w2)"
    by (cases "sys_write fd (take (unat nbytes) ptr) w1")
  have q2: "quiet dir w w2"
    using quiet_trans [OF q1] quiet_write [of dir w1 fd "take (unat nbytes) ptr"] q1 wr
    by (simp add: quiet_def)
  let ?w3 = "sys_close fd w2"
  have q3: "quiet dir w ?w3"
    using quiet_trans [OF q2] quiet_close [of dir w2 fd] q2 by (simp add: quiet_def)
  obtain fd2 w4 where o2: "open_creat ?f2 ?w3 = (fd2, w4)" by (cases "open_creat ?f2 ?w3")
  have q4: "quiet dir w w4"
    using quiet_trans [OF q3] quiet_open_creat [of dir ?w3 ?f2] q3 out(2) o2 by (simp add: quiet_def)
  have q5: "quiet dir w (sys_close fd2 w4)"
    using quiet_trans [OF q4] quiet_close [of dir w4 fd2] q4 by (simp add: quiet_def)
  show ?thesis
    using name peek o1 wr o2 q1 q3 q5 by (auto simp: shm_store_def Let_def)
qed

section \<open>Storing a frame\<close>

definition frame_name :: "frame \<Rightarrow> string" where
  "frame_name f = event_name (f_det f) (f_src f) (f_evt f) (f_bx f)"

text \<open>What a reader sees after a fragment is stored: its bytes, and no truncation.\<close>

definition stored_bytes :: "string \<Rightarrow> world \<Rightarrow> frame \<Rightarrow> byte list" where
  "stored_bytes dir w f =
     frame_bytes f @ drop (length (frame_bytes f)) (content w (data_path dir (frame_name f)))"

definition plain_spool :: "string \<Rightarrow> world \<Rightarrow> bool" where
  "plain_spool dir w \<longleftrightarrow> spool_ok dir w \<and> 0x20014 \<le> w_wmax w \<and> length dir < 180 \<and>
     (\<forall>f. node_at w (data_path dir (frame_name f)) \<noteq> Some Dir)"

lemma store_frame_view:
  assumes "plain_spool dir w" and "short f" and size: "unat n = 20 + length (f_payload f)"
    and "unat n \<le> length ptr" and "take (unat n) ptr = frame_bytes f"
  shows "\<exists>w'. shm_store (f_det f) (f_src f) (f_evt f) (f_bx f) ptr n dir w = Inr w' \<and>
     plain_spool dir w' \<and> w_fds w' = w_fds w \<and> w_date w' = w_date w \<and>
     spool_view dir w' = (spool_view dir w)(frame_name f \<mapsto> stored_bytes dir w f) \<and>
     (\<forall>m. m \<noteq> frame_name f \<longrightarrow> content w' (data_path dir m) = content w (data_path dir m))"
proof -
  have nm: "frame_name f = event_name (f_det f) (f_src f) (f_evt f) (f_bx f)"
    by (simp add: frame_name_def)
  have "unat n \<le> w_wmax w" "length dir + length (frame_name f) + 9 < 256"
    using assms(1,2) size length_event_name [of "f_det f" "f_src f" "f_evt f" "f_bx f"]
    by (simp_all add: plain_spool_def nm short_def)
  moreover have "node_at w (data_path dir (frame_name f)) \<noteq> Some Dir" "spool_ok dir w"
    using assms(1) by (simp_all add: plain_spool_def)
  ultimately have "\<exists>w'. shm_store (f_det f) (f_src f) (f_evt f) (f_bx f) ptr n dir w = Inr w' \<and>
     spool_ok dir w' \<and> spool_view dir w' = (spool_view dir w)(frame_name f \<mapsto>
        take (unat n) ptr @ drop (unat n) (content w (data_path dir (frame_name f)))) \<and>
     w_wmax w' = w_wmax w \<and> w_date w' = w_date w \<and> w_fds w' = w_fds w \<and>
     (\<forall>q. node_at w' q = Some Dir \<longleftrightarrow> node_at w q = Some Dir) \<and>
     (\<forall>m. m \<noteq> frame_name f \<longrightarrow> content w' (data_path dir m) = content w (data_path dir m))"
    by (intro shm_store_view nm assms(4))
  with assms(1,5) show ?thesis
    by (auto simp: assms(5) stored_bytes_def plain_spool_def size)
qed

section \<open>A concrete directory\<close>

text \<open>The directory \<^verbatim>\<open>/spool\<close> with the given fragments, on a system with three open descriptors.\<close>

definition demo_spool :: "(string \<times> byte list) list \<Rightarrow> world" where
  "demo_spool frags =
     \<lparr>w_nodes = [([''spool''], Dir), ([''spool'', ''closed''], Dir), ([''data''], Dir)] @
        map (\<lambda>(n, c). ([''spool'', n], File c)) frags @
        map (\<lambda>(n, c). ([''spool'', ''closed'', n], File [])) frags,
      w_fds = map (\<lambda>i. (i, \<lparr>d_path = [''tty''], d_pos = 0\<rparr>)) [0, 1, 2],
      w_wmax = 0x100000, w_date = ''SMM_010120_120000''\<rparr>"

definition demo_names :: "(string \<times> byte list) list \<Rightarrow> bool" where
  "demo_names frags \<longleftrightarrow> distinct (map fst frags) \<and>
     (\<forall>n \<in> fst ` set frags. is_name n \<and> n \<noteq> ''closed'' \<and> file_select_2 n \<and> length n < 200)"

lemma resolve_demo [simp]: "resolve ''/spool'' = [''spool'']"
  by (simp add: resolve_def)

lemma map_of_files:
  "(\<And>x y. (h x = h y) = (x = y)) \<Longrightarrow>
     map_of (map (\<lambda>(n, c). (h n, g c)) frags) (h n) = map_option g (map_of frags n)"
  "(\<And>x. q \<noteq> h x) \<Longrightarrow> map_of (map (\<lambda>(n, c). (h n, g c)) frags) q = None"
  by (induction frags) (simp_all add: case_prod_beta)

lemma demo_node_at:
  "node_at (demo_spool frags) (data_path ''/spool'' n) =
     (if n = ''closed'' then Some Dir else map_option File (map_of frags n))"
  "node_at (demo_spool frags) (mark_path ''/spool'' n) =
     (if map_of frags n = None then None else Some (File []))"
  using map_of_files(1) [of "\<lambda>n. [''spool'', n]" File frags n]
    map_of_files(1) [of "\<lambda>n. [''spool'', ''closed'', n]" "\<lambda>_. File []" frags n]
    map_of_files(2) [of "[''spool'', n]" "\<lambda>n. [''spool'', ''closed'', n]" "\<lambda>_. File []" frags]
    map_of_files(2) [of "[''spool'', ''closed'', n]" "\<lambda>n. [''spool'', n]" File frags]
  by (auto simp: node_at_def demo_spool_def data_path_def mark_path_def map_add_def split: option.splits)

lemma demo_spool_ok:
  assumes "demo_names frags"
  shows "spool_ok ''/spool'' (demo_spool frags)"
    and "spool_view ''/spool'' (demo_spool frags) = map_of frags"
proof -
  have "distinct (map fst frags)" using assms by (simp add: demo_names_def)
  moreover from assms have "\<forall>n \<in> fst ` set frags. n \<noteq> ''closed''" by (simp add: demo_names_def)
  moreover have "distinct (map (h \<circ> fst) frags)"
    if "distinct (map fst frags)" "\<And>x y. h x = h y \<Longrightarrow> x = y" for h :: "string \<Rightarrow> string list"
    using that by (auto simp: distinct_map inj_on_def)
  note d = this [of "\<lambda>n. [''spool'', n]"] this [of "\<lambda>n. [''spool'', ''closed'', n]"]
  ultimately have fs: "fs_ok (demo_spool frags)"
    using d by (auto simp: fs_ok_def demo_spool_def comp_def case_prod_beta)
  have dirs: "node_at (demo_spool frags) [''spool''] = Some Dir"
    "node_at (demo_spool frags) [''spool'', ''closed''] = Some Dir"
    by (simp_all add: node_at_def demo_spool_def)
  have named: "is_name n \<and> n \<noteq> ''closed'' \<and> file_select_2 n \<and> length n < 200"
    if "map_of frags n = Some c" for n c
  proof -
    from that have "n \<in> fst ` set frags" by (metis domI dom_map_of_conv_image_fst)
    then show ?thesis using assms unfolding demo_names_def by blast
  qed
  moreover have "map_of frags ''closed'' = None"
    using named [of "''closed''"] by (cases "map_of frags ''closed''") auto
  ultimately show "spool_ok ''/spool'' (demo_spool frags)"
    using fs dirs by (auto simp: spool_ok_def demo_node_at dest!: named)
  show "spool_view ''/spool'' (demo_spool frags) = map_of frags"
    using named by (auto simp: spool_view_def demo_node_at content_def fun_eq_iff split: option.splits)
qed

lemma demo_plain_spool: "demo_names frags \<Longrightarrow> plain_spool ''/spool'' (demo_spool frags)"
proof -
  assume "demo_names frags"
  then have "spool_ok ''/spool'' (demo_spool frags)" by (rule demo_spool_ok)
  moreover have "frame_name f \<noteq> ''closed''" for f by (simp add: frame_name_def event_name_not_closed)
  moreover have "w_wmax (demo_spool frags) = 0x100000" by (simp add: demo_spool_def)
  ultimately show ?thesis by (simp add: plain_spool_def demo_node_at)
qed

lemma demo_names_Nil: "demo_names []"
  by (simp add: demo_names_def)

lemma demo_names_frame: "demo_names [(frame_name f, c)]"
  using length_event_name [of "f_det f" "f_src f" "f_evt f" "f_bx f"] event_name_not_closed
  by (auto simp: demo_names_def frame_name_def file_select_2_def) (simp_all add: event_name_def)

theorem purgeShm_empties_witness:
  "\<exists>w'. purgeShm ''/spool'' (demo_spool [(''Event_1_2_3_4'', [1, 2])]) = Inr w' \<and> shm_ls ''/spool'' w' = []"
proof -
  have "demo_names [(''Event_1_2_3_4'', [1, 2])]"
    by (simp add: demo_names_def is_name_def file_select_2_def)
  from purgeShm_empties [OF demo_spool_ok(1) [OF this]] show ?thesis by blast
qed

end
