(* ===== verification/Std_Map.thy ===== *)
theory Std_Map
  imports Prelude
begin

text \<open>
  \<^verbatim>\<open>std::map\<close> of the C++ library: an association list in increasing key order, which is the
  order its iterators visit. \<^verbatim>\<open>insert\<close> keeps an existing entry, assignment through an
  iterator replaces it, \<^verbatim>\<open>find\<close> is \<open>map_of\<close>. The locale is the contract the clients
  (transition tables, command tables, the event map, the process table) rely on.
\<close>

section \<open>Operations\<close>

type_synonym ('k, 'v) smap = "('k \<times> 'v) list"

fun map_insert :: "'k::linorder \<Rightarrow> 'v \<Rightarrow> ('k, 'v) smap \<Rightarrow> ('k, 'v) smap" where
  "map_insert k v [] = [(k, v)]"
| "map_insert k v ((k', v') # m) =
     (if k < k' then (k, v) # (k', v') # m
      else if k = k' then (k', v') # m
      else (k', v') # map_insert k v m)"

fun map_assign :: "'k::linorder \<Rightarrow> 'v \<Rightarrow> ('k, 'v) smap \<Rightarrow> ('k, 'v) smap" where
  "map_assign k v [] = []"
| "map_assign k v ((k', v') # m) = (if k = k' then (k, v) # m else (k', v') # map_assign k v m)"

definition map_erase :: "'k::linorder \<Rightarrow> ('k, 'v) smap \<Rightarrow> ('k, 'v) smap" where
  "map_erase k m = filter (\<lambda>e. fst e \<noteq> k) m"

definition map_ok :: "('k::linorder, 'v) smap \<Rightarrow> bool" where
  "map_ok m \<longleftrightarrow> sorted_wrt (<) (map fst m)"

section \<open>Laws\<close>

lemma set_map_insert: "fst ` set (map_insert k v m) = insert k (fst ` set m)"
  by (induction m rule: map_insert.induct) auto

lemma map_ok_Nil [simp]: "map_ok []"
  by (simp add: map_ok_def)

lemma map_ok_insert: "map_ok m \<Longrightarrow> map_ok (map_insert k v m)"
proof (induction k v m rule: map_insert.induct)
  case (1 k v)
  then show ?case by (simp add: map_ok_def)
next
  case (2 k v k' v' m)
  show ?case
  proof (cases "k < k' \<or> k = k'")
    case True
    with "2.prems" show ?thesis by (auto simp: map_ok_def dest: order.strict_trans)
  next
    case False
    with 2 have "map_ok (map_insert k v m)" by (auto simp: map_ok_def)
    with False "2.prems" set_map_insert [of k v m] show ?thesis by (auto simp: map_ok_def)
  qed
qed

lemma fst_map_assign: "map fst (map_assign k v m) = map fst m"
  by (induction k v m rule: map_assign.induct) auto

lemma map_ok_assign: "map_ok m \<Longrightarrow> map_ok (map_assign k v m)"
  by (simp add: map_ok_def fst_map_assign)

lemma map_ok_filter: "map_ok m \<Longrightarrow> map_ok (filter P m)"
  unfolding map_ok_def by (induction m) auto

lemma map_ok_erase: "map_ok m \<Longrightarrow> map_ok (map_erase k m)"
  by (simp add: map_erase_def map_ok_filter)

lemma map_ok_distinct: "map_ok m \<Longrightarrow> distinct (map fst m)"
  by (simp add: map_ok_def strict_sorted_iff)

lemma find_insert:
  "map_ok m \<Longrightarrow> map_of (map_insert k v m) k' =
     (if k' = k \<and> map_of m k = None then Some v else map_of m k')"
proof (induction k v m rule: map_insert.induct)
  case (1 k v)
  then show ?case by simp
next
  case (2 k v k' v' m)
  have none: "map_of ((k', v') # m) k = None" if "k < k'"
    using "2.prems" that by (auto simp: map_ok_def map_of_eq_None_iff)
  from 2 none show ?case by (auto simp: map_ok_def)
qed

lemma find_assign:
  "map_of (map_assign k v m) k' =
     (if k' = k \<and> map_of m k \<noteq> None then Some v else map_of m k')"
  by (induction k v m rule: map_assign.induct) auto

lemma find_erase: "map_of (map_erase k m) k' = (if k' = k then None else map_of m k')"
  unfolding map_erase_def by (induction m) auto

section \<open>The interface\<close>

locale std_map =
  fixes find :: "'m \<Rightarrow> 'k \<Rightarrow> 'v option"
    and ins :: "'k \<Rightarrow> 'v \<Rightarrow> 'm \<Rightarrow> 'm"
    and asg :: "'k \<Rightarrow> 'v \<Rightarrow> 'm \<Rightarrow> 'm"
    and del :: "'k \<Rightarrow> 'm \<Rightarrow> 'm"
    and ok :: "'m \<Rightarrow> bool"
  assumes find_ins: "ok m \<Longrightarrow> find (ins k v m) k' = (if k' = k \<and> find m k = None then Some v else find m k')"
    and find_asg: "ok m \<Longrightarrow> find (asg k v m) k' = (if k' = k \<and> find m k \<noteq> None then Some v else find m k')"
    and find_del: "ok m \<Longrightarrow> find (del k m) k' = (if k' = k then None else find m k')"
    and ok_ins: "ok m \<Longrightarrow> ok (ins k v m)"
    and ok_asg: "ok m \<Longrightarrow> ok (asg k v m)"
    and ok_del: "ok m \<Longrightarrow> ok (del k m)"
begin

lemmas ok_ops = ok_ins ok_asg ok_del

text \<open>A table filled by \<^verbatim>\<open>insert\<close> calls: the first entry given for a key is the one kept.\<close>

fun ins_all :: "('k \<times> 'v) list \<Rightarrow> 'm \<Rightarrow> 'm" where
  "ins_all [] m = m"
| "ins_all ((k, v) # kvs) m = ins_all kvs (ins k v m)"

lemma ok_ins_all: "ok m \<Longrightarrow> ok (ins_all kvs m)"
  by (induction kvs m rule: ins_all.induct) (simp_all add: ok_ins)

lemma find_ins_all:
  "ok m \<Longrightarrow> find (ins_all kvs m) k = (case find m k of Some v \<Rightarrow> Some v | None \<Rightarrow> map_of kvs k)"
  by (induction kvs m rule: ins_all.induct) (auto simp: ok_ins find_ins split: option.splits)

text \<open>Insert-or-assign, as the code writes it with \<^verbatim>\<open>find\<close> and two branches.\<close>

lemma find_ins_or_asg:
  assumes "ok m"
  shows "find (if find m k = None then ins k v m else asg k v m) k' =
           (if k' = k then Some v else find m k')"
  using assms by (auto simp: find_ins find_asg)

lemma del_ins_fresh: "ok m \<Longrightarrow> find m k = None \<Longrightarrow> find (del k (ins k v m)) = find m"
  by (rule ext) (auto simp: find_del find_ins ok_ins)

end

interpretation smap: std_map map_of map_insert map_assign map_erase map_ok
  by unfold_locales
    (simp_all add: find_insert find_assign find_erase map_ok_insert map_ok_assign map_ok_erase)

end
