(* ===== verification/Event_Time.thy ===== *)
theory Event_Time
  imports Prelude
begin

text \<open>
  The arithmetic of \<^verbatim>\<open>cleanBufferMap\<close>: bunch crossings turned into seconds with \<^verbatim>\<open>bxId()*2E-7\<close>
  in IEEE binary64. Every value that occurs is an integer multiple of \<^verbatim>\<open>2^-75\<close> (the literal is
  \<open>tick * 2 ^ -75\<close> with a 53-bit \<open>tick\<close>), far from the ends of the exponent range, so a double is
  represented by that integer, and an operation is the exact one followed by rounding to 53
  significant bits, ties to even.
\<close>

section \<open>Rounding to 53 bits\<close>

fun bit_length :: "nat \<Rightarrow> nat" where
  "bit_length n = (if n = 0 then 0 else Suc (bit_length (n div 2)))"

declare bit_length.simps [simp del]

definition round_to :: "nat \<Rightarrow> nat \<Rightarrow> nat" where
  "round_to k n =
     (let q = n div 2 ^ k; r = n mod 2 ^ k
      in (if 2 ^ k < 2 * r \<or> (2 * r = 2 ^ k \<and> odd q) then q + 1 else q) * 2 ^ k)"

definition round53 :: "nat \<Rightarrow> nat" where
  "round53 n = round_to (bit_length n - 53) n"

definition tick :: nat where
  "tick = 7555786372591432"

text \<open>\<^verbatim>\<open>bxId()*2E-7\<close>: the 64-bit count is converted to a double, then multiplied.\<close>

definition seconds :: "u64 \<Rightarrow> nat" where
  "seconds bx = round53 (round53 (unat bx) * tick)"

text \<open>\<^verbatim>\<open>(lastTime - t) > delay\<close>; a negative difference is rounded like its absolute value.\<close>

definition minus_rounded :: "nat \<Rightarrow> nat \<Rightarrow> int" where
  "minus_rounded a b = (if b \<le> a then int (round53 (a - b)) else - int (round53 (b - a)))"

definition later_than :: "nat \<Rightarrow> nat \<Rightarrow> nat \<Rightarrow> bool" where
  "later_than lastTime t delay \<longleftrightarrow> int delay < minus_rounded lastTime t"

text \<open>A whole number of seconds.\<close>

definition whole_seconds :: "nat \<Rightarrow> nat" where
  "whole_seconds s = s * 2 ^ 75"

section \<open>Facts\<close>

text \<open>The constant is the double nearest to 2E-7, with all 53 bits used.\<close>

lemma tick_nearest:
  "2 ^ 52 \<le> tick \<and> tick < 2 ^ 53 \<and> 2 * \<bar>int tick * 10 ^ 7 - 2 * 2 ^ 75\<bar> < 10 ^ 7"
  by (simp add: tick_def)

lemma bit_length_0 [simp]: "bit_length 0 = 0"
  by (subst bit_length.simps) simp

lemma bit_length_bounds: "n < 2 ^ bit_length n \<and> (0 < n \<longrightarrow> 2 ^ (bit_length n - 1) \<le> n)"
proof (induction n rule: bit_length.induct)
  case (1 n)
  show ?case
  proof (cases "n = 0")
    case True
    then show ?thesis by (simp add: bit_length.simps)
  next
    case False
    with 1 have ih: "n div 2 < 2 ^ bit_length (n div 2)"
      "0 < n div 2 \<longrightarrow> 2 ^ (bit_length (n div 2) - 1) \<le> n div 2" by auto
    have l: "bit_length n = Suc (bit_length (n div 2))" using False by (simp add: bit_length.simps [of n])
    have "n < 2 * 2 ^ bit_length (n div 2)" using ih(1) by linarith
    moreover have "2 ^ bit_length (n div 2) \<le> n"
    proof (cases "n div 2 = 0")
      case True
      then show ?thesis using False by (simp add: bit_length.simps)
    next
      case False
      then have "bit_length (n div 2) = Suc (bit_length (n div 2) - 1)"
        by (simp add: bit_length.simps [of "n div 2"])
      then have "(2::nat) ^ bit_length (n div 2) = 2 * 2 ^ (bit_length (n div 2) - 1)"
        by (metis power_Suc)
      also have "\<dots> \<le> 2 * (n div 2)" using ih(2) False by simp
      also have "\<dots> \<le> n" by simp
      finally show ?thesis .
    qed
    ultimately show ?thesis by (simp add: l)
  qed
qed

lemma bit_length_mono: "m \<le> n \<Longrightarrow> bit_length m \<le> bit_length n"
proof (cases "m = 0")
  case True
  then show "bit_length m \<le> bit_length n" by simp
next
  case False
  assume "m \<le> n"
  have "2 ^ (bit_length m - 1) \<le> m" using bit_length_bounds [of m] False by simp
  also have "\<dots> < 2 ^ bit_length n" using \<open>m \<le> n\<close> bit_length_bounds [of n] by simp
  finally have "bit_length m - 1 < bit_length n" by simp
  then show "bit_length m \<le> bit_length n" by simp
qed

lemma round_to_bounds:
  "n div 2 ^ k * 2 ^ k \<le> round_to k n" "round_to k n \<le> (n div 2 ^ k + 1) * 2 ^ k"
  by (auto simp: round_to_def Let_def)

lemma round_to_mono:
  assumes "m \<le> n"
  shows "round_to k m \<le> round_to k n"
proof (cases "m div 2 ^ k = n div 2 ^ k")
  case True
  have "m mod 2 ^ k \<le> n mod 2 ^ k"
    using assms True by (simp add: modulo_nat_def)
  with True show ?thesis by (auto simp: round_to_def Let_def)
next
  case False
  have "m div 2 ^ k \<le> n div 2 ^ k" using assms by (rule div_le_mono)
  with False have "m div 2 ^ k + 1 \<le> n div 2 ^ k" by simp
  then have "(m div 2 ^ k + 1) * 2 ^ k \<le> n div 2 ^ k * 2 ^ k" by (rule mult_le_mono1)
  with round_to_bounds(2) [of k m] round_to_bounds(1) [of n k] show ?thesis by linarith
qed

lemma round_to_0 [simp]: "round_to 0 n = n"
  by (simp add: round_to_def)

lemma round53_le_pow: "round53 n \<le> 2 ^ bit_length n"
proof -
  let ?k = "bit_length n - 53"
  have "n div 2 ^ ?k < 2 ^ (bit_length n - ?k)"
  proof -
    have "n < 2 ^ (bit_length n - ?k) * 2 ^ ?k"
      using bit_length_bounds [of n] by (simp flip: power_add)
    then show ?thesis by (simp add: less_mult_imp_div_less)
  qed
  then have "n div 2 ^ ?k + 1 \<le> 2 ^ (bit_length n - ?k)" by simp
  then have "(n div 2 ^ ?k + 1) * 2 ^ ?k \<le> 2 ^ (bit_length n - ?k) * 2 ^ ?k" by (rule mult_le_mono1)
  also have "\<dots> = 2 ^ bit_length n" by (simp flip: power_add)
  finally show ?thesis using round_to_bounds(2) [of ?k n] by (simp add: round53_def)
qed

lemma round53_ge_pow: "0 < n \<Longrightarrow> 2 ^ (bit_length n - 1) \<le> round53 n"
proof -
  assume pos: "0 < n"
  let ?k = "bit_length n - 53"
  show ?thesis
  proof (cases "bit_length n \<le> 53")
    case True
    then show ?thesis using bit_length_bounds [of n] pos by (simp add: round53_def)
  next
    case False
    then have e: "(2::nat) ^ (bit_length n - 1) = 2 ^ (bit_length n - 1 - ?k) * 2 ^ ?k"
      by (simp only: power_add [symmetric]) simp
    have "2 ^ (bit_length n - 1) \<le> n" using bit_length_bounds [of n] pos by simp
    then have "2 ^ (bit_length n - 1) div 2 ^ ?k \<le> n div 2 ^ ?k" by (rule div_le_mono)
    moreover have "(2::nat) ^ (bit_length n - 1) div 2 ^ ?k = 2 ^ (bit_length n - 1 - ?k)"
      unfolding e by (rule nonzero_mult_div_cancel_right) simp
    ultimately have "2 ^ (bit_length n - 1 - ?k) \<le> n div 2 ^ ?k" by (simp only:)
    then have "2 ^ (bit_length n - 1) \<le> n div 2 ^ ?k * 2 ^ ?k" unfolding e by (rule mult_le_mono1)
    then show ?thesis using round_to_bounds(1) [of n ?k] by (simp add: round53_def)
  qed
qed

lemma round53_mono:
  assumes "m \<le> n"
  shows "round53 m \<le> round53 n"
proof (cases "bit_length m = bit_length n \<or> m = 0")
  case True
  then show ?thesis
    using round_to_mono [OF assms, of "bit_length n - 53"] by (auto simp: round53_def)
next
  case False
  with bit_length_mono [OF assms] have "bit_length m \<le> bit_length n - 1" by linarith
  then have "(2::nat) ^ bit_length m \<le> 2 ^ (bit_length n - 1)" by simp
  with round53_le_pow [of m] have "round53 m \<le> 2 ^ (bit_length n - 1)" by (rule order_trans)
  also have "\<dots> \<le> round53 n" using False assms by (intro round53_ge_pow) auto
  finally show ?thesis .
qed

lemma round53_small: "n < 2 ^ 53 \<Longrightarrow> round53 n = n"
proof -
  assume "n < 2 ^ 53"
  have "bit_length n \<le> 53"
  proof (cases "n = 0")
    case True
    then show ?thesis by simp
  next
    case False
    then have "2 ^ (bit_length n - 1) \<le> n" using bit_length_bounds [of n] by auto
    with \<open>n < 2 ^ 53\<close> have "2 ^ (bit_length n - 1) < (2::nat) ^ 53" by (rule le_less_trans [rotated])
    then have "bit_length n - 1 < 53" by (rule power_less_imp_less_exp [rotated]) simp
    then show ?thesis by linarith
  qed
  then show ?thesis by (simp add: round53_def)
qed

lemma seconds_mono: "bx \<le> bx' \<Longrightarrow> seconds bx \<le> seconds bx'"
  by (simp add: seconds_def word_le_nat_alt round53_mono)

lemma seconds_0_iff: "seconds bx = 0 \<longleftrightarrow> bx = 0"
proof
  assume s: "seconds bx = 0"
  have pos: "0 < round53 n" if "0 < n" for n
    using round53_ge_pow [OF that] by (rule less_le_trans [rotated]) simp
  have "0 < unat bx \<Longrightarrow> 0 < seconds bx"
    unfolding seconds_def by (intro pos) (simp add: pos tick_def)
  with s show "bx = 0" by (cases "unat bx = 0") (simp_all add: unat_eq_0)
next
  assume "bx = 0"
  then show "seconds bx = 0" by (simp add: seconds_def round53_small)
qed

text \<open>A fragment that is not older than the reference time is never late.\<close>

lemma not_later_than: "lastTime \<le> t \<Longrightarrow> \<not> later_than lastTime t delay"
  by (auto simp: later_than_def minus_rounded_def round53_small)

end
