(* ===== verification/Shm_Driver.thy ===== *)
theory Shm_Driver
  imports Spool Std_Map Event_Time
begin

text \<open>
  \<^verbatim>\<open>include/shmdriver.hh\<close> and the member functions of \<^verbatim>\<open>src/shmdriver.cxx\<close>: the event builder.
  Processors are objects behind pointers of the abstract class \<^verbatim>\<open>shmprocessor\<close>; the objects
  live in a heap, a pointer is an index, and a deleted or never created object is a fault.
  \<open>e_log\<close> is a history variable: the events handed to the processors, oldest first.
\<close>

section \<open>Processors and environment\<close>

record 'p shmprocessor =
  pr_start :: "u32 \<Rightarrow> 'p \<Rightarrow> world \<Rightarrow> ('p \<times> world) res"
  pr_stop :: "'p \<Rightarrow> world \<Rightarrow> ('p \<times> world) res"
  pr_event :: "u32 \<Rightarrow> buffer list \<Rightarrow> 'p \<Rightarrow> world \<Rightarrow> ('p \<times> buffer list \<times> world) res"
  pr_header :: "u32 list \<Rightarrow> 'p \<Rightarrow> world \<Rightarrow> ('p \<times> world) res"

record 'p env =
  e_objs :: "'p option list"
  e_world :: world
  e_log :: "(u64 \<times> buffer list) list"

definition deref :: "nat \<Rightarrow> 'p option list \<Rightarrow> 'p res" where
  "deref ptr objs =
     (if ptr < length objs then (case objs ! ptr of None \<Rightarrow> Inl Bad_Pointer | Some p \<Rightarrow> Inr p)
      else Inl Bad_Pointer)"

text \<open>A virtual call that changes the object and the world.\<close>

definition call_proc ::
  "('p \<Rightarrow> world \<Rightarrow> ('p \<times> world) res) \<Rightarrow> nat \<Rightarrow> 'p env \<Rightarrow> 'p env res" where
  "call_proc f ptr env =
     rbind (deref ptr (e_objs env)) (\<lambda>p.
     rbind (f p (e_world env)) (\<lambda>(p', w').
     Inr (env\<lparr>e_objs := (e_objs env)[ptr := Some p'], e_world := w'\<rparr>)))"

text \<open>
  The virtual call \<^verbatim>\<open>processEvent\<close>: the vector is copied but its elements are pointers, so the
  next processor sees the buffers as this one left them.
\<close>

definition call_event ::
  "'p shmprocessor \<Rightarrow> u32 \<Rightarrow> nat \<Rightarrow> buffer list \<times> 'p env \<Rightarrow> (buffer list \<times> 'p env) res" where
  "call_event P key ptr = (\<lambda>(bufs, env).
     rbind (deref ptr (e_objs env)) (\<lambda>p.
     rbind (pr_event P key bufs p (e_world env)) (\<lambda>(p', bufs', w').
     Inr (bufs', env\<lparr>e_objs := (e_objs env)[ptr := Some p'], e_world := w'\<rparr>))))"

section \<open>The driver\<close>

record shmdriver =
  d_memdir :: string
  d_useEventId :: bool
  d_datasources :: "u32 list"
  d_processors :: "nat list"
  d_eventMap :: "(u64, buffer list) smap"
  d_running :: bool
  d_run :: u32
  d_evt :: u32
  d_runHeader :: "u32 list"

definition shmdriver_new :: "string \<Rightarrow> bool \<Rightarrow> shmdriver" where
  "shmdriver_new memdir useevent =
     \<lparr>d_memdir = memdir, d_useEventId = useevent, d_datasources = [], d_processors = [],
      d_eventMap = [], d_running = False, d_run = 0, d_evt = 0, d_runHeader = []\<rparr>"

definition shmdriver_clear :: "shmdriver \<Rightarrow> shmdriver" where
  "shmdriver_clear D = D\<lparr>d_eventMap := [], d_processors := [], d_datasources := []\<rparr>"

definition cleanShm :: "shmdriver \<Rightarrow> 'p env \<Rightarrow> 'p env res" where
  "cleanShm D env = rbind (purgeShm (d_memdir D) (e_world env)) (\<lambda>w. Inr (env\<lparr>e_world := w\<rparr>))"

definition registerProcessor :: "nat \<Rightarrow> shmdriver \<Rightarrow> shmdriver" where
  "registerProcessor ptr D = D\<lparr>d_processors := d_processors D @ [ptr]\<rparr>"

text \<open>
  Registration by library name: \<open>load\<close> is what the \<^verbatim>\<open>loadProcessor\<close> function of the shared
  library returns; without the library or the function the call goes through a null pointer.
\<close>

definition registerProcessor_lib ::
  "(string \<Rightarrow> 'p option) \<Rightarrow> string \<Rightarrow> shmdriver \<Rightarrow> 'p env \<Rightarrow> (shmdriver \<times> 'p env) res" where
  "registerProcessor_lib load n D env =
     (case load (''lib'' @ n @ ''.so'') of
        None \<Rightarrow> Inl Bad_Pointer
      | Some p \<Rightarrow> Inr (D\<lparr>d_processors := d_processors D @ [length (e_objs env)]\<rparr>,
                      env\<lparr>e_objs := e_objs env @ [Some p]\<rparr>))"

definition unregisterProcessor :: "nat \<Rightarrow> shmdriver \<Rightarrow> shmdriver" where
  "unregisterProcessor ptr D = D\<lparr>d_processors := remove1 ptr (d_processors D)\<rparr>"

definition registerDataSource :: "u32 \<Rightarrow> u32 \<Rightarrow> shmdriver \<Rightarrow> shmdriver" where
  "registerDataSource det ds D = D\<lparr>d_datasources := d_datasources D @ [dskey det ds]\<rparr>"

text \<open>The search is for \<open>ds\<close>, not for the key.\<close>

definition unregisterDataSource :: "u32 \<Rightarrow> u32 \<Rightarrow> shmdriver \<Rightarrow> shmdriver" where
  "unregisterDataSource det ds D = D\<lparr>d_datasources := remove1 ds (d_datasources D)\<rparr>"

definition numberOfDataSource :: "shmdriver \<Rightarrow> u32" where
  "numberOfDataSource D = word_of_nat (length (d_datasources D))"

definition numberOfDataSource_of :: "u32 \<Rightarrow> shmdriver \<Rightarrow> u32" where
  "numberOfDataSource_of k D =
     (case map_of (d_eventMap D) (ucast k) of Some v \<Rightarrow> word_of_nat (length v) | None \<Rightarrow> 0)"

text \<open>\<^verbatim>\<open>it->second.size()==numberOfDataSource()\<close>: a 64-bit size against a 32-bit count.\<close>

definition is_complete :: "shmdriver \<Rightarrow> buffer list \<Rightarrow> bool" where
  "is_complete D v \<longleftrightarrow> length v = unat (numberOfDataSource D)"

definition processEvent ::
  "'p shmprocessor \<Rightarrow> u32 \<Rightarrow> shmdriver \<Rightarrow> 'p env \<Rightarrow> (shmdriver \<times> 'p env) res" where
  "processEvent P idx D env =
     (case map_of (d_eventMap D) (ucast idx) of
        None \<Rightarrow> Inl Bad_Pointer
      | Some v \<Rightarrow>
          if \<not> is_complete D v then Inr (D, env)
          else if idx = 0 then Inr (D, env)
          else
            rbind (rfold (call_event P idx) (d_processors D)
                     (v, env\<lparr>e_log := e_log env @ [(ucast idx, v)]\<rparr>)) (\<lambda>(_, env').
            Inr (D\<lparr>d_evt := idx, d_eventMap := map_erase (ucast idx) (d_eventMap D)\<rparr>, env')))"

text \<open>
  \<^verbatim>\<open>cleanBufferMap\<close>: first the keys of the late incomplete entries are collected (an empty
  vector has no first buffer to look at), then the entries are erased.
\<close>

fun late_keys :: "shmdriver \<Rightarrow> nat \<Rightarrow> nat \<Rightarrow> (u64, buffer list) smap \<Rightarrow> u64 list res" where
  "late_keys D lastTime delay [] = Inr []"
| "late_keys D lastTime delay ((k, v) # m) =
     (if is_complete D v then late_keys D lastTime delay m
      else case v of
        [] \<Rightarrow> Inl Bad_Pointer
      | b # _ \<Rightarrow>
          rbind (bxId b) (\<lambda>bx.
          rbind (late_keys D lastTime delay m) (\<lambda>ks.
          Inr (if later_than lastTime (seconds bx) delay then k # ks else ks))))"

definition cleanBufferMap :: "nat \<Rightarrow> nat \<Rightarrow> shmdriver \<Rightarrow> shmdriver res" where
  "cleanBufferMap lastTime delay D =
     rbind (late_keys D lastTime delay (d_eventMap D)) (\<lambda>ks.
     Inr (D\<lparr>d_eventMap := fold map_erase ks (d_eventMap D)\<rparr>))"

definition processRunHeader :: "'p shmprocessor \<Rightarrow> shmdriver \<Rightarrow> 'p env \<Rightarrow> 'p env res" where
  "processRunHeader P D env =
     rfold (call_proc (pr_header P (d_runHeader D))) (d_processors D) env"

text \<open>
  One turn of the \<^verbatim>\<open>while (_running)\<close> loop of \<^verbatim>\<open>processEvents\<close>, which no thread runs any more
  (its creation in \<^verbatim>\<open>start\<close> is commented out): every complete entry but number 0 is handed to
  the processors, then every complete entry is erased.
\<close>

definition process_entry ::
  "'p shmprocessor \<Rightarrow> u64 \<times> buffer list \<Rightarrow> shmdriver \<times> 'p env \<Rightarrow> (shmdriver \<times> 'p env) res" where
  "process_entry P = (\<lambda>(k, v) (D, env).
     if \<not> is_complete D v then Inr (D, env)
     else if k = 0 then Inr (D, env)
     else
       rbind (rfold (call_event P (ucast k)) (d_processors D)
                (v, env\<lparr>e_log := e_log env @ [(k, v)]\<rparr>)) (\<lambda>(_, env').
       Inr (D\<lparr>d_evt := ucast k\<rparr>, env')))"

definition processEvents_pass ::
  "'p shmprocessor \<Rightarrow> shmdriver \<Rightarrow> 'p env \<Rightarrow> (shmdriver \<times> 'p env) res" where
  "processEvents_pass P D env =
     rbind (rfold (process_entry P) (d_eventMap D) (D, env)) (\<lambda>(D', env').
     Inr (D'\<lparr>d_eventMap := filter (\<lambda>e. \<not> is_complete D' (snd e)) (d_eventMap D')\<rparr>, env'))"

definition shm_start ::
  "'p shmprocessor \<Rightarrow> u32 \<Rightarrow> shmdriver \<Rightarrow> 'p env \<Rightarrow> (shmdriver \<times> 'p env) res" where
  "shm_start P nr D env =
     rbind (rfold (call_proc (pr_start P nr)) (d_processors D) env) (\<lambda>env'.
     Inr (D\<lparr>d_run := nr, d_evt := 0, d_running := True\<rparr>, env'))"

definition shm_stop ::
  "'p shmprocessor \<Rightarrow> shmdriver \<Rightarrow> 'p env \<Rightarrow> (shmdriver \<times> 'p env) res" where
  "shm_stop P D env =
     rbind (rfold (call_proc (pr_stop P)) (d_processors D) env) (\<lambda>env'.
     Inr (D\<lparr>d_running := False\<rparr>, env'))"

section \<open>Scanning the shared memory\<close>

text \<open>A fragment is appended to the entry of its event, which is created when it is missing.\<close>

definition add_fragment :: "u64 \<Rightarrow> buffer \<Rightarrow> (u64, buffer list) smap \<Rightarrow> (u64, buffer list) smap" where
  "add_fragment k b m =
     (case map_of m k of Some v \<Rightarrow> map_assign k (v @ [b]) m | None \<Rightarrow> map_insert k [b] m)"

definition entry_with :: "u64 \<Rightarrow> buffer \<Rightarrow> (u64, buffer list) smap \<Rightarrow> buffer list" where
  "entry_with k b m = (case map_of m k of Some v \<Rightarrow> v @ [b] | None \<Rightarrow> [b])"

text \<open>
  The body of the loop over the listed files. The buffer is allocated with indeterminate
  bytes (\<open>junk\<close>) and \<^verbatim>\<open>pull\<close> may leave it so; \<open>twrite\<close> is the time of the last event completed.
\<close>

definition scan_file ::
  "'p shmprocessor \<Rightarrow> (string \<Rightarrow> nat \<Rightarrow> byte) \<Rightarrow> string \<Rightarrow> nat \<times> shmdriver \<times> 'p env
     \<Rightarrow> (nat \<times> shmdriver \<times> 'p env) res" where
  "scan_file P junk n = (\<lambda>(twrite, D, env).
     rbind (shm_pull n (buffer_new 0x80000 (junk n)) (d_memdir D) (e_world env)) (\<lambda>(b, w).
     rbind (eventId b) (\<lambda>e.
     (let env' = env\<lparr>e_world := w\<rparr>;
          D' = D\<lparr>d_eventMap := add_fragment (ucast e) b (d_eventMap D)\<rparr>;
          v = entry_with (ucast e) b (d_eventMap D) in
      if is_complete D' v then
        (case v of
           [] \<Rightarrow> Inl Bad_Pointer
         | b0 # _ \<Rightarrow>
             rbind (bxId b0) (\<lambda>bx.
             rbind (processEvent P e D' env') (\<lambda>(D2, env2). Inr (seconds bx, D2, env2))))
      else Inr (twrite, D', env')))))"

text \<open>
  One turn of the \<^verbatim>\<open>while (_running)\<close> loop of \<^verbatim>\<open>scanMemory\<close>. The number of files is taken
  modulo the number of sources, so a driver with no source divides by zero; when the two do
  not match, everything in the directory is thrown away.
\<close>

definition scan_pass ::
  "'p shmprocessor \<Rightarrow> (string \<Rightarrow> nat \<Rightarrow> byte) \<Rightarrow> shmdriver \<Rightarrow> 'p env \<Rightarrow> (shmdriver \<times> 'p env) res" where
  "scan_pass P junk D env =
     (let vnames = shm_ls (d_memdir D) (e_world env); nds = unat (numberOfDataSource D) in
      if vnames = [] then Inr (D, env)
      else if nds = 0 then Inl Div_By_Zero
      else if length vnames mod nds \<noteq> 0 then rbind (cleanShm D env) (\<lambda>env'. Inr (D, env'))
      else
        rbind (rfold (scan_file P junk) vnames (0, D, env)) (\<lambda>(twrite, D', env').
        if twrite \<noteq> 0 then
          rbind (cleanBufferMap twrite (whole_seconds 10) D') (\<lambda>D''. Inr (D'', env'))
        else Inr (D', env')))"

end
