(* ===== verification/Event_Builder.thy ===== *)
theory Event_Builder
  imports Shm_Driver
begin

text \<open>
  What the event builder promises, and that the scan of the shared memory keeps it. The
  abstract builder groups fragments by event number and emits a group when it has as many
  fragments as there are sources (event 0 is never emitted). The locale is the contract of
  the processors the driver calls: they return, they leave the spool directory alone and
  they hand back usable buffers. Under it a scan is a run of the abstract builder.
\<close>

section \<open>The abstract builder\<close>

definition frag_key :: "frame \<Rightarrow> u64" where
  "frag_key f = ucast (f_evt f)"

fun build :: "nat \<Rightarrow> (u64 \<Rightarrow> frame list) \<Rightarrow> frame list
    \<Rightarrow> (u64 \<times> frame list) list \<times> (u64 \<Rightarrow> frame list)" where
  "build n g [] = ([], g)"
| "build n g (f # fs) =
     (let k = frag_key f; v = g k @ [f] in
      if length v = n \<and> k \<noteq> 0
      then (let (evs, g') = build n (g(k := [])) fs in ((k, v) # evs, g'))
      else build n (g(k := v)) fs)"

text \<open>The fragments delivered for one event number, in order.\<close>

definition delivered :: "u64 \<Rightarrow> (u64 \<times> frame list) list \<Rightarrow> frame list" where
  "delivered k evs = concat (map snd (filter (\<lambda>e. fst e = k) evs))"

lemma build_conserves:
  "build n g fs = (evs, g') \<Longrightarrow> delivered k evs @ g' k = g k @ filter (\<lambda>f. frag_key f = k) fs"
proof (induction n g fs arbitrary: evs g' rule: build.induct)
  case (1 n g)
  then show ?case by (auto simp: delivered_def)
next
  case (2 n g f fs)
  let ?k = "frag_key f" and ?v = "g (frag_key f) @ [f]"
  show ?case
  proof (cases "length ?v = n \<and> ?k \<noteq> 0")
    case True
    obtain es h where r: "build n (g(?k := [])) fs = (es, h)" by (cases "build n (g(?k := [])) fs")
    with "2.prems" True have e: "evs = (?k, ?v) # es" "g' = h" by (auto simp: Let_def)
    have "delivered k es @ h k = (g(?k := [])) k @ filter (\<lambda>f. frag_key f = k) fs"
      by (rule "2.IH"(1) [OF refl refl True r])
    then show ?thesis by (auto simp: e delivered_def)
  next
    case False
    with "2.prems" have r: "build n (g(?k := ?v)) fs = (evs, g')" by (auto simp: Let_def)
    have "delivered k evs @ g' k = (g(?k := ?v)) k @ filter (\<lambda>f. frag_key f = k) fs"
      by (rule "2.IH"(2) [OF refl refl False r])
    then show ?thesis by auto
  qed
qed

lemma build_events:
  assumes "build n g fs = (evs, g')" and "\<And>k f. f \<in> set (g k) \<Longrightarrow> frag_key f = k"
  shows "(\<forall>(k, v) \<in> set evs. length v = n \<and> k \<noteq> 0 \<and> (\<forall>f \<in> set v. frag_key f = k)) \<and>
         (\<forall>k. \<forall>f \<in> set (g' k). frag_key f = k)"
  using assms
proof (induction n g fs arbitrary: evs g' rule: build.induct)
  case (1 n g)
  then show ?case by auto
next
  case (2 n g f fs)
  let ?k = "frag_key f" and ?v = "g (frag_key f) @ [f]"
  show ?case
  proof (cases "length ?v = n \<and> ?k \<noteq> 0")
    case True
    obtain es h where r: "build n (g(?k := [])) fs = (es, h)" by (cases "build n (g(?k := [])) fs")
    with "2.prems" True have e: "evs = (?k, ?v) # es" "g' = h" by (auto simp: Let_def)
    have "(\<forall>(k, v) \<in> set es. length v = n \<and> k \<noteq> 0 \<and> (\<forall>f \<in> set v. frag_key f = k)) \<and>
         (\<forall>k. \<forall>f \<in> set (h k). frag_key f = k)"
      using "2.prems"(2) by (intro "2.IH"(1) [OF refl refl True r]) (auto split: if_splits)
    with True "2.prems"(2) show ?thesis by (auto simp: e)
  next
    case False
    with "2.prems" have r: "build n (g(?k := ?v)) fs = (evs, g')" by (auto simp: Let_def)
    show ?thesis
      using "2.prems"(2) by (intro "2.IH"(2) [OF refl refl False r]) (auto split: if_splits)
  qed
qed

lemma build_incomplete:
  assumes "build n g fs = (evs, g')" and "\<And>k. k \<noteq> 0 \<Longrightarrow> length (g k) < n" and "k \<noteq> 0"
  shows "length (g' k) < n"
  using assms
proof (induction n g fs arbitrary: evs g' rule: build.induct)
  case (1 n g)
  then show ?case by auto
next
  case (2 n g f fs)
  let ?k = "frag_key f" and ?v = "g (frag_key f) @ [f]"
  have n: "0 < n" using "2.prems"(2) [OF "2.prems"(3)] by simp
  show ?case
  proof (cases "length ?v = n \<and> ?k \<noteq> 0")
    case True
    obtain es h where r: "build n (g(?k := [])) fs = (es, h)" by (cases "build n (g(?k := [])) fs")
    with "2.prems"(1) True have e: "evs = (?k, ?v) # es" "g' = h" by (auto simp: Let_def)
    show ?thesis unfolding e(2)
      using "2.prems"(2,3) n by (intro "2.IH"(1) [OF refl refl True r]) auto
  next
    case False
    with "2.prems"(1) have r: "build n (g(?k := ?v)) fs = (evs, g')" by (auto simp: Let_def)
    have lt: "length ((g(?k := ?v)) k') < n" if "k' \<noteq> 0" for k'
      using "2.prems"(2) [OF that] False that by auto
    show ?thesis by (rule "2.IH"(2) [OF refl refl False r lt "2.prems"(3)])
  qed
qed

lemma length_delivered:
  assumes "\<forall>(k, v) \<in> set evs. length v = n"
  shows "length (delivered k evs) = n * length (filter (\<lambda>e. fst e = k) evs)"
  using assms by (induction evs) (auto simp: delivered_def)

lemma build_append:
  "build n g (fs @ fs') =
     (let (evs, g') = build n g fs; (evs', g'') = build n g' fs' in (evs @ evs', g''))"
  by (induction fs arbitrary: g) (simp_all add: Let_def split: prod.splits)

text \<open>
  The time the clean-up refers to: that of the first fragment of the last set completed
  (number 0 included). The clean-up drops the groups that are neither complete nor recent.
\<close>

fun build_time :: "nat \<Rightarrow> (u64 \<Rightarrow> frame list) \<Rightarrow> frame list \<Rightarrow> nat \<Rightarrow> nat" where
  "build_time n g [] t = t"
| "build_time n g (f # fs) t =
     (let k = frag_key f; v = g k @ [f] in
      if length v = n
      then build_time n (g(k := (if k = 0 then v else []))) fs (seconds (f_bx (hd v)))
      else build_time n (g(k := v)) fs t)"

definition overdue :: "nat \<Rightarrow> nat \<Rightarrow> frame list \<Rightarrow> bool" where
  "overdue n t fs \<longleftrightarrow> fs \<noteq> [] \<and> length fs \<noteq> n \<and>
     later_than t (seconds (f_bx (hd fs))) (whole_seconds 10)"

definition tidy :: "nat \<Rightarrow> nat \<Rightarrow> (u64 \<Rightarrow> frame list) \<Rightarrow> u64 \<Rightarrow> frame list" where
  "tidy n t g = (\<lambda>k. if t \<noteq> 0 \<and> overdue n t (g k) then [] else g k)"

text \<open>One pass over a batch of fragments.\<close>

definition build_pass :: "nat \<Rightarrow> (u64 \<Rightarrow> frame list) \<Rightarrow> frame list
    \<Rightarrow> (u64 \<times> frame list) list \<times> (u64 \<Rightarrow> frame list)" where
  "build_pass n g fs =
     (let (evs, g') = build n g fs in (evs, tidy n (build_time n g fs 0) g'))"

text \<open>
  The builder emits, for every event number but 0, as many events as it has full sets of
  fragments, and what is left over is less than one set; event 0 is never emitted.
\<close>

lemma build_event_count:
  assumes "build n (\<lambda>_. []) fs = (evs, g')" and "0 < n"
  shows "length (filter (\<lambda>e. fst e = k) evs) =
           (if k = 0 then 0 else length (filter (\<lambda>f. frag_key f = k) fs) div n)"
    and "length (g' k) =
           (if k = 0 then length (filter (\<lambda>f. frag_key f = k) fs)
            else length (filter (\<lambda>f. frag_key f = k) fs) mod n)"
proof -
  let ?m = "length (filter (\<lambda>f. frag_key f = k) fs)"
  let ?e = "length (filter (\<lambda>e. fst e = k) evs)"
  from build_events [OF assms(1)] have ev: "\<forall>(k, v) \<in> set evs. length v = n \<and> k \<noteq> 0" by auto
  have "length (delivered k evs @ g' k) = ?m" using build_conserves [OF assms(1), of k] by simp
  then have sum: "n * ?e + length (g' k) = ?m"
    using length_delivered [of evs n k] ev by (auto simp: case_prod_beta)
  have "?e = (if k = 0 then 0 else ?m div n) \<and> length (g' k) = (if k = 0 then ?m else ?m mod n)"
  proof (cases "k = 0")
    case True
    then have "filter (\<lambda>e. fst e = k) evs = []" using ev by (auto simp: filter_empty_conv)
    with True sum show ?thesis by simp
  next
    case False
    from build_incomplete [OF assms(1) _ False] assms(2) have lt: "length (g' k) < n" by simp
    have "?m div n = ?e" "?m mod n = length (g' k)"
      using lt by (simp_all flip: sum)
    with False show ?thesis by simp
  qed
  then show "?e = (if k = 0 then 0 else ?m div n)"
    and "length (g' k) = (if k = 0 then ?m else ?m mod n)" by auto
qed

lemma build_delivers:
  assumes "build n (\<lambda>_. []) fs = (evs, g')" and "0 < n" and "k \<noteq> 0"
  shows "delivered k evs = take (length (filter (\<lambda>f. frag_key f = k) fs) div n * n) (filter (\<lambda>f. frag_key f = k) fs)"
proof -
  let ?l = "filter (\<lambda>f. frag_key f = k) fs"
  have split: "delivered k evs @ g' k = ?l" using build_conserves [OF assms(1), of k] by simp
  have "length (g' k) = length ?l mod n" using build_event_count(2) [OF assms(1,2), of k] assms(3) by simp
  moreover have "length (delivered k evs) + length (g' k) = length ?l" using arg_cong [OF split, of length] by simp
  ultimately have "length (delivered k evs) = length ?l div n * n"
    using div_mult_mod_eq [of "length ?l" n] by linarith
  then show ?thesis using arg_cong [OF split, of "take (length (delivered k evs))"] by simp
qed

section \<open>Fragments as the driver holds them\<close>

definition pulled :: "(nat \<Rightarrow> byte) \<Rightarrow> byte list \<Rightarrow> buffer" where
  "pulled junk c = setPayloadSize (word_of_nat (length c) - 20)
     ((buffer_new 0x80000 junk)\<lparr>b_mem := overwrite 0 c (b_mem (buffer_new 0x80000 junk))\<rparr>)"

lemma pulled_fragment:
  assumes "20 \<le> length c" and "length c \<le> 0x20000"
  shows "fragment_ok (pulled junk c)" and "frame_of (pulled junk c) = parse_frame c"
proof -
  have "(word_of_nat (length c) - 20 :: u32) = word_of_nat (length c - 20)"
    using assms(1) by (simp add: of_nat_diff)
  moreover have "unat (word_of_nat (length c - 20) :: u32) = length c - 20"
    using assms(2) by (intro unat_of_nat_u32) simp
  ultimately have sz: "b_psize (pulled junk c) = word_of_nat (length c - 20)"
    "unat (b_psize (pulled junk c)) = length c - 20"
    by (simp_all add: pulled_def setPayloadSize_def)
  have len: "length (b_mem (pulled junk c)) = 0x80000"
    using assms(2) by (simp add: pulled_def setPayloadSize_def)
  show "fragment_ok (pulled junk c)"
    using assms by (simp add: fragment_ok_def buf_ok_def sz(2) len)
  have c: "chunk off k (b_mem (pulled junk c)) = chunk off k c" if "off + k \<le> length c" for off k
    using that by (simp add: pulled_def setPayloadSize_def chunk_def overwrite_def)
  have "chunk 20 (length c - 20) c = drop 20 c" by (simp add: chunk_def)
  with assms c show "frame_of (pulled junk c) = parse_frame c"
    by (simp add: frame_of_def parse_frame_def sz(2))
qed

lemma fragment_getters:
  assumes "fragment_ok b"
  shows "eventId b = Inr (f_evt (frame_of b))" and "bxId b = Inr (f_bx (frame_of b))"
  using holds_getters [OF holds_frame_of, of b] assms by (simp_all add: fragment_ok_def)

section \<open>The event map and the groups it stands for\<close>

fun entry_ok :: "buffer list option \<Rightarrow> frame list \<Rightarrow> bool" where
  "entry_ok None fs \<longleftrightarrow> fs = []"
| "entry_ok (Some v) fs \<longleftrightarrow> v \<noteq> [] \<and> map frame_of v = fs \<and> (\<forall>b \<in> set v. fragment_ok b)"

definition refines :: "(u64, buffer list) smap \<Rightarrow> (u64 \<Rightarrow> frame list) \<Rightarrow> bool" where
  "refines m g \<longleftrightarrow> map_ok m \<and> (\<forall>k. entry_ok (map_of m k) (g k))"

definition abs_log :: "(u64 \<times> buffer list) list \<Rightarrow> (u64 \<times> frame list) list" where
  "abs_log l = map (\<lambda>(k, v). (k, map frame_of v)) l"

lemma refines_empty: "refines [] (\<lambda>_. [])"
  by (simp add: refines_def)

lemma refines_entry: "refines m g \<Longrightarrow> entry_ok (map_of m k) (g k)"
  by (simp add: refines_def)

lemma refinesD:
  assumes "refines m g" and "map_of m k = Some v"
  shows "v \<noteq> []" "map frame_of v = g k" "\<forall>b \<in> set v. fragment_ok b"
  using refines_entry [OF assms(1), of k] by (simp_all add: assms(2))

lemma refines_None: "refines m g \<Longrightarrow> map_of m k = None \<Longrightarrow> g k = []"
  using refines_entry [of m g k] by simp

lemma refines_erase:
  assumes "refines m g"
  shows "refines (map_erase k m) (g(k := []))"
  using assms by (simp add: refines_def map_ok_erase find_erase)

lemma entry_with_frames:
  assumes "refines m g" and "fragment_ok b"
  shows "map frame_of (entry_with k b m) = g k @ [frame_of b]"
    and "\<forall>c \<in> set (entry_with k b m). fragment_ok c" and "entry_with k b m \<noteq> []"
  using assms refinesD [OF assms(1), of k] refines_None [OF assms(1), of k]
  by (auto simp: entry_with_def split: option.splits)

lemma find_add_fragment:
  "map_ok m \<Longrightarrow> map_of (add_fragment k b m) k' =
     (if k' = k then Some (entry_with k b m) else map_of m k')"
  by (auto simp: add_fragment_def entry_with_def find_insert find_assign split: option.splits)

lemma refines_add:
  assumes "refines m g" and "fragment_ok b"
  shows "refines (add_fragment k b m) (g(k := g k @ [frame_of b]))"
proof -
  have ok: "map_ok m" using assms(1) by (simp add: refines_def)
  then have "map_ok (add_fragment k b m)"
    by (simp add: add_fragment_def map_ok_insert map_ok_assign split: option.split)
  with assms entry_with_frames [OF assms, of k] show ?thesis
    by (auto simp: refines_def find_add_fragment [OF ok])
qed

text \<open>The clean-up keeps what is complete or not late, and never faults on such a map.\<close>

lemma late_keys_set:
  assumes "\<forall>(k, v) \<in> set m. v \<noteq> [] \<and> (\<forall>b \<in> set v. fragment_ok b)"
  shows "\<exists>ks. late_keys D t delay m = Inr ks \<and>
     set ks = {k. \<exists>v. (k, v) \<in> set m \<and> \<not> is_complete D v \<and>
                     later_than t (seconds (f_bx (frame_of (hd v)))) delay}"
  using assms
proof (induction m)
  case Nil
  then show ?case by simp
next
  case (Cons e m)
  obtain k v where e: "e = (k, v)" by (cases e)
  from Cons e obtain ks where ks: "late_keys D t delay m = Inr ks"
    "set ks = {k. \<exists>v. (k, v) \<in> set m \<and> \<not> is_complete D v \<and>
                     later_than t (seconds (f_bx (frame_of (hd v)))) delay}" by auto
  from Cons.prems e obtain b v' where v: "v = b # v'" "fragment_ok b" by (cases v) auto
  show ?case
    using ks(1) by (auto simp: e v fragment_getters ks(2))
qed

lemma find_erase_all: "map_of (fold map_erase ks m) k = (if k \<in> set ks then None else map_of m k)"
  by (induction ks arbitrary: m) (auto simp: find_erase)

lemma map_ok_erase_all: "map_ok m \<Longrightarrow> map_ok (fold map_erase ks m)"
  by (induction ks arbitrary: m) (auto simp: map_ok_erase)

text \<open>On a map that stands for groups, \<^verbatim>\<open>cleanBufferMap\<close> returns and is \<open>tidy\<close>.\<close>

lemma cleanBufferMap_tidy:
  assumes "refines (d_eventMap D) g" and n: "unat (numberOfDataSource D) = n" and "t \<noteq> 0"
  shows "\<exists>m. cleanBufferMap t (whole_seconds 10) D = Inr (D\<lparr>d_eventMap := m\<rparr>) \<and> refines m (tidy n t g)"
proof -
  let ?m = "d_eventMap D"
  have ok: "map_ok ?m" using assms(1) by (simp add: refines_def)
  have mem: "(k, v) \<in> set ?m \<longleftrightarrow> map_of ?m k = Some v" for k v
    using map_of_eq_Some_iff [OF map_ok_distinct [OF ok]] by auto
  have good: "\<forall>(k, v) \<in> set ?m. v \<noteq> [] \<and> (\<forall>b \<in> set v. fragment_ok b)"
  proof clarify
    fix k v
    assume "(k, v) \<in> set ?m"
    then have "map_of ?m k = Some v" by (simp only: mem)
    from refinesD [OF assms(1) this] show "v \<noteq> [] \<and> (\<forall>b \<in> set v. fragment_ok b)" by blast
  qed
  from late_keys_set [OF this, of D t "whole_seconds 10"] obtain ks where
    ks: "late_keys D t (whole_seconds 10) ?m = Inr ks"
    "set ks = {k. \<exists>v. (k, v) \<in> set ?m \<and> \<not> is_complete D v \<and>
                 later_than t (seconds (f_bx (frame_of (hd v)))) (whole_seconds 10)}" by blast
  have late: "k \<in> set ks \<longleftrightarrow> overdue n t (g k)" for k
  proof (cases "map_of ?m k")
    case None
    with refines_None [OF assms(1) None] show ?thesis by (simp add: ks(2) mem overdue_def)
  next
    case (Some v)
    note v = refinesD [OF assms(1) Some]
    have "hd (g k) = frame_of (hd v)" using v(1) by (simp add: v(2) [symmetric] hd_map)
    moreover have "length (g k) = length v" by (simp add: v(2) [symmetric])
    moreover have "g k \<noteq> []" using v(1,2) by auto
    ultimately show ?thesis
      by (simp add: ks(2) mem Some is_complete_def n overdue_def)
  qed
  have "entry_ok (map_of (fold map_erase ks ?m) k) (tidy n t g k)" for k
    using refines_entry [OF assms(1), of k] \<open>t \<noteq> 0\<close>
    by (simp add: find_erase_all late tidy_def)
  then have "refines (fold map_erase ks ?m) (tidy n t g)"
    by (simp add: refines_def map_ok_erase_all [OF ok])
  with ks(1) show ?thesis by (auto simp: cleanBufferMap_def)
qed

text \<open>The driver's fields that a scan does not change.\<close>

definition same_setup :: "shmdriver \<Rightarrow> shmdriver \<Rightarrow> bool" where
  "same_setup D D' \<longleftrightarrow> d_memdir D' = d_memdir D \<and> d_datasources D' = d_datasources D \<and>
     d_processors D' = d_processors D \<and> d_running D' = d_running D \<and> d_run D' = d_run D \<and>
     d_runHeader D' = d_runHeader D"

lemma same_setup_nds: "same_setup D D' \<Longrightarrow> numberOfDataSource D' = numberOfDataSource D"
  by (simp add: same_setup_def numberOfDataSource_def)

lemma same_setup_trans: "same_setup D D' \<Longrightarrow> same_setup D' D'' \<Longrightarrow> same_setup D D''"
  by (simp add: same_setup_def)

text \<open>The fragments a list of files stands for; \<^verbatim>\<open>pull\<close> reads at most 128 kB of a file.\<close>

definition frames_of :: "(string \<Rightarrow> byte list option) \<Rightarrow> string list \<Rightarrow> frame list" where
  "frames_of V ns = map (\<lambda>n. parse_frame (take 0x20000 (the (V n)))) ns"

definition readable :: "(string \<Rightarrow> byte list option) \<Rightarrow> string list \<Rightarrow> bool" where
  "readable V ns \<longleftrightarrow> (\<forall>n \<in> set ns. \<exists>c. V n = Some c \<and> 20 \<le> length c)"

lemma frames_of_other [simp]: "x \<notin> set ns \<Longrightarrow> frames_of (V(x := None)) ns = frames_of V ns"
  by (auto simp: frames_of_def)

lemma readable_other [simp]: "x \<notin> set ns \<Longrightarrow> readable (V(x := None)) ns = readable V ns"
  by (auto simp: readable_def)

section \<open>The contract of the processors\<close>

text \<open>
  \<open>inv\<close> is what the processors need of their objects and of the world. A call on a
  registered processor returns and keeps it, does not touch the spool directory, and leaves
  usable buffers; the driver's own unlinking of spool files keeps it too.
\<close>

locale event_sink =
  fixes P :: "'p shmprocessor" and memdir :: string and ptrs :: "nat set"
    and inv :: "'p option list \<Rightarrow> world \<Rightarrow> bool"
  assumes event_returns:
      "inv objs w \<Longrightarrow> spool_ok memdir w \<Longrightarrow> ptr \<in> ptrs \<Longrightarrow> \<forall>b \<in> set bufs. fragment_ok b \<Longrightarrow>
       \<exists>p p' bufs' w'. deref ptr objs = Inr p \<and> pr_event P key bufs p w = Inr (p', bufs', w') \<and>
         inv (objs[ptr := Some p']) w' \<and> spool_ok memdir w' \<and>
         spool_kept memdir w w' \<and> spool_view memdir w' = spool_view memdir w \<and>
         (\<forall>b \<in> set bufs'. fragment_ok b)"
    and inv_frame: "inv objs w \<Longrightarrow> spool_frame memdir w w' \<Longrightarrow> inv objs w'"
begin

definition ready :: "'p env \<Rightarrow> bool" where
  "ready env \<longleftrightarrow> inv (e_objs env) (e_world env) \<and> spool_ok memdir (e_world env)"

definition kept :: "'p env \<Rightarrow> 'p env \<Rightarrow> bool" where
  "kept env env' \<longleftrightarrow> spool_kept memdir (e_world env) (e_world env')"

lemma kept_trans: "kept env env' \<Longrightarrow> kept env' env'' \<Longrightarrow> kept env env''"
  unfolding kept_def by (rule spool_kept_trans)

lemma processors_run:
  assumes "ready env" and "set procs \<subseteq> ptrs" and "\<forall>b \<in> set bufs. fragment_ok b"
  shows "\<exists>bufs' env'. rfold (call_event P key) procs (bufs, env) = Inr (bufs', env') \<and>
           ready env' \<and> kept env env' \<and> spool_view memdir (e_world env') = spool_view memdir (e_world env) \<and>
           e_log env' = e_log env"
proof -
  let ?Q = "\<lambda>(bs, en). ready en \<and> (\<forall>b \<in> set bs. fragment_ok b) \<and>
     kept env en \<and> spool_view memdir (e_world en) = spool_view memdir (e_world env) \<and> e_log en = e_log env"
  have "\<exists>t. rfold (call_event P key) procs (bufs, env) = Inr t \<and> ?Q t"
  proof (rule rfold_total)
    show "?Q (bufs, env)" using assms(1,3) by (simp add: kept_def)
    fix ptr st
    assume ptr: "ptr \<in> set procs" and st: "?Q st"
    obtain bs en where e: "st = (bs, en)" by (cases st)
    from st e have r: "inv (e_objs en) (e_world en)" "spool_ok memdir (e_world en)"
      "\<forall>b \<in> set bs. fragment_ok b" by (auto simp: ready_def)
    from ptr assms(2) have "ptr \<in> ptrs" by auto
    from event_returns [OF r(1,2) this r(3), of key] st show "\<exists>t. call_event P key ptr st = Inr t \<and> ?Q t"
      by (auto simp: e call_event_def ready_def kept_def intro: spool_kept_trans)
  qed
  then show ?thesis by auto
qed

lemma ucast_u32_0: "(ucast (e :: u32) :: u64) = 0 \<longleftrightarrow> e = 0"
proof
  assume "(ucast e :: u64) = 0"
  then have "(ucast (ucast e :: u64) :: u32) = ucast (0 :: u64)" by (rule arg_cong)
  then show "e = 0" by simp
qed simp

lemma processEvent_cases:
  assumes "ready env" and "set (d_processors D) \<subseteq> ptrs" and "refines (d_eventMap D) g"
    and "map_of (d_eventMap D) (ucast e) = Some v" and "is_complete D v"
  shows "\<exists>D' env'. processEvent P e D env = Inr (D', env') \<and> same_setup D D' \<and> ready env' \<and> kept env env' \<and>
     spool_view memdir (e_world env') = spool_view memdir (e_world env) \<and>
     (if e = 0 then D' = D \<and> e_log env' = e_log env
      else refines (d_eventMap D') (g(ucast e := [])) \<and> d_evt D' = e \<and>
           e_log env' = e_log env @ [(ucast e, v)])"
proof (cases "e = 0")
  case True
  with assms show ?thesis by (simp add: processEvent_def same_setup_def kept_def)
next
  case False
  let ?env = "env\<lparr>e_log := e_log env @ [(ucast e, v)]\<rparr>"
  have "ready ?env" using assms(1) by (simp add: ready_def)
  from processors_run [OF this assms(2) refinesD(3) [OF assms(3,4)], of e]
  obtain bs env' where r: "rfold (call_event P e) (d_processors D) (v, ?env) = Inr (bs, env')"
    "ready env'" "kept env env'" "spool_view memdir (e_world env') = spool_view memdir (e_world env)"
    "e_log env' = e_log env @ [(ucast e, v)]" by (auto simp: kept_def)
  with assms(4,5) False refines_erase [OF assms(3), of "ucast e"] show ?thesis
    by (simp add: processEvent_def same_setup_def)
qed

text \<open>One file of a scan is one step of the abstract builder.\<close>

text \<open>
  One file, up to the moment its fragment is in the event map, and what then happens to the entry
  \<open>v\<close> it belongs to.
\<close>

definition hand_over ::
  "'q shmprocessor \<Rightarrow> u32 \<Rightarrow> shmdriver \<Rightarrow> buffer list \<Rightarrow> 'q env \<Rightarrow> nat \<Rightarrow> (nat \<times> shmdriver \<times> 'q env) res" where
  "hand_over Q e D v env tw =
     (if is_complete D v then
        (case v of [] \<Rightarrow> Inl Bad_Pointer
         | b0 # _ \<Rightarrow> rbind (bxId b0) (\<lambda>bx.
             rbind (processEvent Q e D env) (\<lambda>(D2, env2). Inr (seconds bx, D2, env2))))
      else Inr (tw, D, env))"

lemma scan_file_pull:
  assumes "ready env" and mem: "d_memdir D = memdir" and "spool_view memdir (e_world env) name = Some c0" and "20 \<le> length c0"
    and f: "f = parse_frame (take 0x20000 c0)"
  obtains b env1 where "fragment_ok b" "frame_of b = f" "ready env1" "kept env env1" "e_log env1 = e_log env"
    "spool_view memdir (e_world env1) = (spool_view memdir (e_world env))(name := None)"
    "\<forall>tw. scan_file P junk name (tw, D, env) =
       hand_over P (f_evt f) (D\<lparr>d_eventMap := add_fragment (frag_key f) b (d_eventMap D)\<rparr>)
         (entry_with (frag_key f) b (d_eventMap D)) env1 tw"
proof -
  define c where "c = take 0x20000 c0"
  have len: "20 \<le> length c" "length c \<le> 0x20000" using assms(4) by (simp_all add: c_def)
  let ?b = "pulled (junk name) c"
  have sp: "spool_ok memdir (e_world env)" using assms(1) by (simp add: ready_def)
  have frag: "fragment_ok ?b" and frame: "frame_of ?b = f" using pulled_fragment [OF len] by (simp_all add: f c_def)
  have "length (take 0x20000 c0) \<le> length (b_mem (buffer_new 0x80000 (junk name)))" by simp
  from shm_pull_view [OF sp assms(3) this] obtain w where
    pull: "shm_pull name (buffer_new 0x80000 (junk name)) memdir (e_world env) = Inr (?b, w)"
    and w: "spool_ok memdir w" "spool_view memdir w = (spool_view memdir (e_world env))(name := None)"
      "spool_frame memdir (e_world env) w" "spool_kept memdir (e_world env) w"
    by (auto simp: pulled_def c_def)
  let ?env1 = "env\<lparr>e_world := w\<rparr>"
  have "ready ?env1" using assms(1) w(1) inv_frame [OF _ w(3)] by (simp add: ready_def)
  moreover have "kept env ?env1" using w(4) by (simp add: kept_def)
  ultimately show thesis
    using w(2) pull fragment_getters(1) [OF frag] frame
    by (intro that [OF frag frame, of ?env1]) (simp_all add: scan_file_def hand_over_def mem Let_def frag_key_def cong: list.case_cong)
qed

text \<open>A complete entry is handed over at once, unless its event number is 0.\<close>

lemma scan_file_step:
  assumes "ready env" and "set (d_processors D) \<subseteq> ptrs" and "refines (d_eventMap D) g"
    and mem: "d_memdir D = memdir" and nds: "unat (numberOfDataSource D) = n"
    and view: "spool_view memdir (e_world env) name = Some c0" and len0: "20 \<le> length c0"
  shows "\<exists>tw' D' env'. scan_file P junk name (tw, D, env) = Inr (tw', D', env') \<and>
     same_setup D D' \<and> ready env' \<and> kept env env' \<and>
     spool_view memdir (e_world env') = (spool_view memdir (e_world env))(name := None) \<and>
     (let f = parse_frame (take 0x20000 c0); k = frag_key f; v = g k @ [f] in
      tw' = (if length v = n then seconds (f_bx (hd v)) else tw) \<and>
      (if length v = n \<and> k \<noteq> 0
      then refines (d_eventMap D') (g(k := [])) \<and> abs_log (e_log env') = abs_log (e_log env) @ [(k, v)]
      else refines (d_eventMap D') (g(k := v)) \<and> e_log env' = e_log env))"
proof -
  let ?f = "parse_frame (take 0x20000 c0)"
  let ?e = "f_evt ?f" and ?k = "frag_key ?f"
  obtain b env1 where b: "fragment_ok b" "frame_of b = ?f" and env1: "ready env1" "kept env env1" "e_log env1 = e_log env"
    "spool_view memdir (e_world env1) = (spool_view memdir (e_world env))(name := None)"
    and run: "\<forall>tw. scan_file P junk name (tw, D, env) =
       hand_over P ?e (D\<lparr>d_eventMap := add_fragment ?k b (d_eventMap D)\<rparr>) (entry_with ?k b (d_eventMap D)) env1 tw"
    by (rule scan_file_pull [OF assms(1) mem view len0 refl, where junk = junk])
  define D1 where "D1 = D\<lparr>d_eventMap := add_fragment ?k b (d_eventMap D)\<rparr>"
  define v where "v = entry_with ?k b (d_eventMap D)"
  have ref1: "refines (d_eventMap D1) (g(?k := g ?k @ [?f]))"
    using refines_add [OF assms(3) b(1), of ?k] by (simp add: D1_def b(2))
  have v: "map_of (d_eventMap D1) (ucast ?e) = Some v" "map frame_of v = g ?k @ [?f]" "\<forall>b \<in> set v. fragment_ok b"
    using assms(3) entry_with_frames [OF assms(3) b(1), of ?k]
    by (simp_all add: D1_def v_def find_add_fragment refines_def b(2) frag_key_def)
  have same1: "same_setup D D1" by (simp add: same_setup_def D1_def)
  have comp: "is_complete D1 v \<longleftrightarrow> length (g ?k @ [?f]) = n"
    using same_setup_nds [OF same1] nds by (simp add: is_complete_def flip: v(2))
  show ?thesis
  proof (cases "is_complete D1 v")
    case False
    then show ?thesis using run comp same1 env1 ref1
      by (simp add: hand_over_def Let_def flip: D1_def v_def)
  next
    case True
    obtain b0 v' where b0: "v = b0 # v'" using v(2) by (cases v) auto
    with v(3) have bx: "bxId b0 = Inr (f_bx (frame_of b0))" by (simp add: fragment_getters)
    have procs: "set (d_processors D1) \<subseteq> ptrs" using assms(2) by (simp add: D1_def)
    from processEvent_cases [OF env1(1) procs ref1 v(1) True] obtain D2 env2 where
      p: "processEvent P ?e D1 env1 = Inr (D2, env2)" "same_setup D1 D2" "ready env2" "kept env1 env2"
      "spool_view memdir (e_world env2) = spool_view memdir (e_world env1)"
      "if ?e = 0 then D2 = D1 \<and> e_log env2 = e_log env1
       else refines (d_eventMap D2) ((g(?k := g ?k @ [?f]))(ucast ?e := [])) \<and> d_evt D2 = ?e \<and>
           e_log env2 = e_log env1 @ [(ucast ?e, v)]" by blast
    have hd: "hd (g ?k @ [?f]) = frame_of b0" using b0 by (simp flip: v(2))
    have k0: "?k = 0 \<longleftrightarrow> ?e = 0" by (simp add: frag_key_def ucast_u32_0)
    have "scan_file P junk name (tw, D, env) = Inr (seconds (f_bx (frame_of b0)), D2, env2)"
      using run True b0 bx p(1) by (simp add: hand_over_def flip: D1_def v_def)
    then show ?thesis
      using p True comp same_setup_trans [OF same1 p(2)] env1 ref1 v(2) k0 hd kept_trans [OF env1(2) p(4)]
      by (auto simp: Let_def abs_log_def frag_key_def)
  qed
qed

lemma scan_files_run:
  assumes "ready env" and "set (d_processors D) \<subseteq> ptrs" and "refines (d_eventMap D) g"
    and "d_memdir D = memdir" and "unat (numberOfDataSource D) = n"
    and "readable (spool_view memdir (e_world env)) ns" and "distinct ns"
    and "frames_of (spool_view memdir (e_world env)) ns = fs"
  shows "\<exists>D' env'. rfold (scan_file P junk) ns (tw, D, env) = Inr (build_time n g fs tw, D', env') \<and>
     same_setup D D' \<and> ready env' \<and> kept env env' \<and>
     spool_view memdir (e_world env') = (spool_view memdir (e_world env)) |` (- set ns) \<and>
     refines (d_eventMap D') (snd (build n g fs)) \<and>
     abs_log (e_log env') = abs_log (e_log env) @ fst (build n g fs)"
  using assms
proof (induction ns arbitrary: tw D env g fs)
  case Nil
  then show ?case by (auto simp: same_setup_def frames_of_def kept_def)
next
  case (Cons x ns)
  let ?V = "spool_view memdir (e_world env)"
  from Cons.prems(6) obtain c where c: "?V x = Some c" "20 \<le> length c"
    by (auto simp: readable_def)
  let ?f = "parse_frame (take 0x20000 c)"
  let ?fs = "frames_of ?V ns"
  let ?k = "frag_key ?f" and ?v = "g (frag_key ?f) @ [?f]"
  have fs: "fs = ?f # ?fs" using Cons.prems(8) c(1) by (auto simp: frames_of_def)
  let ?g = "if length ?v = n \<and> ?k \<noteq> 0 then g(?k := []) else g(?k := ?v)"
  let ?tw = "if length ?v = n then seconds (f_bx (hd ?v)) else tw"
  from scan_file_step [OF Cons.prems(1-5) c, of junk tw] obtain D1 env1 where
    s1: "scan_file P junk x (tw, D, env) = Inr (?tw, D1, env1)" "same_setup D D1" "ready env1" "kept env env1"
      "spool_view memdir (e_world env1) = ?V(x := None)" "refines (d_eventMap D1) ?g"
      "abs_log (e_log env1) = abs_log (e_log env) @ (if length ?v = n \<and> ?k \<noteq> 0 then [(?k, ?v)] else [])"
    by (auto simp: Let_def split: if_splits)
  have same: "set (d_processors D1) \<subseteq> ptrs" "d_memdir D1 = memdir" "unat (numberOfDataSource D1) = n"
    using s1(2) Cons.prems(2,4,5) same_setup_nds [OF s1(2)] by (simp_all add: same_setup_def)
  from Cons.prems(6,7) have rest: "readable (spool_view memdir (e_world env1)) ns" "distinct ns"
    "frames_of (spool_view memdir (e_world env1)) ns = ?fs"
    by (simp_all add: s1(5)) (simp add: readable_def)
  from Cons.IH [OF s1(3) same(1) s1(6) same(2,3) rest, of ?tw] obtain D2 env2 where
    s2: "rfold (scan_file P junk) ns (?tw, D1, env1) = Inr (build_time n ?g ?fs ?tw, D2, env2)"
      "same_setup D1 D2" "ready env2" "kept env1 env2"
      "spool_view memdir (e_world env2) = (spool_view memdir (e_world env1)) |` (- set ns)"
      "refines (d_eventMap D2) (snd (build n ?g ?fs))"
      "abs_log (e_log env2) = abs_log (e_log env1) @ fst (build n ?g ?fs)" by blast
  have V: "spool_view memdir (e_world env2) = ?V |` (- set (x # ns))"
    by (auto simp: s2(5) s1(5) restrict_map_def fun_eq_iff)
  have t: "build_time n g fs tw = build_time n ?g ?fs ?tw" by (simp add: fs Let_def)
  have b: "build n g fs = ((if length ?v = n \<and> ?k \<noteq> 0 then [(?k, ?v)] else []) @ fst (build n ?g ?fs),
      snd (build n ?g ?fs))" by (simp add: fs Let_def case_prod_beta)
  show ?case
    using s1(1,7) s2(1,3,6,7) V same_setup_trans [OF s1(2) s2(2)] kept_trans [OF s1(4) s2(4)]
    by (simp add: t b)
qed

text \<open>
  A pass: nothing to do on an empty directory, a division by zero when no source is
  registered, everything thrown away when the files do not make full sets of sources, and
  otherwise one pass of the abstract builder over the fragments in name order.
\<close>

definition pass_result :: "'p env \<Rightarrow> shmdriver \<Rightarrow> (u64 \<Rightarrow> frame list) \<Rightarrow> 'p env \<Rightarrow> shmdriver \<Rightarrow>
    (u64 \<times> frame list) list \<Rightarrow> (u64 \<Rightarrow> frame list) \<Rightarrow> bool" where
  "pass_result env D g env' D' evs g' \<longleftrightarrow>
     same_setup D D' \<and> ready env' \<and> kept env env' \<and> spool_view memdir (e_world env') = Map.empty \<and>
     refines (d_eventMap D') g' \<and> abs_log (e_log env') = abs_log (e_log env) @ evs"

text \<open>Full sets of files, and files that do not make full sets.\<close>

lemma scan_pass_full:
  assumes "ready env" and "set (d_processors D) \<subseteq> ptrs" and "refines (d_eventMap D) g"
    and mem: "d_memdir D = memdir" and nds: "unat (numberOfDataSource D) = n" and "0 < n"
    and read: "readable (spool_view memdir (e_world env)) (shm_ls memdir (e_world env))"
    and ls: "ls = shm_ls memdir (e_world env)" "ls \<noteq> []" "length ls mod n = 0"
    and fs: "fs = frames_of (spool_view memdir (e_world env)) ls"
  shows "\<exists>D' env'. scan_pass P junk D env = Inr (D', env') \<and>
     pass_result env D g env' D' (fst (build_pass n g fs)) (snd (build_pass n g fs))"
proof -
  let ?V = "spool_view memdir (e_world env)" and ?t = "build_time n g fs 0"
  have sp: "spool_ok memdir (e_world env)" using assms(1) by (simp add: ready_def)
  note l = shm_ls_sorted [OF sp, folded ls(1)]
  from scan_files_run [OF assms(1-3) mem nds read [folded ls(1)] l(3) fs [symmetric], of junk 0] obtain D1 env1 where
    r: "rfold (scan_file P junk) ls (0, D, env) = Inr (?t, D1, env1)"
      "same_setup D D1" "ready env1" "kept env env1" "spool_view memdir (e_world env1) = ?V |` (- set ls)"
      "refines (d_eventMap D1) (snd (build n g fs))"
      "abs_log (e_log env1) = abs_log (e_log env) @ fst (build n g fs)" by blast
  have V: "spool_view memdir (e_world env1) = Map.empty"
    unfolding r(5) l(1) by (auto simp: restrict_map_def fun_eq_iff)
  have pass: "scan_pass P junk D env =
      (if ?t \<noteq> 0 then rbind (cleanBufferMap ?t (whole_seconds 10) D1) (\<lambda>D2. Inr (D2, env1))
       else Inr (D1, env1))"
    using ls(2,3) \<open>0 < n\<close> r(1) by (simp add: scan_pass_def Let_def mem nds flip: ls(1))
  have n1: "unat (numberOfDataSource D1) = n" using same_setup_nds [OF r(2)] nds by simp
  have "\<exists>D'. scan_pass P junk D env = Inr (D', env1) \<and> same_setup D D' \<and>
          refines (d_eventMap D') (tidy n ?t (snd (build n g fs)))"
    using cleanBufferMap_tidy [OF r(6) n1, of ?t] r(2,6)
    by (cases "?t = 0") (auto simp: pass same_setup_def tidy_def)
  moreover have "fs \<noteq> []" using ls(2) by (simp add: fs frames_of_def)
  ultimately show ?thesis
    using r(3,4,7) V by (auto simp: build_pass_def pass_result_def Let_def case_prod_beta)
qed

lemma scan_pass_mismatch:
  assumes "ready env" and "refines (d_eventMap D) g"
    and mem: "d_memdir D = memdir" and nds: "unat (numberOfDataSource D) = n" and "0 < n"
    and ls: "ls = shm_ls memdir (e_world env)" "ls \<noteq> []" "length ls mod n \<noteq> 0"
  shows "\<exists>D' env'. scan_pass P junk D env = Inr (D', env') \<and> pass_result env D g env' D' [] g"
proof -
  have sp: "spool_ok memdir (e_world env)" using assms(1) by (simp add: ready_def)
  from purgeShm_view [OF sp] obtain w where w: "purgeShm memdir (e_world env) = Inr w"
    "spool_ok memdir w" "spool_frame memdir (e_world env) w" "spool_kept memdir (e_world env) w" "spool_view memdir w = Map.empty"
    by blast
  then have "ready (env\<lparr>e_world := w\<rparr>)"
    using assms(1) inv_frame [OF _ w(3)] by (simp add: ready_def)
  with w ls(2,3) \<open>0 < n\<close> assms(2) show ?thesis
    by (simp add: scan_pass_def Let_def mem nds cleanShm_def same_setup_def pass_result_def kept_def flip: ls(1))
qed

lemma scan_pass_run:
  assumes "ready env" and "set (d_processors D) \<subseteq> ptrs" and "refines (d_eventMap D) g"
    and mem: "d_memdir D = memdir" and nds: "unat (numberOfDataSource D) = n" and "0 < n"
    and read: "readable (spool_view memdir (e_world env)) (shm_ls memdir (e_world env))"
  shows "\<exists>D' env'. scan_pass P junk D env = Inr (D', env') \<and>
     (let ls = shm_ls memdir (e_world env);
          fs = (if length ls mod n = 0 then frames_of (spool_view memdir (e_world env)) ls else [])
      in pass_result env D g env' D' (fst (build_pass n g fs))
           (if fs = [] then g else snd (build_pass n g fs)))"
proof -
  let ?ls = "shm_ls memdir (e_world env)"
  have sp: "spool_ok memdir (e_world env)" using assms(1) by (simp add: ready_def)
  consider "?ls = []" | "?ls \<noteq> []" "length ?ls mod n = 0" | "?ls \<noteq> []" "length ?ls mod n \<noteq> 0" by blast
  then show ?thesis
  proof cases
    case 1
    then have "spool_view memdir (e_world env) = Map.empty"
      using shm_ls_sorted(1) [OF sp] by (metis dom_eq_empty_conv empty_set)
    with 1 assms(1,3) show ?thesis
      by (simp add: scan_pass_def Let_def mem same_setup_def frames_of_def build_pass_def pass_result_def kept_def)
  next
    case 2
    from scan_pass_full [OF assms refl 2 refl, of junk] 2 show ?thesis by (simp add: frames_of_def Let_def)
  next
    case 3
    from scan_pass_mismatch [OF assms(1,3) mem nds assms(6) refl 3, of junk] 3 show ?thesis
      by (simp add: build_pass_def)
  qed
qed

end

end
