(* ===== verification/Basic_Writer.thy ===== *)
theory Basic_Writer
  imports Shm_Driver
begin

text \<open>
  \<^verbatim>\<open>src/basicwriter.cc\<close>: the processor that writes events to a file. An event is its number,
  the number of fragments, and each fragment, compressed, behind its size. The file is
  closed and a new one opened when it has grown past a limit.
\<close>

section \<open>State and operations\<close>

record basicwriter =
  bw_directory :: string
  bw_run :: u32
  bw_event :: u32
  bw_totalSize :: u32
  bw_fdOut :: int
  bw_started :: bool

definition basicwriter_new :: "string \<Rightarrow> basicwriter" where
  "basicwriter_new dire =
     \<lparr>bw_directory = dire, bw_run = 0, bw_event = 0, bw_totalSize = 0, bw_fdOut = - 1,
      bw_started = False\<rparr>"

definition bw_filename :: "u32 \<Rightarrow> basicwriter \<Rightarrow> world \<Rightarrow> string" where
  "bw_filename run bw w = bw_directory bw @ ''/'' @ w_date w @ ''_'' @ show32 run @ ''.dat''"

definition bw_start :: "u32 \<Rightarrow> basicwriter \<Rightarrow> world \<Rightarrow> basicwriter \<times> world" where
  "bw_start run bw w =
     (let (fd, w') = open_creat (bw_filename run bw w) w;
          bw' = bw\<lparr>bw_run := run, bw_fdOut := fd\<rparr> in
      if fd < 0 then (bw', w') else (bw'\<lparr>bw_event := 0, bw_started := True\<rparr>, w'))"

definition bw_stop :: "basicwriter \<Rightarrow> world \<Rightarrow> basicwriter \<times> world" where
  "bw_stop bw w =
     (let bw' = bw\<lparr>bw_started := False\<rparr> in
      if 0 < bw_fdOut bw then (bw'\<lparr>bw_fdOut := - 1\<rparr>, sys_close (bw_fdOut bw) w) else (bw', w))"

definition bw_totalSize_get :: "basicwriter \<Rightarrow> u32" where
  "bw_totalSize_get bw = bw_totalSize bw"

definition bw_eventNumber :: "basicwriter \<Rightarrow> u32" where
  "bw_eventNumber bw = bw_event bw"

definition bw_runNumber :: "basicwriter \<Rightarrow> u32" where
  "bw_runNumber bw = bw_run bw"

text \<open>A \<^verbatim>\<open>write\<close> whose result the code does not look at.\<close>

definition put_bytes :: "int \<Rightarrow> byte list \<Rightarrow> world \<Rightarrow> world" where
  "put_bytes fd bs w = snd (sys_write fd bs w)"

text \<open>One fragment: compressed in place, counted, its size and its bytes written.\<close>

definition bw_write_buffer ::
  "zlib \<Rightarrow> buffer \<Rightarrow> basicwriter \<Rightarrow> world \<Rightarrow> (buffer \<times> basicwriter \<times> world) res" where
  "bw_write_buffer Z b bw w =
     rbind (buffer_compress Z b) (\<lambda>b'.
     (let bsize = size_of b';
          bw' = bw\<lparr>bw_totalSize := bw_totalSize bw + bsize\<rparr>;
          w1 = put_bytes (bw_fdOut bw) (enc32 bsize) w in
      rbind (read_ptr (unat bsize) b') (\<lambda>bytes.
      Inr (b', bw', put_bytes (bw_fdOut bw) bytes w1))))"

text \<open>
  The run header: \<^verbatim>\<open>ibuf\<close> is an array of 256 words, but the buffer it is copied into has
  \<^verbatim>\<open>128+header.size()\<close> bytes.
\<close>

definition bw_processRunHeader ::
  "zlib \<Rightarrow> (nat \<Rightarrow> byte) \<Rightarrow> u32 list \<Rightarrow> basicwriter \<Rightarrow> world \<Rightarrow> (basicwriter \<times> world) res" where
  "bw_processRunHeader Z junk header bw w =
     (if 0 < bw_fdOut bw \<and> length header < 256 then
        (let ibuf = concat (map enc32 header);
             w1 = put_bytes (bw_fdOut bw) (enc32 (bw_run bw)) w;
             w2 = put_bytes (bw_fdOut bw) (enc32 1) w1 in
         rbind (setDetectorId 255 (buffer_new (word_of_nat (128 + length header)) junk)) (\<lambda>b1.
         rbind (setDataSourceId 1 b1) (\<lambda>b2.
         rbind (setEventId 0 b2) (\<lambda>b3.
         rbind (setBxId 0 b3) (\<lambda>b4.
         rbind (setPayload ibuf (word_of_nat (length header * 4)) b4) (\<lambda>b5.
         rbind (bw_write_buffer Z b5 bw w2) (\<lambda>(_, bw', w').
         Inr (bw', w'))))))))
      else Inr (bw, w))"

definition bw_write_next ::
  "zlib \<Rightarrow> buffer \<Rightarrow> buffer list \<times> basicwriter \<times> world \<Rightarrow> (buffer list \<times> basicwriter \<times> world) res" where
  "bw_write_next Z b = (\<lambda>(bs, bw, w).
     rbind (bw_write_buffer Z b bw w) (\<lambda>(b', bw', w'). Inr (bs @ [b'], bw', w')))"

definition file_limit :: u32 where
  "file_limit = 1900 * 1024 * 1024"

text \<open>The returned list is the vector's buffers as the processor leaves them.\<close>

definition bw_rotate :: "basicwriter \<Rightarrow> world \<Rightarrow> basicwriter \<times> world" where
  "bw_rotate bw w =
     (if file_limit < bw_totalSize bw
      then bw_start (bw_run bw) (bw\<lparr>bw_totalSize := 0\<rparr>) (sys_close (bw_fdOut bw) w)
      else (bw, w))"

definition bw_processEvent ::
  "zlib \<Rightarrow> u32 \<Rightarrow> buffer list \<Rightarrow> basicwriter \<Rightarrow> world \<Rightarrow> (basicwriter \<times> buffer list \<times> world) res" where
  "bw_processEvent Z key vbuf bw w =
     (if \<not> bw_started bw then Inr (bw, vbuf, w)
      else if 0 < bw_fdOut bw then
        (let w1 = put_bytes (bw_fdOut bw) (enc32 (bw_event bw)) w;
             w2 = put_bytes (bw_fdOut bw) (enc32 (word_of_nat (length vbuf))) w1 in
         rbind (rfold (bw_write_next Z) vbuf ([], bw, w2)) (\<lambda>(vbuf', bw', w3).
         (let (bw2, w4) = bw_rotate (bw'\<lparr>bw_event := bw_event bw' + 1\<rparr>) w3
          in Inr (bw2, vbuf', w4))))
      else (let (bw2, w1) = bw_rotate bw w in Inr (bw2, vbuf, w1)))"

section \<open>What the operations need and keep\<close>

lemma fragment_compress:
  assumes "zlib_ok Z" and "fragment_ok b"
  shows "\<exists>b'. buffer_compress Z b = Inr b' \<and> fragment_ok b' \<and>
           frame_of b' = (frame_of b)\<lparr>f_payload := z_compress Z 0x20000 (f_payload (frame_of b))\<rparr>"
proof -
  let ?c = "z_compress Z 0x20000 (f_payload (frame_of b))"
  have c: "length ?c \<le> 0x20000" using assms(1) unfolding zlib_ok_def by blast
  have b: "buf_ok b" "length (b_mem b) = 0x80000" using assms(2) by (simp_all add: fragment_ok_def)
  have "20 + length ?c \<le> length (b_mem b)" using c b(2) by simp
  from transform_ok [where f = "z_compress Z 0x20000", OF b(1) this] obtain b' where
    b': "transform (z_compress Z 0x20000) b = Inr b'" "length (b_mem b') = 0x80000" using b(2) by auto
  have "length ?c + 20 < 2 ^ 32" using c by simp
  from transform_frame [where f = "z_compress Z 0x20000", OF b'(1) this] have f: "buf_ok b'" "frame_of b' = (frame_of b)\<lparr>f_payload := ?c\<rparr>"
    by simp_all
  have "unat (b_psize b') = length ?c"
    using length_payload [OF f(1)] by (simp add: f(2) payloadSize_def)
  with f b'(2) c show ?thesis
    using b'(1) by (simp add: buffer_compress_def fragment_ok_def)
qed

lemma bw_write_buffer_ok:
  assumes "zlib_ok Z" and "fragment_ok b"
  shows "\<exists>b'. fragment_ok b' \<and>
     frame_of b' = (frame_of b)\<lparr>f_payload := z_compress Z 0x20000 (f_payload (frame_of b))\<rparr> \<and>
     bw_write_buffer Z b bw w =
       Inr (b', bw\<lparr>bw_totalSize := bw_totalSize bw + size_of b'\<rparr>,
            put_bytes (bw_fdOut bw) (frame_bytes (frame_of b'))
              (put_bytes (bw_fdOut bw) (enc32 (size_of b')) w))"
proof -
  from fragment_compress [OF assms] obtain b' where b': "buffer_compress Z b = Inr b'" "fragment_ok b'"
    "frame_of b' = (frame_of b)\<lparr>f_payload := z_compress Z 0x20000 (f_payload (frame_of b))\<rparr>" by blast
  have "buf_ok b'" using b'(2) by (simp add: fragment_ok_def)
  from holds_getters(6) [OF holds_frame_of [OF this]] b' show ?thesis
    by (auto simp: bw_write_buffer_def Let_def)
qed

section \<open>The file\<close>

text \<open>The descriptor stands at the end of a file with the given content.\<close>

definition at_end :: "int \<Rightarrow> string list \<Rightarrow> byte list \<Rightarrow> world \<Rightarrow> bool" where
  "at_end fd p c w \<longleftrightarrow> p \<noteq> [] \<and> map_of (w_fds w) fd = Some \<lparr>d_path = p, d_pos = length c\<rparr> \<and>
     node_at w p = Some (File c)"

text \<open>Between two worlds only the file \<open>p\<close> and the descriptor table have changed.\<close>

definition only_file :: "string list \<Rightarrow> world \<Rightarrow> world \<Rightarrow> bool" where
  "only_file p w w' \<longleftrightarrow> w_wmax w' = w_wmax w \<and> w_date w' = w_date w \<and>
     (\<forall>q. q \<noteq> p \<longrightarrow> node_at w' q = node_at w q)"

lemma only_file_refl [simp]: "only_file p w w"
  by (simp add: only_file_def)

lemma only_file_trans: "only_file p w w' \<Longrightarrow> only_file p w' w'' \<Longrightarrow> only_file p w w''"
  by (simp add: only_file_def)

lemma put_bytes_append:
  assumes "at_end fd p c w" and "length bs \<le> w_wmax w"
  shows "at_end fd p (c @ bs) (put_bytes fd bs w) \<and> only_file p w (put_bytes fd bs w)"
  using assms
  by (simp add: at_end_def put_bytes_def sys_write_def Let_def only_file_def set_pos_def
      map_of_set_pos node_at_put)

text \<open>The layout of the file: what is kept of a fragment, and the record of an event.\<close>

definition stored :: "zlib \<Rightarrow> frame \<Rightarrow> frame" where
  "stored Z f = f\<lparr>f_payload := z_compress Z 0x20000 (f_payload f)\<rparr>"

definition block_bytes :: "frame \<Rightarrow> byte list" where
  "block_bytes f = enc32 (word_of_nat (20 + length (f_payload f))) @ frame_bytes f"

definition event_record :: "u32 \<Rightarrow> frame list \<Rightarrow> byte list" where
  "event_record evt fs =
     enc32 evt @ enc32 (word_of_nat (length fs)) @ concat (map block_bytes fs)"

lemma fragment_size:
  assumes "fragment_ok b"
  shows "size_of b = word_of_nat (20 + length (f_payload (frame_of b)))"
    and "length (f_payload (frame_of b)) \<le> 0x20000"
proof -
  have ok: "buf_ok b" and le: "unat (b_psize b) \<le> 0x20000" using assms by (simp_all add: fragment_ok_def)
  note h = holds_frame_of [OF ok]
  show "length (f_payload (frame_of b)) \<le> 0x20000"
    using le length_payload [OF ok] by (simp add: payloadSize_def)
  from h have "b_psize b = word_of_nat (length (f_payload (frame_of b)))" by (simp add: holds_def)
  then show "size_of b = word_of_nat (20 + length (f_payload (frame_of b)))"
    by (simp add: size_of_def)
qed

lemma write_buffer_appends:
  assumes "zlib_ok Z" and "fragment_ok b" and "at_end (bw_fdOut bw) p c w" and "0x20014 \<le> w_wmax w"
  shows "\<exists>b' w'. bw_write_buffer Z b bw w =
       Inr (b', bw\<lparr>bw_totalSize := bw_totalSize bw + size_of b'\<rparr>, w') \<and>
     fragment_ok b' \<and> frame_of b' = stored Z (frame_of b) \<and>
     at_end (bw_fdOut bw) p (c @ block_bytes (stored Z (frame_of b))) w' \<and> only_file p w w'"
proof -
  from bw_write_buffer_ok [OF assms(1,2), of bw w] obtain b' where b': "fragment_ok b'"
    "frame_of b' = stored Z (frame_of b)"
    "bw_write_buffer Z b bw w =
       Inr (b', bw\<lparr>bw_totalSize := bw_totalSize bw + size_of b'\<rparr>,
            put_bytes (bw_fdOut bw) (frame_bytes (frame_of b'))
              (put_bytes (bw_fdOut bw) (enc32 (size_of b')) w))"
    unfolding stored_def by blast
  note sz = fragment_size [OF b'(1)]
  let ?w1 = "put_bytes (bw_fdOut bw) (enc32 (size_of b')) w"
  have w1: "at_end (bw_fdOut bw) p (c @ enc32 (size_of b')) ?w1" "only_file p w ?w1"
    using put_bytes_append [OF assms(3), of "enc32 (size_of b')"] assms(4) by simp_all
  have "length (frame_bytes (frame_of b')) \<le> w_wmax ?w1"
    using w1(2) sz(2) assms(4) by (simp add: only_file_def)
  from put_bytes_append [OF w1(1) this] w1(2) b' sz(1) show ?thesis
    by (auto simp: block_bytes_def intro: only_file_trans)
qed

lemma write_next_simp:
  "bw_write_next Z b (bs, bw, w) =
     rbind (bw_write_buffer Z b bw w) (\<lambda>(b', bw', w'). Inr (bs @ [b'], bw', w'))"
  by (simp add: bw_write_next_def)

lemma write_next_appends:
  assumes "zlib_ok Z" and "\<forall>b \<in> set vbuf. fragment_ok b" and "at_end (bw_fdOut bw) p c w"
    and "0x20014 \<le> w_wmax w"
  shows "\<exists>vbuf' w'. rfold (bw_write_next Z) vbuf (bs, bw, w) =
       Inr (bs @ vbuf', bw\<lparr>bw_totalSize := bw_totalSize bw + sum_list (map size_of vbuf')\<rparr>, w') \<and>
     (\<forall>b \<in> set vbuf'. fragment_ok b) \<and> map frame_of vbuf' = map (\<lambda>b. stored Z (frame_of b)) vbuf \<and>
     at_end (bw_fdOut bw) p (c @ concat (map (\<lambda>b. block_bytes (stored Z (frame_of b))) vbuf)) w' \<and>
     only_file p w w'"
  using assms(2-)
proof (induction vbuf arbitrary: bs bw c w)
  case Nil
  then show ?case by simp
next
  case (Cons b vbuf)
  from write_buffer_appends [OF assms(1) _ Cons.prems(2,3), of b] Cons.prems(1) obtain b' w1 where
    s1: "bw_write_buffer Z b bw w =
       Inr (b', bw\<lparr>bw_totalSize := bw_totalSize bw + size_of b'\<rparr>, w1)"
     "fragment_ok b'" "frame_of b' = stored Z (frame_of b)"
     "at_end (bw_fdOut bw) p (c @ block_bytes (stored Z (frame_of b))) w1" "only_file p w w1" by auto
  let ?bw = "bw\<lparr>bw_totalSize := bw_totalSize bw + size_of b'\<rparr>"
  have "0x20014 \<le> w_wmax w1" using s1(5) Cons.prems(3) by (simp add: only_file_def)
  with Cons.IH [of ?bw "c @ block_bytes (stored Z (frame_of b))" w1 "bs @ [b']"] Cons.prems(1) s1(4)
  obtain vbuf' w' where s2: "rfold (bw_write_next Z) vbuf (bs @ [b'], ?bw, w1) =
       Inr ((bs @ [b']) @ vbuf', ?bw\<lparr>bw_totalSize := bw_totalSize ?bw + sum_list (map size_of vbuf')\<rparr>, w')"
     "\<forall>b \<in> set vbuf'. fragment_ok b" "map frame_of vbuf' = map (\<lambda>b. stored Z (frame_of b)) vbuf"
     "at_end (bw_fdOut bw) p ((c @ block_bytes (stored Z (frame_of b))) @
        concat (map (\<lambda>b. block_bytes (stored Z (frame_of b))) vbuf)) w'" "only_file p w1 w'" by auto
  show ?case
    using s1 s2 only_file_trans [OF s1(5) s2(5)]
    by (intro exI [of _ "b' # vbuf'"] exI [of _ w']) (simp add: write_next_simp add.assoc)
qed

text \<open>
  The property of one event: its record is appended whatever the total size, and only when
  the total passes the limit is the file left for a new one.
\<close>

definition total_after :: "basicwriter \<Rightarrow> frame list \<Rightarrow> u32" where
  "total_after bw fs =
     bw_totalSize bw + sum_list (map (\<lambda>f. word_of_nat (20 + length (f_payload f))) fs)"

lemma total_after_sizes:
  assumes "\<forall>b \<in> set bs. fragment_ok b" and "map frame_of bs = fs"
  shows "bw_totalSize bw + sum_list (map size_of bs) = total_after bw fs"
proof -
  have "map size_of bs = map (\<lambda>f. word_of_nat (20 + length (f_payload f))) fs"
    using assms by (auto simp: fragment_size(1))
  then show ?thesis by (simp add: total_after_def)
qed

lemma bw_start_fields [simp]:
  "bw_run (fst (bw_start run bw w)) = run" "bw_totalSize (fst (bw_start run bw w)) = bw_totalSize bw"
  "bw_directory (fst (bw_start run bw w)) = bw_directory bw"
  "snd (bw_start run bw w) = snd (open_creat (bw_filename run bw w) w)"
  by (simp_all add: bw_start_def Let_def case_prod_beta)

lemma event_appended:
  assumes "zlib_ok Z" and "bw_started bw" and "0 < bw_fdOut bw" and "at_end (bw_fdOut bw) p c w"
    and "0x20014 \<le> w_wmax w" and "\<forall>b \<in> set vbuf. fragment_ok b"
    and fs: "fs = map (\<lambda>b. stored Z (frame_of b)) vbuf"
  shows "\<exists>bw' vbuf' w'. bw_processEvent Z key vbuf bw w = Inr (bw', vbuf', w') \<and>
     map frame_of vbuf' = fs \<and> node_at w' p = Some (File (c @ event_record (bw_event bw) fs)) \<and>
     (if total_after bw fs \<le> file_limit
      then bw' = bw\<lparr>bw_event := bw_event bw + 1, bw_totalSize := total_after bw fs\<rparr> \<and>
           at_end (bw_fdOut bw) p (c @ event_record (bw_event bw) fs) w' \<and> only_file p w w'
      else bw_totalSize bw' = 0 \<and> bw_run bw' = bw_run bw)"
proof -
  let ?fd = "bw_fdOut bw"
  let ?e = "enc32 (bw_event bw)" and ?n = "enc32 (word_of_nat (length vbuf))"
  let ?w1 = "put_bytes ?fd ?e w"
  let ?w2 = "put_bytes ?fd ?n ?w1"
  have w1: "at_end ?fd p (c @ ?e) ?w1" "only_file p w ?w1"
    using put_bytes_append [OF assms(4), of ?e] assms(5) by simp_all
  then have "length ?n \<le> w_wmax ?w1" using assms(5) by (simp add: only_file_def)
  from put_bytes_append [OF w1(1) this] have w2: "at_end ?fd p ((c @ ?e) @ ?n) ?w2" "only_file p w ?w2"
    using w1(2) by (auto intro: only_file_trans)
  then have "0x20014 \<le> w_wmax ?w2" using assms(5) by (simp add: only_file_def)
  from write_next_appends [OF assms(1,6) w2(1) this, of "[]"] obtain bs w3 where
    r: "rfold (bw_write_next Z) vbuf ([], bw, ?w2) =
       Inr (bs, bw\<lparr>bw_totalSize := bw_totalSize bw + sum_list (map size_of bs)\<rparr>, w3)"
    "\<forall>b \<in> set bs. fragment_ok b" "map frame_of bs = fs"
    "at_end ?fd p (((c @ ?e) @ ?n) @ concat (map (\<lambda>b. block_bytes (stored Z (frame_of b))) vbuf)) w3"
    "only_file p ?w2 w3" by (auto simp: fs)
  have c: "((c @ ?e) @ ?n) @ concat (map (\<lambda>b. block_bytes (stored Z (frame_of b))) vbuf) =
      c @ event_record (bw_event bw) fs" by (simp add: event_record_def fs comp_def)
  note a = r(4) [unfolded c] and t = total_after_sizes [OF r(2,3), of bw]
  let ?bw = "bw\<lparr>bw_totalSize := total_after bw fs, bw_event := bw_event bw + 1\<rparr>"
  have run: "bw_processEvent Z key vbuf bw w = (let (bw2, w4) = bw_rotate ?bw w3 in Inr (bw2, bs, w4))"
    using assms(2,3) r(1) by (simp add: bw_processEvent_def Let_def t)
  show ?thesis
  proof (cases "total_after bw fs \<le> file_limit")
    case True
    then have "bw_rotate ?bw w3 = (?bw, w3)" by (simp add: bw_rotate_def leD)
    with True run r(3) a only_file_trans [OF w2(2) r(5)] show ?thesis
      by (simp add: at_end_def)
  next
    case False
    have node: "node_at (sys_close ?fd w3) p = Some (File (c @ event_record (bw_event bw) fs))"
      using a by (simp add: at_end_def)
    let ?s = "bw_start (bw_run bw) (?bw\<lparr>bw_totalSize := 0\<rparr>) (sys_close ?fd w3)"
    from False have "bw_rotate ?bw w3 = ?s" by (simp add: bw_rotate_def not_le)
    then have "bw_processEvent Z key vbuf bw w = Inr (fst ?s, bs, snd ?s)"
      using run by (simp only: Let_def case_prod_beta)
    with False r(3) open_creat_keeps [OF node] show ?thesis
      by (intro exI [of _ "fst ?s"] exI [of _ bs] exI [of _ "snd ?s"]) simp
  qed
qed

section \<open>The run header\<close>

text \<open>
  The compressed header goes back into the buffer it came from, of 128 bytes and a byte for each of
  its \<open>n\<close> words.
\<close>

lemma write_header_block:
  assumes "length (b_mem b) = 128 + n" and "n \<le> 36" and psize: "unat (b_psize b) = 4 * n"
    and c: "c = z_compress Z 0x20000 (chunk 20 (4 * n) (b_mem b))"
  shows "if length c \<le> 108 + n then \<exists>r. bw_write_buffer Z b bw w = Inr r
     else bw_write_buffer Z b bw w = Inl Out_Of_Bounds"
proof -
  have src: "read_payload (unat (payloadSize b)) b = Inr (chunk 20 (4 * n) (b_mem b))"
    using assms(1,2) psize by (simp add: read_payload_def payloadSize_def)
  show ?thesis
  proof (cases "length c \<le> 108 + n")
    case False
    with src assms(1,2) have "buffer_compress Z b = Inl Out_Of_Bounds"
      by (simp add: buffer_compress_def transform_def c)
    with False show ?thesis by (simp add: bw_write_buffer_def)
  next
    case True
    let ?b6 = "b\<lparr>b_mem := overwrite 20 c (b_mem b), b_psize := word_of_nat (length c)\<rparr>"
    have cmp: "buffer_compress Z b = Inr ?b6"
      using src True assms(1,2) by (simp add: buffer_compress_def transform_def c)
    have "size_of ?b6 = word_of_nat (length c + 20)" by (simp add: size_of_def)
    moreover have "unat (word_of_nat (length c + 20) :: u32) = length c + 20"
      using True assms(2) by (intro unat_of_nat_u32) simp
    ultimately have "unat (size_of ?b6) = length c + 20" by simp
    then have "unat (size_of ?b6) \<le> length (b_mem ?b6)" using True assms(1) by simp
    with cmp True show ?thesis by (simp add: bw_write_buffer_def read_ptr_def Let_def)
  qed
qed

text \<open>
  C23: the run header is written only when it fits the buffer the code makes for it, and the
  buffer is sized in words where its payload is counted in bytes: every header of 37 to 255
  words, all of which pass the guard, is copied past the end of the block. With at most 36
  words the call returns exactly when the compressed words fit as well.
\<close>

theorem run_header_bound:
  assumes "0 < bw_fdOut bw" and "length header < 256"
  shows "(length header \<le> 36 \<and>
          length (z_compress Z 0x20000 (concat (map enc32 header))) \<le> 108 + length header \<longrightarrow>
            (\<exists>r. bw_processRunHeader Z junk header bw w = Inr r)) \<and>
    (\<not> (length header \<le> 36 \<and>
          length (z_compress Z 0x20000 (concat (map enc32 header))) \<le> 108 + length header) \<longrightarrow>
            bw_processRunHeader Z junk header bw w = Inl Out_Of_Bounds)"
proof -
  let ?n = "length header" and ?i = "concat (map enc32 header)"
  have len: "length ?i = ?n * 4" by (rule c32.length_concat_enc)
  have u: "unat (128 + word_of_nat ?n :: u32) = 128 + ?n" "unat (word_of_nat ?n * 4 :: u32) = ?n * 4"
    using unat_of_nat_u32 [of "128 + ?n"] unat_of_nat_u32 [of "?n * 4"] assms(2) by simp_all
  define b0 where "b0 = buffer_new (128 + word_of_nat ?n) junk"
  define b4 where "b4 = b0\<lparr>b_mem := overwrite 12 (enc64 0) (overwrite 8 (enc32 0)
      (overwrite 4 (enc32 1) (overwrite 0 (enc32 255) (b_mem b0))))\<rparr>"
  have b4: "length (b_mem b4) = 128 + ?n" using u(1) by (simp add: b4_def b0_def)
  have run: "bw_processRunHeader Z junk header bw w =
       rbind (setPayload ?i (word_of_nat (?n * 4)) b4) (\<lambda>b5.
       rbind (bw_write_buffer Z b5 bw (put_bytes (bw_fdOut bw) (enc32 1)
                (put_bytes (bw_fdOut bw) (enc32 (bw_run bw)) w))) (\<lambda>(_, bw', w'). Inr (bw', w')))"
    using assms u(1) by (simp add: bw_processRunHeader_def setter_defs Let_def b4_def b0_def)
  show ?thesis
  proof (cases "?n \<le> 36")
    case False
    then have "setPayload ?i (word_of_nat (?n * 4)) b4 = Inl Out_Of_Bounds"
      using b4 len u(2) by (simp add: setPayload_def chunk_def)
    with run False show ?thesis by simp
  next
    case True
    let ?b5 = "b4\<lparr>b_mem := overwrite 20 ?i (b_mem b4), b_psize := word_of_nat (?n * 4)\<rparr>"
    have p: "setPayload ?i (word_of_nat (?n * 4)) b4 = Inr ?b5"
      using True b4 len u(2) by (simp add: setPayload_Inr)
    have payload: "chunk 20 (unat (b_psize ?b5)) (b_mem ?b5) = ?i"
      using True b4 len u(2) by (simp add: mem_simps)
    have "length (b_mem ?b5) = 128 + ?n" "unat (b_psize ?b5) = 4 * ?n" using True b4 len u(2) by simp_all
    from write_header_block [OF this(1) True this(2) refl, of Z bw "put_bytes (bw_fdOut bw) (enc32 1)
        (put_bytes (bw_fdOut bw) (enc32 (bw_run bw)) w)"] payload
    show ?thesis unfolding run p using True by (auto simp: u(2) mult.commute split: if_splits)
  qed
qed

theorem run_header_bound_witness:
  "\<forall>Z junk w. bw_processRunHeader Z junk (replicate 40 1) ((basicwriter_new ''/data'')\<lparr>bw_fdOut := 3\<rparr>) w =
     Inl Out_Of_Bounds"
  using run_header_bound [of "(basicwriter_new ''/data'')\<lparr>bw_fdOut := 3\<rparr>" "replicate 40 1"] by simp

end
