(* ===== verification/Event_File.thy ===== *)
theory Event_File
  imports Basic_Writer
begin

text \<open>
  What the files of the event writer mean: a reader of their format, which gives back every
  event written to a file with its number, its fragments and, after decompression, their
  payloads.
\<close>

section \<open>A reader of the format\<close>

fun read_blocks :: "nat \<Rightarrow> byte list \<Rightarrow> (frame list \<times> byte list) option" where
  "read_blocks 0 bs = Some ([], bs)"
| "read_blocks (Suc n) bs =
     (let size = unat (dec32 (take 4 bs)); r = drop 4 bs in
      if length bs < 4 \<or> size < 20 \<or> length r < size then None
      else map_option (\<lambda>(fs, r'). (parse_frame (take size r) # fs, r')) (read_blocks n (drop size r)))"

definition read_event :: "byte list \<Rightarrow> ((u32 \<times> frame list) \<times> byte list) option" where
  "read_event bs =
     (if length bs < 8 then None
      else map_option (\<lambda>(fs, r). ((dec32 (take 4 bs), fs), r))
             (read_blocks (unat (dec32 (chunk 4 4 bs))) (drop 8 bs)))"

fun read_events :: "nat \<Rightarrow> byte list \<Rightarrow> ((u32 \<times> frame list) list \<times> byte list) option" where
  "read_events 0 bs = Some ([], bs)"
| "read_events (Suc n) bs =
     Option.bind (read_event bs) (\<lambda>(e, r). map_option (\<lambda>(es, r'). (e # es, r')) (read_events n r))"

definition restored :: "zlib \<Rightarrow> frame \<Rightarrow> frame" where
  "restored Z f = f\<lparr>f_payload := z_uncompress Z 0x20000 (f_payload f)\<rparr>"

lemma length_block [simp]: "length (block_bytes f) = 24 + length (f_payload f)"
  by (simp add: block_bytes_def)

lemma read_block:
  assumes "short f"
  shows "read_blocks (Suc n) (block_bytes f @ r) =
           map_option (\<lambda>(fs, r'). (f # fs, r')) (read_blocks n r)"
proof -
  have "unat (word_of_nat (20 + length (f_payload f)) :: u32) = 20 + length (f_payload f)"
    using assms by (intro unat_of_nat_u32) (simp add: short_def)
  then have size: "unat (20 + word_of_nat (length (f_payload f)) :: u32) = 20 + length (f_payload f)"
    by simp
  have "take (20 + length (f_payload f)) (frame_bytes f @ r) = frame_bytes f" by simp
  with size show ?thesis by (simp add: block_bytes_def Let_def)
qed

lemma read_blocks_concat:
  "\<forall>f \<in> set fs. short f \<Longrightarrow>
     read_blocks (length fs) (concat (map block_bytes fs) @ r) = Some (fs, r)"
  by (induction fs) (simp_all add: read_block del: read_blocks.simps(2))

lemma read_event_record:
  assumes "\<forall>f \<in> set fs. short f" and "length fs < 2 ^ 32"
  shows "read_event (event_record e fs @ r) = Some ((e, fs), r)"
proof -
  have "unat (word_of_nat (length fs) :: u32) = length fs"
    using assms(2) by (rule unat_of_nat_u32)
  with read_blocks_concat [OF assms(1), of r] show ?thesis
    by (simp add: read_event_def event_record_def chunk_def)
qed

text \<open>The records of consecutive events.\<close>

fun records :: "u32 \<Rightarrow> frame list list \<Rightarrow> byte list" where
  "records e [] = []"
| "records e (fs # fss) = event_record e fs @ records (e + 1) fss"

fun numbered :: "u32 \<Rightarrow> frame list list \<Rightarrow> (u32 \<times> frame list) list" where
  "numbered e [] = []"
| "numbered e (fs # fss) = (e, fs) # numbered (e + 1) fss"

lemma read_records:
  "\<forall>fs \<in> set fss. length fs < 2 ^ 32 \<and> (\<forall>f \<in> set fs. short f) \<Longrightarrow>
     read_events (length fss) (records e fss @ r) = Some (numbered e fss, r)"
  by (induction fss arbitrary: e) (simp_all add: read_event_record)

section \<open>A run of events\<close>

definition bw_event_step ::
  "zlib \<Rightarrow> u32 \<times> buffer list \<Rightarrow> basicwriter \<times> world \<Rightarrow> (basicwriter \<times> world) res" where
  "bw_event_step Z = (\<lambda>(key, vbuf) (bw, w).
     rbind (bw_processEvent Z key vbuf bw w) (\<lambda>(bw', _, w'). Inr (bw', w')))"

definition bytes_of :: "frame list list \<Rightarrow> nat" where
  "bytes_of fss = sum_list (map (\<lambda>f. 20 + length (f_payload f)) (concat fss))"

definition stored_events :: "zlib \<Rightarrow> (u32 \<times> buffer list) list \<Rightarrow> frame list list" where
  "stored_events Z evs = map (\<lambda>(_, vbuf). map (\<lambda>b. stored Z (frame_of b)) vbuf) evs"

lemma total_after_unat:
  assumes "unat (bw_totalSize bw) + bytes_of [fs] \<le> unat file_limit"
  shows "unat (total_after bw fs) = unat (bw_totalSize bw) + bytes_of [fs]"
    and "total_after bw fs \<le> file_limit"
proof -
  have sum: "(\<Sum>f\<leftarrow>fs. word_of_nat (20 + length (f_payload f))) = (word_of_nat (bytes_of [fs]) :: u32)"
    by (induction fs) (simp_all add: bytes_of_def)
  have t: "total_after bw fs = word_of_nat (unat (bw_totalSize bw) + bytes_of [fs])"
    by (simp only: total_after_def sum of_nat_add) (simp add: sum [simplified])
  show u: "unat (total_after bw fs) = unat (bw_totalSize bw) + bytes_of [fs]"
    unfolding t using assms by (intro unat_of_nat_u32) (simp add: file_limit_def)
  then show "total_after bw fs \<le> file_limit" using assms by (simp add: word_le_nat_alt)
qed

lemma events_appended:
  assumes "zlib_ok Z" and "bw_started bw" and "0 < bw_fdOut bw" and "at_end (bw_fdOut bw) p c w"
    and "0x20014 \<le> w_wmax w" and "\<forall>(key, vbuf) \<in> set evs. \<forall>b \<in> set vbuf. fragment_ok b"
    and "unat (bw_totalSize bw) + bytes_of (stored_events Z evs) \<le> unat file_limit"
  shows "\<exists>bw' w'. rfold (bw_event_step Z) evs (bw, w) = Inr (bw', w') \<and> bw_fdOut bw' = bw_fdOut bw \<and>
     bw_started bw' \<and> bw_event bw' = bw_event bw + word_of_nat (length evs) \<and>
     at_end (bw_fdOut bw) p (c @ records (bw_event bw) (stored_events Z evs)) w' \<and> only_file p w w'"
  using assms(2-)
proof (induction evs arbitrary: bw c w)
  case Nil
  then show ?case by (simp add: stored_events_def)
next
  case (Cons ev evs)
  obtain key vbuf where ev: "ev = (key, vbuf)" by (cases ev)
  let ?fs = "map (\<lambda>b. stored Z (frame_of b)) vbuf"
  have split: "stored_events Z (ev # evs) = ?fs # stored_events Z evs"
    by (simp add: stored_events_def ev)
  then have sum: "bytes_of (stored_events Z (ev # evs)) = bytes_of [?fs] + bytes_of (stored_events Z evs)"
    by (simp add: bytes_of_def)
  have "unat (bw_totalSize bw) + bytes_of [?fs] \<le> unat file_limit"
    using Cons.prems(6) sum by linarith
  note t = total_after_unat [OF this]
  have ok: "\<forall>b \<in> set vbuf. fragment_ok b" using Cons.prems(5) by (simp add: ev)
  let ?bw = "bw\<lparr>bw_event := bw_event bw + 1, bw_totalSize := total_after bw ?fs\<rparr>"
  from event_appended [OF assms(1) Cons.prems(1-4) ok refl, of key] t(2) obtain vbuf' w1 where
    s1: "bw_processEvent Z key vbuf bw w = Inr (?bw, vbuf', w1)"
    "at_end (bw_fdOut bw) p (c @ event_record (bw_event bw) ?fs) w1" "only_file p w w1" by auto
  have "0x20014 \<le> w_wmax w1" using s1(3) Cons.prems(4) by (simp add: only_file_def)
  with Cons.IH [of ?bw "c @ event_record (bw_event bw) ?fs" w1] Cons.prems s1(2) t(1) sum
  obtain bw' w' where s2: "rfold (bw_event_step Z) evs (?bw, w1) = Inr (bw', w')"
    "bw_fdOut bw' = bw_fdOut bw" "bw_started bw'"
    "bw_event bw' = bw_event bw + 1 + word_of_nat (length evs)"
    "at_end (bw_fdOut bw) p ((c @ event_record (bw_event bw) ?fs) @
       records (bw_event bw + 1) (stored_events Z evs)) w'" "only_file p w1 w'" by auto
  from s1 have "bw_event_step Z ev (bw, w) = Inr (?bw, w1)" by (simp add: bw_event_step_def ev)
  with s2 only_file_trans [OF s1(3) s2(6)] show ?case by (simp add: split add.assoc)
qed

section \<open>What a file gives back\<close>

lemma restored_stored:
  assumes "zlib_ok Z" and "length (f_payload f) \<le> 0x20000" and "z_bound Z (length (f_payload f)) \<le> 0x20000"
  shows "restored Z (stored Z f) = f"
proof -
  have "z_uncompress Z 0x20000 (z_compress Z 0x20000 (f_payload f)) = f_payload f"
    using assms unfolding zlib_ok_def by blast
  then show ?thesis by (simp add: restored_def stored_def)
qed

lemma short_stored: "zlib_ok Z \<Longrightarrow> short (stored Z f)"
  unfolding short_def stored_def zlib_ok_def by simp

lemma restored_numbered:
  "map (\<lambda>(e, fs). (e, map (restored Z) fs)) (numbered e fss) = numbered e (map (map (restored Z)) fss)"
  by (induction fss arbitrary: e) simp_all

text \<open>A run starts a file: a new one, since its name was free.\<close>

lemma bw_start_new_file:
  assumes "node_at w (resolve (bw_filename run bw w)) = None"
    and "node_at w (butlast (resolve (bw_filename run bw w))) = Some Dir"
  shows "\<exists>w1. bw_start run bw w =
      (bw\<lparr>bw_run := run, bw_fdOut := next_fd (w_fds w), bw_event := 0, bw_started := True\<rparr>, w1) \<and>
    at_end (next_fd (w_fds w)) (resolve (bw_filename run bw w)) [] w1 \<and>
    only_file (resolve (bw_filename run bw w)) w w1"
proof -
  let ?p = "resolve (bw_filename run bw w)"
  have create: "can_create w ?p" using assms by (simp add: can_create_def)
  have ne: "?p \<noteq> []" by (rule can_create_nonempty [OF create])
  obtain w0 where w0: "open_creat (bw_filename run bw w) w = (next_fd (w_fds w),
      w0\<lparr>w_fds := (next_fd (w_fds w), \<lparr>d_path = ?p, d_pos = 0\<rparr>) # w_fds w\<rparr>)"
    "w_fds w0 = w_fds w" "w_wmax w0 = w_wmax w" "w_date w0 = w_date w"
    "node_at w0 ?p = Some (File (content w ?p))" "\<And>n. put_node ?p n w0 = put_node ?p n w"
    by (rule open_creat_ok [OF create]) blast
  have same: "node_at w0 q = node_at w q" if "q \<noteq> ?p" for q
    using arg_cong [OF w0(6) [of Dir], of "\<lambda>x. node_at x q"] that by (simp add: node_at_put [OF ne])
  have "content w ?p = []" using assms(1) by (simp add: content_def)
  with w0 ne same show ?thesis
    by (simp add: bw_start_def at_end_def only_file_def)
qed

text \<open>
  C12: a run written by a fresh writer, whatever its events, can be read back: the file holds
  every event handed to it, in order and numbered from 0, each with all its fragments, and
  uncompressing their payloads gives the fragments as they came, provided each fits the
  compressor's work array and the file stays below the size at which it is changed.
\<close>

theorem writer_file_reads_back:
  assumes "zlib_ok Z" and "node_at w p = None" and "node_at w (butlast p) = Some Dir"
    and p: "p = resolve (bw_filename run (basicwriter_new dir) w)"
    and "0 < next_fd (w_fds w)" and "0x20014 \<le> w_wmax w"
    and frags: "\<forall>(key, vbuf) \<in> set evs. length vbuf < 2 ^ 32 \<and>
      (\<forall>b \<in> set vbuf. fragment_ok b \<and> z_bound Z (unat (payloadSize b)) \<le> 0x20000)"
    and size: "bytes_of (stored_events Z evs) \<le> unat file_limit"
  shows "\<exists>bw1 w1 bw' w' c es. bw_start run (basicwriter_new dir) w = (bw1, w1) \<and>
     rfold (bw_event_step Z) evs (bw1, w1) = Inr (bw', w') \<and>
     node_at w' p = Some (File c) \<and> read_events (length evs) c = Some (es, []) \<and>
     map (\<lambda>(e, fs). (e, map (restored Z) fs)) es = numbered 0 (map (map frame_of \<circ> snd) evs)"
proof -
  let ?bw = "(basicwriter_new dir)\<lparr>bw_run := run, bw_fdOut := next_fd (w_fds w), bw_event := 0,
      bw_started := True\<rparr>"
  from bw_start_new_file [of w run "basicwriter_new dir"] assms(2-4) obtain w1 where
    w1: "bw_start run (basicwriter_new dir) w = (?bw, w1)" "at_end (next_fd (w_fds w)) p [] w1"
      "only_file p w w1" by auto
  let ?ss = "stored_events Z evs"
  have "0x20014 \<le> w_wmax w1" using w1(3) assms(6) by (simp add: only_file_def)
  moreover have "\<forall>(key, vbuf) \<in> set evs. \<forall>b \<in> set vbuf. fragment_ok b" using frags by auto
  ultimately
  obtain bw' w' where r: "rfold (bw_event_step Z) evs (?bw, w1) = Inr (bw', w')"
    "at_end (next_fd (w_fds w)) p (records 0 ?ss) w'"
    using events_appended [OF assms(1), of ?bw p "[]" w1 evs] w1(2) assms(5) size
    by (auto simp: basicwriter_new_def)
  have "\<forall>fs \<in> set ?ss. length fs < 2 ^ 32 \<and> (\<forall>f \<in> set fs. short f)"
    using frags short_stored [OF assms(1)] by (auto simp: stored_events_def)
  from read_records [OF this, of 0 "[]"]
  have read: "read_events (length evs) (records 0 ?ss) = Some (numbered 0 ?ss, [])"
    by (simp add: stored_events_def)
  have frame: "restored Z (stored Z (frame_of b)) = frame_of b"
    if "(key, vbuf) \<in> set evs" "b \<in> set vbuf" for key vbuf b
  proof (rule restored_stored [OF assms(1)])
    from frags that have b: "fragment_ok b" "z_bound Z (unat (payloadSize b)) \<le> 0x20000" by auto
    then show "length (f_payload (frame_of b)) \<le> 0x20000"
      and "z_bound Z (length (f_payload (frame_of b))) \<le> 0x20000"
      using fragment_size(2) [OF b(1)] by (simp_all add: fragment_ok_def length_payload)
  qed
  have "map (map (restored Z)) ?ss = map (map frame_of \<circ> snd) evs"
    using frame by (auto simp: stored_events_def)
  with w1(1) r read show ?thesis
    by (auto simp: at_end_def restored_numbered)
qed

text \<open>
  A witness: one event of one fragment, on a system where the data directory exists and the
  three standard descriptors are open.
\<close>

definition demo_world :: world where
  "demo_world = \<lparr>w_nodes = [([''data''], Dir)], w_fds = [(0, \<lparr>d_path = [''tty''], d_pos = 0\<rparr>)],
     w_wmax = 0x100000, w_date = ''SMM_010120_120000''\<rparr>"

theorem writer_file_reads_back_witness:
  "\<exists>bw1 w1 bw' w' c es. bw_start 7 (basicwriter_new ''/data'') demo_world = (bw1, w1) \<and>
     rfold (bw_event_step demo_zlib) [(5, [demo_fragment 3])] (bw1, w1) = Inr (bw', w') \<and>
     node_at w' [''data'', ''SMM_010120_120000_7.dat''] = Some (File c) \<and>
     read_events 1 c = Some (es, []) \<and>
     map (\<lambda>(e, fs). (e, map (restored demo_zlib) fs)) es = [(0, [frame_of (demo_fragment 3)])]"
proof -
  let ?p = "[''data'', ''SMM_010120_120000_7.dat'']"
  have n7: "show_nat 7 = ''7''" by (subst show_nat.simps) (simp add: digit_char_def char_of_def bit_0)
  have p: "?p = resolve (bw_filename 7 (basicwriter_new ''/data'') demo_world)"
    by (simp add: bw_filename_def basicwriter_new_def demo_world_def show32_def n7 resolve_def)
  have none: "node_at demo_world ?p = None" and dir: "node_at demo_world (butlast ?p) = Some Dir"
    by (simp_all add: node_at_def demo_world_def)
  have fd: "0 < next_fd (w_fds demo_world)" by (simp add: next_fd_def demo_world_def)
  have pl: "length (f_payload (stored demo_zlib (frame_of (demo_fragment 3)))) \<le> 0x20000"
    using short_stored [OF demo_zlib_ok] by (simp add: short_def)
  have size: "bytes_of (stored_events demo_zlib [(5, [demo_fragment 3])]) \<le> unat file_limit"
    using pl by (simp add: bytes_of_def stored_events_def file_limit_def)
  have ok: "\<forall>(key, vbuf) \<in> set [(5 :: u32, [demo_fragment 3])]. length vbuf < 2 ^ 32 \<and>
      (\<forall>b \<in> set vbuf. fragment_ok b \<and> z_bound demo_zlib (unat (payloadSize b)) \<le> 0x20000)"
    using demo_fragment_ok [of 3]
    by (simp add: demo_fragment_def demo_zlib_def payloadSize_def setPayloadSize_def)
  have wmax: "0x20014 \<le> w_wmax demo_world" by (simp add: demo_world_def)
  from writer_file_reads_back [OF demo_zlib_ok none dir p fd wmax ok size] show ?thesis by simp
qed

end
