(* ===== verification/Monitor.thy ===== *)
theory Monitor
  imports Shm_Driver
begin

text \<open>
  \<^verbatim>\<open>src/monitorProcessor.cxx\<close>: the processor that copies events into a second shared-memory
  directory, for a monitoring program, as long as that program keeps up. (The member
  \<^verbatim>\<open>_fdOut\<close> of the class is never used.)
\<close>

section \<open>State and operations\<close>

record monitor =
  mp_directory :: string
  mp_run :: u32
  mp_event :: u32
  mp_started :: bool

definition monitor_new :: "string \<Rightarrow> monitor" where
  "monitor_new dire = \<lparr>mp_directory = dire, mp_run = 0, mp_event = 0, mp_started = False\<rparr>"

definition mp_start :: "u32 \<Rightarrow> monitor \<Rightarrow> monitor" where
  "mp_start run m = m\<lparr>mp_run := run, mp_event := 0, mp_started := True\<rparr>"

definition mp_stop :: "monitor \<Rightarrow> monitor" where
  "mp_stop m = m\<lparr>mp_started := False\<rparr>"

definition mp_processRunHeader :: "u32 list \<Rightarrow> monitor \<Rightarrow> monitor" where
  "mp_processRunHeader header m = m"

definition mp_store :: "string \<Rightarrow> buffer \<Rightarrow> world \<Rightarrow> world res" where
  "mp_store dir b w =
     rbind (detectorId b) (\<lambda>d. rbind (dataSourceId b) (\<lambda>s. rbind (eventId b) (\<lambda>e.
     rbind (bxId b) (\<lambda>x. shm_store d s e x (b_mem b) (size_of b) dir w))))"

definition mp_processEvent ::
  "u32 \<Rightarrow> buffer list \<Rightarrow> monitor \<Rightarrow> world \<Rightarrow> (monitor \<times> buffer list \<times> world) res" where
  "mp_processEvent key vbuf m w =
     (if \<not> mp_started m then Inr (m, vbuf, w)
      else
        (let theNumberOfDIF = word_of_nat (length vbuf) :: u32;
             vnames = shm_ls (mp_directory m) w in
         if unat (20 * theNumberOfDIF) < length vnames then Inr (m, vbuf, w)
         else
           rbind (rfold (mp_store (mp_directory m)) vbuf w) (\<lambda>w'.
           Inr (m\<lparr>mp_event := mp_event m + 1\<rparr>, vbuf, w'))))"

section \<open>Storing fragments\<close>

lemma mp_store_fragment:
  assumes "fragment_ok b"
  shows "mp_store dir b w =
     shm_store (f_det (frame_of b)) (f_src (frame_of b)) (f_evt (frame_of b)) (f_bx (frame_of b))
       (b_mem b) (size_of b) dir w"
  using holds_getters [OF holds_frame_of, of b] assms by (simp add: mp_store_def fragment_ok_def)

lemma fragment_block:
  assumes "fragment_ok b"
  shows "unat (size_of b) = 20 + length (f_payload (frame_of b))"
    and "take (unat (size_of b)) (b_mem b) = frame_bytes (frame_of b)"
    and "unat (size_of b) \<le> length (b_mem b)" and "length (f_payload (frame_of b)) \<le> 0x20000"
proof -
  have ok: "buf_ok b" "length (b_mem b) = 0x80000" "unat (b_psize b) \<le> 0x20000"
    using assms by (simp_all add: fragment_ok_def)
  note h = holds_frame_of [OF ok(1)]
  show sz: "unat (size_of b) = 20 + length (f_payload (frame_of b))"
    using holds_psize(2) [OF h] by simp
  show "take (unat (size_of b)) (b_mem b) = frame_bytes (frame_of b)"
    using h by (simp add: sz holds_def add.commute)
  show "unat (size_of b) \<le> length (b_mem b)" "length (f_payload (frame_of b)) \<le> 0x20000"
    using ok length_payload [OF ok(1)] by (simp_all add: sz payloadSize_def)
qed

lemma mp_store_view:
  assumes "plain_spool dir w" and "fragment_ok b"
  shows "\<exists>w'. mp_store dir b w = Inr w' \<and> plain_spool dir w' \<and>
     spool_view dir w' = (spool_view dir w)(frame_name (frame_of b) \<mapsto> stored_bytes dir w (frame_of b))"
  using store_frame_view [OF assms(1) _ fragment_block(1,3,2) [OF assms(2)]] fragment_block(4) [OF assms(2)]
  unfolding mp_store_fragment [OF assms(2)] short_def by blast

text \<open>The stores of one event, with nothing in the way of the first write.\<close>

lemma mp_stores_view:
  assumes "plain_spool dir w" and "\<forall>b \<in> set vbuf. fragment_ok b"
  shows "\<exists>w'. rfold (mp_store dir) vbuf w = Inr w' \<and> plain_spool dir w' \<and>
     dom (spool_view dir w') = dom (spool_view dir w) \<union> frame_name ` frame_of ` set vbuf \<and>
     (\<forall>n. n \<notin> frame_name ` frame_of ` set vbuf \<longrightarrow> spool_view dir w' n = spool_view dir w n) \<and>
     (\<forall>b \<in> set vbuf. \<exists>b' \<in> set vbuf. \<exists>r. frame_name (frame_of b') = frame_name (frame_of b) \<and>
        spool_view dir w' (frame_name (frame_of b)) = Some (frame_bytes (frame_of b') @ r))"
  using assms
proof (induction vbuf arbitrary: w)
  case Nil
  then show ?case by simp
next
  case (Cons b vbuf)
  let ?n = "frame_name (frame_of b)"
  from mp_store_view [OF Cons.prems(1), of b] Cons.prems(2) obtain w1 where
    s1: "mp_store dir b w = Inr w1" "plain_spool dir w1"
      "spool_view dir w1 = (spool_view dir w)(?n \<mapsto> stored_bytes dir w (frame_of b))" by auto
  from Cons.IH [OF s1(2)] Cons.prems(2) obtain w2 where
    s2: "rfold (mp_store dir) vbuf w1 = Inr w2" "plain_spool dir w2"
      "dom (spool_view dir w2) = dom (spool_view dir w1) \<union> frame_name ` frame_of ` set vbuf"
      "\<And>n. n \<notin> frame_name ` frame_of ` set vbuf \<Longrightarrow> spool_view dir w2 n = spool_view dir w1 n"
      "\<And>b. b \<in> set vbuf \<Longrightarrow> \<exists>b' \<in> set vbuf. \<exists>r. frame_name (frame_of b') = frame_name (frame_of b) \<and>
        spool_view dir w2 (frame_name (frame_of b)) = Some (frame_bytes (frame_of b') @ r)" by auto
  have "\<exists>b' \<in> set (b # vbuf). \<exists>r. frame_name (frame_of b') = ?n \<and>
      spool_view dir w2 ?n = Some (frame_bytes (frame_of b') @ r)"
  proof (cases "?n \<in> frame_name ` frame_of ` set vbuf")
    case True
    then obtain c where "c \<in> set vbuf" "frame_name (frame_of c) = ?n" by auto
    with s2(5) [of c] show ?thesis by auto
  next
    case False
    with s2(4) s1(3) show ?thesis by (auto simp: stored_bytes_def)
  qed
  with s1 s2 show ?case by auto
qed

text \<open>
  C16: the backlog of the monitoring directory is bounded: a processed event stores all its
  fragments, each as its bytes followed at most by what an older file of the same name had
  behind them, and however slow the reader is there are never more than 21 times as many
  files as an event has fragments (unless there were before).
\<close>

theorem monitor_backlog:
  assumes "mp_started m" and "plain_spool (mp_directory m) w" and "\<forall>b \<in> set vbuf. fragment_ok b"
    and "20 * length vbuf < 2 ^ 32"
  shows "\<exists>m' w'. mp_processEvent key vbuf m w = Inr (m', vbuf, w') \<and> plain_spool (mp_directory m) w' \<and>
     length (shm_ls (mp_directory m) w') \<le>
       max (length (shm_ls (mp_directory m) w)) (21 * length vbuf) \<and>
     (if 20 * length vbuf < length (shm_ls (mp_directory m) w) then m' = m \<and> w' = w
      else m' = m\<lparr>mp_event := mp_event m + 1\<rparr> \<and>
        (\<forall>b \<in> set vbuf. \<exists>b' \<in> set vbuf. \<exists>r. frame_name (frame_of b') = frame_name (frame_of b) \<and>
           spool_view (mp_directory m) w' (frame_name (frame_of b)) = Some (frame_bytes (frame_of b') @ r)))"
proof -
  let ?d = "mp_directory m"
  have u: "unat (20 * word_of_nat (length vbuf) :: u32) = 20 * length vbuf"
    using unat_of_nat_u32 [OF assms(4)] by simp
  have count: "length (shm_ls ?d v) = card (dom (spool_view ?d v))" if "spool_ok ?d v" for v
    using shm_ls_sorted [OF that] distinct_card by metis
  show ?thesis
  proof (cases "20 * length vbuf < length (shm_ls ?d w)")
    case True
    with assms(1,2) u show ?thesis by (simp add: mp_processEvent_def Let_def)
  next
    case False
    from mp_stores_view [OF assms(2,3)] obtain w' where w': "rfold (mp_store ?d) vbuf w = Inr w'"
      "plain_spool ?d w'"
      "dom (spool_view ?d w') = dom (spool_view ?d w) \<union> frame_name ` frame_of ` set vbuf"
      "\<forall>b \<in> set vbuf. \<exists>b' \<in> set vbuf. \<exists>r. frame_name (frame_of b') = frame_name (frame_of b) \<and>
        spool_view ?d w' (frame_name (frame_of b)) = Some (frame_bytes (frame_of b') @ r)" by blast
    have "card (frame_name ` frame_of ` set vbuf) \<le> length vbuf"
      using card_image_le [of "frame_of ` set vbuf" frame_name] card_image_le [of "set vbuf" frame_of]
        card_length [of vbuf] by simp
    then have "card (dom (spool_view ?d w')) \<le> card (dom (spool_view ?d w)) + length vbuf"
      using card_Un_le [of "dom (spool_view ?d w)" "frame_name ` frame_of ` set vbuf"]
      by (simp add: w'(3))
    then have "length (shm_ls ?d w') \<le> 21 * length vbuf"
      using False count [of w] count [of w'] assms(2) w'(2) by (simp add: plain_spool_def)
    with False assms(1) u w' show ?thesis by (auto simp: mp_processEvent_def Let_def)
  qed
qed

theorem monitor_backlog_witness:
  "\<exists>m' w'. mp_processEvent 5 [demo_fragment 3] (mp_start 7 (monitor_new ''/spool'')) (demo_spool []) =
      Inr (m', [demo_fragment 3], w') \<and> length (shm_ls ''/spool'' w') \<le> 21"
proof -
  have sp: "spool_ok ''/spool'' (demo_spool [])" by (rule demo_spool_ok) (simp add: demo_names_def)
  have ls: "shm_ls ''/spool'' (demo_spool []) = []"
    using shm_ls_sorted(1) [OF sp] demo_spool_ok(2) [of "[]"] by (simp add: demo_names_def)
  have nm: "frame_name f \<noteq> ''closed''" for f by (simp add: frame_name_def event_name_not_closed)
  have spool: "plain_spool (mp_directory (mp_start 7 (monitor_new ''/spool''))) (demo_spool [])"
    using sp by (simp add: plain_spool_def mp_start_def monitor_new_def demo_node_at nm)
      (simp add: demo_spool_def)
  have st: "mp_started (mp_start 7 (monitor_new ''/spool''))" by (simp add: mp_start_def)
  have frag: "\<forall>b \<in> set [demo_fragment 3]. fragment_ok b" by (simp add: demo_fragment_ok)
  have len: "20 * length [demo_fragment 3] < 2 ^ 32" by simp
  from monitor_backlog [OF st spool frag len, of 5] ls show ?thesis
    by (auto simp: mp_start_def monitor_new_def)
qed

end
