(* ===== verification/Processors.thy ===== *)
theory Processors
  imports Event_Builder Event_File Monitor
begin

text \<open>
  The processors of the repository behind the interface \<^verbatim>\<open>shmprocessor\<close>: the virtual calls
  choose the class by the object. The interpretation shows that both classes keep the
  contract of the event builder, so its lemmas hold for a driver with any number of them.
\<close>

datatype processor = Basic_Writer basicwriter | Monitor_Proc monitor

definition processor_ops :: "zlib \<Rightarrow> (nat \<Rightarrow> byte) \<Rightarrow> processor shmprocessor" where
  "processor_ops Z junk =
     \<lparr>pr_start = (\<lambda>run p w. case p of
          Basic_Writer bw \<Rightarrow> (let (bw', w') = bw_start run bw w in Inr (Basic_Writer bw', w'))
        | Monitor_Proc m \<Rightarrow> Inr (Monitor_Proc (mp_start run m), w)),
      pr_stop = (\<lambda>p w. case p of
          Basic_Writer bw \<Rightarrow> (let (bw', w') = bw_stop bw w in Inr (Basic_Writer bw', w'))
        | Monitor_Proc m \<Rightarrow> Inr (Monitor_Proc (mp_stop m), w)),
      pr_event = (\<lambda>key vbuf p w. case p of
          Basic_Writer bw \<Rightarrow> rbind (bw_processEvent Z key vbuf bw w) (\<lambda>(bw', vbuf', w').
            Inr (Basic_Writer bw', vbuf', w'))
        | Monitor_Proc m \<Rightarrow> rbind (mp_processEvent key vbuf m w) (\<lambda>(m', vbuf', w').
            Inr (Monitor_Proc m', vbuf', w'))),
      pr_header = (\<lambda>header p w. case p of
          Basic_Writer bw \<Rightarrow> rbind (bw_processRunHeader Z junk header bw w) (\<lambda>(bw', w').
            Inr (Basic_Writer bw', w'))
        | Monitor_Proc m \<Rightarrow> Inr (Monitor_Proc (mp_processRunHeader header m), w))\<rparr>"

text \<open>
  The two functions that \<^verbatim>\<open>libbasicwriter.so\<close> exports: a new writer with the default directory, and
  the deletion of an object, which leaves every pointer to it dangling.
\<close>

definition loadProcessor :: processor where
  "loadProcessor = Basic_Writer (basicwriter_new ''/tmp'')"

definition deleteProcessor :: "nat \<Rightarrow> processor env \<Rightarrow> processor env res" where
  "deleteProcessor obj env =
     rbind (deref obj (e_objs env)) (\<lambda>_. Inr (env\<lparr>e_objs := (e_objs env)[obj := None]\<rparr>))"

lemma loaded_writer:
  assumes "load ''libbasicwriter.so'' = Some loadProcessor"
  shows "\<exists>D' env'. registerProcessor_lib load ''basicwriter'' D env = Inr (D', env') \<and>
     d_processors D' = d_processors D @ [length (e_objs env)] \<and>
     deref (length (e_objs env)) (e_objs env') = Inr (Basic_Writer (basicwriter_new ''/tmp''))"
  using assms by (simp add: registerProcessor_lib_def loadProcessor_def deref_def)

text \<open>A writer that is deleted while it is registered is called through a dangling pointer.\<close>

lemma deleted_processor_called:
  assumes "deleteProcessor obj env = Inr env'" and "d_processors D = obj # ps"
  shows "shm_start P run D env' = Inl Bad_Pointer"
proof -
  have "obj < length (e_objs env)" using assms(1) by (auto simp: deleteProcessor_def deref_def split: if_splits)
  then have "deref obj (e_objs env') = Inl Bad_Pointer"
    using assms(1) by (auto simp: deleteProcessor_def deref_def)
  then show ?thesis by (simp add: shm_start_def assms(2) call_proc_def)
qed

section \<open>What the processors need of their configuration\<close>

text \<open>
  A writer's directory is not the spool directory nor its \<^verbatim>\<open>closed\<close> directory; a monitor's
  directory has its files outside the spool, and a path that fits the 512-byte name.
\<close>

fun configured :: "string \<Rightarrow> processor \<Rightarrow> bool" where
  "configured memdir (Basic_Writer bw) \<longleftrightarrow> resolve (bw_directory bw) \<noteq> resolve memdir \<and>
     resolve (bw_directory bw) \<noteq> resolve memdir @ [''closed'']"
| "configured memdir (Monitor_Proc m) \<longleftrightarrow> length (mp_directory m) \<le> 440 \<and>
     resolve (mp_directory m) \<noteq> resolve memdir \<and>
     resolve (mp_directory m) \<noteq> resolve memdir @ [''closed''] \<and>
     resolve (mp_directory m) @ [''closed''] \<noteq> resolve memdir"

lemma writer_path_outside:
  assumes "configured memdir (Basic_Writer bw)" and "CHR ''/'' \<notin> set (w_date w)"
  shows "outside memdir (resolve (bw_filename run bw w))"
proof -
  let ?n = "w_date w @ ''_'' @ show32 run @ ''.dat''"
  have "CHR ''/'' \<notin> set (show32 run)"
    using show_nat_digits [of "unat run"] is_digit_not_special unfolding show32_def by blast
  then have n: "is_name ?n" using assms(2) by (simp add: is_name_def)
  have "resolve (bw_filename run bw w) = resolve (bw_directory bw) @ [?n]"
    using resolve_append [of "bw_directory bw" ?n] resolve_name [OF n] by (simp add: bw_filename_def)
  with assms(1) show ?thesis
    by (auto simp: outside_def data_path_def mark_path_def)
qed

lemma monitor_paths_outside:
  assumes "configured memdir (Monitor_Proc m)"
  shows "outside memdir (data_path (mp_directory m) n)" and "outside memdir (mark_path (mp_directory m) n)"
proof -
  have two: "xs @ [a, b] = (xs @ [a]) @ [b]" for xs :: "string list" and a b by simp
  show "outside memdir (data_path (mp_directory m) n)" "outside memdir (mark_path (mp_directory m) n)"
    using assms unfolding outside_def data_path_def mark_path_def two by auto
qed

section \<open>The writer keeps the contract\<close>

lemma quiet_put:
  assumes "quiet dir w0 w"
  shows "quiet dir w0 (put_bytes fd bs w)"
proof -
  have "world_ok dir w" using assms by (simp add: quiet_def)
  from quiet_trans [OF assms quiet_write [OF this]] show ?thesis by (simp add: put_bytes_def)
qed

lemma quiet_start:
  assumes "quiet dir w0 w" and "configured dir (Basic_Writer bw)"
  shows "quiet dir w0 (snd (bw_start run bw w))"
proof -
  have w: "world_ok dir w" using assms(1) by (simp add: quiet_def)
  then have "outside dir (resolve (bw_filename run bw w))"
    by (intro writer_path_outside [OF assms(2)]) (simp add: world_ok_def)
  from quiet_trans [OF assms(1) quiet_open_creat [OF w this]] show ?thesis by simp
qed

lemma quiet_rotate:
  assumes "quiet dir w0 w" and "configured dir (Basic_Writer bw)"
  shows "quiet dir w0 (snd (bw_rotate bw w)) \<and> bw_directory (fst (bw_rotate bw w)) = bw_directory bw"
proof -
  have "quiet dir w0 (sys_close (bw_fdOut bw) w)"
    using assms(1) quiet_trans [OF assms(1) quiet_close] by (simp add: quiet_def)
  from quiet_start [OF this, of "bw\<lparr>bw_totalSize := 0\<rparr>" "bw_run bw"] assms show ?thesis
    by (simp add: bw_rotate_def del: bw_start_fields(4))
qed

lemma write_next_quiet:
  assumes "zlib_ok Z" and "fragment_ok b" and "quiet dir w0 w" and "\<forall>b \<in> set bs. fragment_ok b"
  shows "\<exists>b' bw' w'. bw_write_next Z b (bs, bw, w) = Inr (bs @ [b'], bw', w') \<and> fragment_ok b' \<and>
     quiet dir w0 w' \<and> bw_directory bw' = bw_directory bw"
  using bw_write_buffer_ok [OF assms(1,2), of bw w] quiet_put [OF quiet_put [OF assms(3)]]
  by (auto simp: write_next_simp)

lemma writer_event_quiet:
  assumes "zlib_ok Z" and "world_ok dir w" and "configured dir (Basic_Writer bw)"
    and "\<forall>b \<in> set vbuf. fragment_ok b"
  shows "\<exists>bw' vbuf' w'. bw_processEvent Z key vbuf bw w = Inr (bw', vbuf', w') \<and> quiet dir w w' \<and>
     bw_directory bw' = bw_directory bw \<and> (\<forall>b \<in> set vbuf'. fragment_ok b)"
proof -
  let ?w2 = "put_bytes (bw_fdOut bw) (enc32 (word_of_nat (length vbuf)))
      (put_bytes (bw_fdOut bw) (enc32 (bw_event bw)) w)"
  note q0 = quiet_refl [OF assms(2)]
  let ?Q = "\<lambda>(bs, b :: basicwriter, w'). (\<forall>x \<in> set bs. fragment_ok x) \<and> bw_directory b = bw_directory bw \<and> quiet dir w w'"
  have "\<exists>t. rfold (bw_write_next Z) vbuf ([], bw, ?w2) = Inr t \<and> ?Q t"
  proof (rule rfold_total)
    show "?Q ([], bw, ?w2)" by (simp add: quiet_put [OF quiet_put [OF q0]])
    fix b st
    assume b: "b \<in> set vbuf" and st: "?Q st"
    obtain bs bw1 w1 where e: "st = (bs, bw1, w1)" by (cases st)
    from b assms(4) have "fragment_ok b" by simp
    from write_next_quiet [OF assms(1) this, of dir w w1 bs bw1] st
    show "\<exists>t. bw_write_next Z b st = Inr t \<and> ?Q t" by (auto simp: e)
  qed
  then obtain bs bw1 w3 where r: "rfold (bw_write_next Z) vbuf ([], bw, ?w2) = Inr (bs, bw1, w3)"
    "\<forall>b \<in> set bs. fragment_ok b" "bw_directory bw1 = bw_directory bw" "quiet dir w w3" by auto
  have c: "configured dir (Basic_Writer (bw1\<lparr>bw_event := bw_event bw1 + 1\<rparr>))"
    using assms(3) r(3) by simp
  from quiet_rotate [OF r(4) c] quiet_rotate [OF q0 assms(3)] r q0 assms(4) show ?thesis
    by (auto simp: bw_processEvent_def Let_def case_prod_beta)
qed

section \<open>The monitor keeps the contract\<close>

lemma monitor_event_quiet:
  assumes "world_ok dir w" and "configured dir (Monitor_Proc m)" and "\<forall>b \<in> set vbuf. fragment_ok b"
  shows "\<exists>m' w'. mp_processEvent key vbuf m w = Inr (m', vbuf, w') \<and> quiet dir w w' \<and>
     mp_directory m' = mp_directory m"
proof -
  note q0 = quiet_refl [OF assms(1)]
  have "\<exists>t. rfold (mp_store (mp_directory m)) vbuf w = Inr t \<and> quiet dir w t"
  proof (rule rfold_total)
    show "quiet dir w w" by (rule q0)
    fix b w1
    assume b: "b \<in> set vbuf" and q: "quiet dir w w1"
    from b assms(3) have f: "fragment_ok b" by simp
    have w1: "world_ok dir w1" using q by (simp add: quiet_def)
    have "length (mp_directory m) \<le> 440" using assms(2) by simp
    from quiet_store [OF w1 fragment_block(3) [OF f] this monitor_paths_outside [OF assms(2)]]
    show "\<exists>t. mp_store (mp_directory m) b w1 = Inr t \<and> quiet dir w t"
      unfolding mp_store_fragment [OF f] by (blast intro: quiet_trans [OF q])
  qed
  with q0 show ?thesis by (auto simp: mp_processEvent_def Let_def)
qed

section \<open>The interpretation\<close>

definition sink_inv ::
  "zlib \<Rightarrow> string \<Rightarrow> nat set \<Rightarrow> processor option list \<Rightarrow> world \<Rightarrow> bool" where
  "sink_inv Z memdir ptrs objs w \<longleftrightarrow> zlib_ok Z \<and>
     (\<forall>d \<in> snd ` set (w_fds w). outside memdir (d_path d)) \<and> CHR ''/'' \<notin> set (w_date w) \<and>
     (\<forall>ptr \<in> ptrs. ptr < length objs \<and> (\<exists>p. objs ! ptr = Some p \<and> configured memdir p))"

interpretation sink: event_sink "processor_ops Z junk" memdir ptrs "sink_inv Z memdir ptrs"
  for Z junk memdir ptrs
proof
  fix objs w w'
  assume "sink_inv Z memdir ptrs objs w" and "spool_frame memdir w w'"
  then show "sink_inv Z memdir ptrs objs w'" by (simp add: sink_inv_def spool_frame_def)
next
  fix objs w ptr bufs key
  assume inv: "sink_inv Z memdir ptrs objs w" and sp: "spool_ok memdir w" and ptr: "ptr \<in> ptrs"
    and bufs: "\<forall>b \<in> set bufs. fragment_ok b"
  have w: "world_ok memdir w" and Z: "zlib_ok Z" using inv sp by (simp_all add: sink_inv_def world_ok_def)
  from inv ptr obtain p where p: "ptr < length objs" "objs ! ptr = Some p" "configured memdir p"
    by (auto simp: sink_inv_def)
  then have d: "deref ptr objs = Inr p" by (simp add: deref_def)
  have "\<exists>p' bufs' w'. pr_event (processor_ops Z junk) key bufs p w = Inr (p', bufs', w') \<and>
      quiet memdir w w' \<and> configured memdir p' \<and> (\<forall>b \<in> set bufs'. fragment_ok b)"
  proof (cases p)
    case (Basic_Writer bw)
    from writer_event_quiet [OF Z w _ bufs, of bw key] p(3) Basic_Writer
    show ?thesis by (auto simp: processor_ops_def)
  next
    case (Monitor_Proc m)
    from monitor_event_quiet [OF w _ bufs, of m key] p(3) Monitor_Proc bufs
    show ?thesis by (auto simp: processor_ops_def)
  qed
  then obtain p' bufs' w' where r: "pr_event (processor_ops Z junk) key bufs p w = Inr (p', bufs', w')"
    "quiet memdir w w'" "configured memdir p'" "\<forall>b \<in> set bufs'. fragment_ok b" by blast
  have "sink_inv Z memdir ptrs (objs[ptr := Some p']) w'"
    using inv r(2,3) p(1) by (simp add: sink_inv_def quiet_def world_ok_def nth_list_update)
  with d r show "\<exists>p p' bufs' w'. deref ptr objs = Inr p \<and>
      pr_event (processor_ops Z junk) key bufs p w = Inr (p', bufs', w') \<and>
      sink_inv Z memdir ptrs (objs[ptr := Some p']) w' \<and> spool_ok memdir w' \<and>
      spool_kept memdir w w' \<and> spool_view memdir w' = spool_view memdir w \<and> (\<forall>b \<in> set bufs'. fragment_ok b)"
    by (auto simp: quiet_def world_ok_def)
qed

end
