(* ===== verification/Driver_Control.thy ===== *)
theory Driver_Control
  imports Processors
begin

text \<open>
  The control operations of the driver: registration, starting and stopping a run, the clean-up
  of late events, and the corner cases of a scan.
\<close>

section \<open>Registration\<close>

text \<open>
  C24: unregistering a data source does nothing. \<^verbatim>\<open>unregisterDataSource\<close> looks for the bare
  source number among the keys, and no key of a detector with a non-zero number is a source
  number of twelve bits; so a source that was registered stays counted, and no later event is
  complete without it.
\<close>

theorem unregister_has_no_effect:
  assumes "\<forall>k \<in> set (d_datasources D). key_detector_id k \<noteq> 0" and "det AND 0xFFF \<noteq> 0" and "ds AND 0xFFF = ds"
  shows "unregisterDataSource det ds (registerDataSource det ds D) = registerDataSource det ds D \<and>
     dskey det ds \<in> set (d_datasources (unregisterDataSource det ds (registerDataSource det ds D)))"
proof -
  have "key_detector_id ds = 0"
  proof -
    have "key_detector_id (ds AND 0xFFF) = 0"
      unfolding key_detector_id_def mask12 by (rule bit_word_eqI) (auto simp: bit_simps)
    then show ?thesis unfolding assms(3) .
  qed
  moreover have "key_detector_id (dskey det ds) \<noteq> 0" using assms(2) dskey_detector by simp
  ultimately have "ds \<notin> set (d_datasources D @ [dskey det ds])" using assms(1) by auto
  then have "remove1 ds (d_datasources D @ [dskey det ds]) = d_datasources D @ [dskey det ds]"
    by (rule remove1_idem)
  then show ?thesis by (simp add: unregisterDataSource_def registerDataSource_def)
qed

theorem unregister_has_no_effect_witness:
  "numberOfDataSource (unregisterDataSource 100 7 (registerDataSource 100 7 (shmdriver_new ''/spool'' True))) = 1"
proof -
  have "\<forall>k \<in> set (d_datasources (shmdriver_new ''/spool'' True)). key_detector_id k \<noteq> 0"
    by (simp add: shmdriver_new_def)
  moreover have "(100 :: u32) AND 0xFFF \<noteq> 0" "(7 :: u32) AND 0xFFF = 7" by simp_all
  ultimately have "unregisterDataSource 100 7 (registerDataSource 100 7 (shmdriver_new ''/spool'' True)) =
      registerDataSource 100 7 (shmdriver_new ''/spool'' True)"
    using unregister_has_no_effect by blast
  then show ?thesis by (simp add: numberOfDataSource_def registerDataSource_def shmdriver_new_def)
qed

section \<open>Corner cases of a scan\<close>



section \<open>The clean-up\<close>

text \<open>
  C15: \<^verbatim>\<open>cleanBufferMap\<close> erases exactly the entries that are incomplete and whose first fragment
  is more than \<open>delay\<close> older than the reference time; an entry whose first fragment is not older
  than the reference survives whatever the delay.
\<close>

theorem cleanBufferMap_spec:
  assumes "map_ok (d_eventMap D)" and "\<forall>(k, v) \<in> set (d_eventMap D). v \<noteq> [] \<and> (\<forall>b \<in> set v. fragment_ok b)"
  shows "\<exists>m. cleanBufferMap t delay D = Inr (D\<lparr>d_eventMap := m\<rparr>) \<and> map_ok m \<and>
     (\<forall>k. map_of m k = (case map_of (d_eventMap D) k of
        None \<Rightarrow> None
      | Some v \<Rightarrow> if length v \<noteq> unat (numberOfDataSource D) \<and>
                     later_than t (seconds (f_bx (frame_of (hd v)))) delay then None else Some v)) \<and>
     (\<forall>k v. map_of (d_eventMap D) k = Some v \<and> t \<le> seconds (f_bx (frame_of (hd v))) \<longrightarrow> map_of m k = Some v)"
proof -
  let ?m = "d_eventMap D"
  have mem: "(k, v) \<in> set ?m \<longleftrightarrow> map_of ?m k = Some v" for k v
    using map_of_eq_Some_iff [OF map_ok_distinct [OF assms(1)]] by auto
  from late_keys_set [OF assms(2), of D t delay] obtain ks where
    ks: "late_keys D t delay ?m = Inr ks"
    "set ks = {k. \<exists>v. (k, v) \<in> set ?m \<and> \<not> is_complete D v \<and>
                 later_than t (seconds (f_bx (frame_of (hd v)))) delay}" by blast
  have "map_of (fold map_erase ks ?m) k = (case map_of ?m k of None \<Rightarrow> None
      | Some v \<Rightarrow> if length v \<noteq> unat (numberOfDataSource D) \<and>
                     later_than t (seconds (f_bx (frame_of (hd v)))) delay then None else Some v)" for k
    by (auto simp: find_erase_all ks(2) mem is_complete_def split: option.split)
  with ks(1) map_ok_erase_all [OF assms(1)] show ?thesis
    by (auto simp: cleanBufferMap_def not_later_than)
qed

lemma demo_late: "later_than (whole_seconds 20) (seconds 0) (whole_seconds 10)"
proof -
  have l: "bit_length (20 * 2 ^ 75) = 80"
    by (simp add: bit_length.simps)
  have "round53 (whole_seconds 20) = whole_seconds 20"
    by (simp add: round53_def whole_seconds_def l [simplified] round_to_def)
  moreover have "seconds 0 = 0" by (simp add: seconds_0_iff)
  ultimately show ?thesis by (simp add: later_than_def minus_rounded_def) (simp add: whole_seconds_def)
qed

lemma zeroed_bx:
  assumes "20 \<le> unat n"
  shows "f_bx (frame_of (buffer_new n (\<lambda>_. 0))) = 0"
proof -
  have "b_mem (buffer_new n (\<lambda>_. 0)) = replicate (unat n) 0"
    by (simp only: buffer_new_def buffer.simps map_replicate_const) simp
  then have "chunk 12 8 (b_mem (buffer_new n (\<lambda>_. 0))) = replicate 8 0"
    using assms by (simp only: chunk_def drop_replicate take_replicate) (simp add: min_def)
  moreover have "dec64 (replicate 8 0) = 0" by (simp add: dec64_def numeral_eq_Suc)
  ultimately show ?thesis by (simp add: frame_of_def)
qed

theorem cleanBufferMap_spec_witness:
  "\<exists>m. cleanBufferMap (whole_seconds 20) (whole_seconds 10)
      ((registerDataSource 1 1 (registerDataSource 1 2 (shmdriver_new ''/spool'' True)))
         \<lparr>d_eventMap := [(5, [buffer_new 0x80000 (\<lambda>_. 0)])]\<rparr>) =
    Inr ((registerDataSource 1 1 (registerDataSource 1 2 (shmdriver_new ''/spool'' True)))\<lparr>d_eventMap := m\<rparr>) \<and>
    map_of m 5 = None"
proof -
  let ?D = "(registerDataSource 1 1 (registerDataSource 1 2 (shmdriver_new ''/spool'' True)))
         \<lparr>d_eventMap := [(5, [buffer_new 0x80000 (\<lambda>_. 0)])]\<rparr>"
  have "map_ok (d_eventMap ?D)" by (simp add: map_ok_def)
  moreover have "\<forall>(k, v) \<in> set (d_eventMap ?D). v \<noteq> [] \<and> (\<forall>b \<in> set v. fragment_ok b)"
    by (simp add: fragment_ok_def buf_ok_def)
  moreover have "f_bx (frame_of (buffer_new 0x80000 (\<lambda>_. 0))) = 0" by (rule zeroed_bx) simp
  moreover have "unat (numberOfDataSource ?D) = 2"
    by (simp add: numberOfDataSource_def registerDataSource_def shmdriver_new_def)
  ultimately show ?thesis
    using cleanBufferMap_spec [of ?D "whole_seconds 20" "whole_seconds 10"] demo_late by auto
qed

end
