(* ===== verification/Data_Source.thy ===== *)
theory Data_Source
  imports Buffer Stdio
begin

text \<open>
  \<^verbatim>\<open>src/datasource.cxx\<close>: a buffer and the DIM service that publishes it. The DIM server is
  outside the repository; what the code hands to it is kept as the list of byte blocks sent,
  oldest first, under the service's name.
\<close>

section \<open>State and operations\<close>

record dim_service =
  sv_name :: string
  sv_sent :: "byte list list"

record datasource =
  ds_buffer :: buffer
  ds_detid :: u32
  ds_sourceid :: u32
  ds_service :: dim_service

definition ds_service_name :: "u32 \<Rightarrow> u32 \<Rightarrow> string" where
  "ds_service_name det src = ''/LEVBDIM/DS-'' @ show32 det @ ''-'' @ show32 src @ ''/DATA''"

definition datasource_new :: "u32 \<Rightarrow> u32 \<Rightarrow> u32 \<Rightarrow> (nat \<Rightarrow> byte) \<Rightarrow> datasource res" where
  "datasource_new detid sourceid max_size junk =
     rbind (setDataSourceId sourceid (buffer_new max_size junk)) (\<lambda>b.
     rbind (setDetectorId detid b) (\<lambda>b'.
     Inr \<lparr>ds_buffer = b', ds_detid = detid, ds_sourceid = sourceid,
          ds_service = \<lparr>sv_name = ds_service_name detid sourceid, sv_sent = []\<rparr>\<rparr>))"

text \<open>What the user does with the pointer \<^verbatim>\<open>payload()\<close>: a store of some bytes there.\<close>

definition payload_store :: "byte list \<Rightarrow> datasource \<Rightarrow> datasource res" where
  "payload_store bs d = rbind (store_field 20 bs (ds_buffer d)) (\<lambda>b. Inr (d\<lparr>ds_buffer := b\<rparr>))"

definition publish :: "u32 \<Rightarrow> u64 \<Rightarrow> u32 \<Rightarrow> datasource \<Rightarrow> datasource res" where
  "publish evt bx payload_size d =
     rbind (setBxId bx (ds_buffer d)) (\<lambda>b1.
     rbind (setEventId evt b1) (\<lambda>b2.
     (let b3 = setPayloadSize payload_size b2 in
      rbind (read_ptr (unat (size_of b3)) b3) (\<lambda>bytes.
      Inr (d\<lparr>ds_buffer := b3,
             ds_service := (ds_service d)\<lparr>sv_sent := sv_sent (ds_service d) @ [bytes]\<rparr>\<rparr>)))))"

section \<open>Correctness\<close>

text \<open>
  The invariant of a data source: the identifiers stay in the block, and the block keeps the
  size it was allocated with.
\<close>

definition ds_ok :: "u32 \<Rightarrow> datasource \<Rightarrow> bool" where
  "ds_ok max_size d \<longleftrightarrow>
     length (b_mem (ds_buffer d)) = unat max_size \<and> 20 \<le> unat max_size \<and>
     chunk 0 4 (b_mem (ds_buffer d)) = enc32 (ds_detid d) \<and>
     chunk 4 4 (b_mem (ds_buffer d)) = enc32 (ds_sourceid d) \<and>
     sv_name (ds_service d) = ds_service_name (ds_detid d) (ds_sourceid d)"

lemma ds_ok_new:
  assumes "20 \<le> unat max_size"
  shows "\<exists>d. datasource_new detid sourceid max_size junk = Inr d \<and> ds_ok max_size d \<and>
           ds_detid d = detid \<and> ds_sourceid d = sourceid \<and> sv_sent (ds_service d) = []"
  using assms by (simp add: datasource_new_def setter_defs ds_ok_def mem_simps)

lemma payload_store_Inr:
  "payload_store bs d = Inr d' \<longleftrightarrow> 20 + length bs \<le> length (b_mem (ds_buffer d)) \<and>
     d' = d\<lparr>ds_buffer := (ds_buffer d)\<lparr>b_mem := overwrite 20 bs (b_mem (ds_buffer d))\<rparr>\<rparr>"
  by (auto simp: payload_store_def rbind_Inr_iff store_field_Inr)

lemma ds_ok_payload_store:
  assumes "ds_ok max_size d" and "payload_store bs d = Inr d'"
  shows "ds_ok max_size d' \<and> chunk 20 (length bs) (b_mem (ds_buffer d')) = bs \<and>
         ds_service d' = ds_service d \<and> ds_detid d' = ds_detid d \<and> ds_sourceid d' = ds_sourceid d"
  using assms by (auto simp: payload_store_Inr ds_ok_def mem_simps)

lemma size_of_small: "unat n + 20 < 2 ^ 32 \<Longrightarrow> unat (size_of (setPayloadSize n b)) = unat n + 20"
proof -
  assume *: "unat n + 20 < 2 ^ 32"
  have "size_of (setPayloadSize n b) = word_of_nat (unat n + 20)"
    by (simp add: size_of_def setPayloadSize_def)
  with * show ?thesis by (simp only: unat_of_nat_u32)
qed

lemma publish_block:
  assumes "ds_ok max_size d" and "unat n + 20 \<le> unat max_size"
  shows "\<exists>d'. publish evt bx n d = Inr d' \<and> ds_ok max_size d' \<and>
     ds_detid d' = ds_detid d \<and> ds_sourceid d' = ds_sourceid d \<and>
     sv_sent (ds_service d') = sv_sent (ds_service d) @ [frame_bytes \<lparr>f_det = ds_detid d,
        f_src = ds_sourceid d, f_evt = evt, f_bx = bx,
        f_payload = chunk 20 (unat n) (b_mem (ds_buffer d))\<rparr>]"
proof -
  let ?m = "b_mem (ds_buffer d)"
  let ?m' = "overwrite 8 (enc32 evt) (overwrite 12 (enc64 bx) ?m)"
  have len: "length ?m = unat max_size" "20 \<le> unat max_size" using assms(1) by (auto simp: ds_ok_def)
  have small: "unat n + 20 < 2 ^ 32"
    using assms(2) unat_u32_lt [of max_size] by (simp del: unat_u32_lt)
  define b where "b = setPayloadSize n ((ds_buffer d)\<lparr>b_mem := ?m'\<rparr>)"
  have ok: "buf_ok b" using len assms(2) small by (simp add: b_def buf_ok_def setPayloadSize_def)
  have frame: "frame_of b = \<lparr>f_det = ds_detid d, f_src = ds_sourceid d, f_evt = evt, f_bx = bx,
        f_payload = chunk 20 (unat n) ?m\<rparr>"
    using len assms by (simp add: frame_of_def b_def setPayloadSize_def ds_ok_def mem_simps)
  have "read_ptr (unat (size_of b)) b = Inr (frame_bytes (frame_of b))"
    by (rule holds_getters(6) [OF holds_frame_of [OF ok]])
  moreover have "publish evt bx n d = rbind (read_ptr (unat (size_of b)) b) (\<lambda>bytes.
      Inr (d\<lparr>ds_buffer := b,
             ds_service := (ds_service d)\<lparr>sv_sent := sv_sent (ds_service d) @ [bytes]\<rparr>\<rparr>))"
    using len by (simp add: publish_def setter_defs b_def Let_def)
  moreover have "ds_ok max_size (d\<lparr>ds_buffer := b, ds_service := s\<rparr>)"
    if "sv_name s = sv_name (ds_service d)" for s
    using assms(1) len that by (simp add: ds_ok_def b_def setPayloadSize_def mem_simps)
  ultimately show ?thesis by (simp add: frame)
qed

lemma publish_run:
  assumes "length pl + 20 \<le> unat max_size"
  shows "\<exists>d. rbind (datasource_new det src max_size junk) (\<lambda>d0.
               rbind (payload_store pl d0) (publish evt bx (word_of_nat (length pl)))) = Inr d \<and>
             sv_name (ds_service d) = ds_service_name det src \<and>
             sv_sent (ds_service d) = [frame_bytes \<lparr>f_det = det, f_src = src, f_evt = evt, f_bx = bx,
               f_payload = pl\<rparr>]"
proof -
  have "20 \<le> unat max_size" using assms by simp
  from ds_ok_new [OF this] obtain d0 where d0: "datasource_new det src max_size junk = Inr d0"
    "ds_ok max_size d0" "ds_detid d0 = det" "ds_sourceid d0 = src" "sv_sent (ds_service d0) = []"
    by blast
  from d0(2) assms obtain d1 where d1: "payload_store pl d0 = Inr d1"
    by (auto simp: payload_store_Inr ds_ok_def)
  note ok1 = ds_ok_payload_store [OF d0(2) d1]
  have "unat (word_of_nat (length pl) :: u32) = length pl"
    using assms unat_u32_lt [of max_size] by (simp add: unat_of_nat_u32 del: unat_u32_lt)
  with publish_block [of max_size d1 "word_of_nat (length pl)" evt bx] ok1 assms d0 d1
  show ?thesis by (auto simp: ds_ok_def)
qed

text \<open>
  What a data source publishes is exactly the agreed layout: detector, source, event and
  bunch crossing identifiers followed by the payload bytes the user stored, under the service
  name built from the two identifiers; it is reached on every payload that fits in the buffer.
\<close>

theorem publish_wire_format:
  assumes "length pl + 20 \<le> unat max_size"
  shows "\<exists>d. rbind (datasource_new det src max_size junk) (\<lambda>d0.
               rbind (payload_store pl d0) (publish evt bx (word_of_nat (length pl)))) = Inr d \<and>
             sv_name (ds_service d) = ds_service_name det src \<and>
             sv_sent (ds_service d) = [enc32 det @ enc32 src @ enc32 evt @ enc64 bx @ pl]"
  using publish_run [OF assms] by (simp add: frame_bytes_def header_bytes_def)

theorem publish_wire_format_witness:
  "\<exists>d. rbind (datasource_new 1 2 64 (\<lambda>_. 0)) (\<lambda>d0.
       rbind (payload_store [9, 8, 7] d0) (publish 3 4 3)) = Inr d \<and>
     sv_sent (ds_service d) = [enc32 1 @ enc32 2 @ enc32 3 @ enc64 4 @ [9, 8, 7]]"
proof -
  have "length [9, 8, 7 :: byte] + 20 \<le> unat (64 :: u32)" by simp
  from publish_wire_format [OF this, of 1 2 "\<lambda>_. 0" 3 4] show ?thesis by auto
qed

section \<open>The life of a data source\<close>

text \<open>What its user does with it: stores through the payload pointer and calls of \<^verbatim>\<open>publish\<close>.\<close>

datatype source_use = Fill "byte list" | Publish u32 u64 u32

fun use_source :: "source_use \<Rightarrow> datasource \<Rightarrow> datasource res" where
  "use_source (Fill bs) = payload_store bs"
| "use_source (Publish evt bx n) = publish evt bx n"

fun within :: "u32 \<Rightarrow> source_use \<Rightarrow> bool" where
  "within max_size (Fill bs) \<longleftrightarrow> length bs + 20 \<le> unat max_size"
| "within max_size (Publish evt bx n) \<longleftrightarrow> unat n + 20 \<le> unat max_size"

text \<open>The tags and the payload length of a frame, and those that the calls of \<^verbatim>\<open>publish\<close> ask for.\<close>

definition tags :: "byte list \<Rightarrow> u32 \<times> u32 \<times> u32 \<times> u64 \<times> nat" where
  "tags bs = (let f = parse_frame bs in (f_det f, f_src f, f_evt f, f_bx f, length (f_payload f)))"

fun asked :: "u32 \<Rightarrow> u32 \<Rightarrow> source_use list \<Rightarrow> (u32 \<times> u32 \<times> u32 \<times> u64 \<times> nat) list" where
  "asked det src [] = []"
| "asked det src (Fill bs # us) = asked det src us"
| "asked det src (Publish evt bx n # us) = (det, src, evt, bx, unat n) # asked det src us"

lemma uses_keep:
  assumes "ds_ok max_size d" and "\<forall>u \<in> set us. within max_size u"
  shows "\<exists>d'. rfold use_source us d = Inr d' \<and> ds_ok max_size d' \<and> ds_detid d' = ds_detid d \<and>
     ds_sourceid d' = ds_sourceid d \<and>
     map tags (sv_sent (ds_service d')) = map tags (sv_sent (ds_service d)) @ asked (ds_detid d) (ds_sourceid d) us"
  using assms
proof (induction us arbitrary: d)
  case Nil
  then show ?case by simp
next
  case (Cons u us)
  show ?case
  proof (cases u)
    case (Fill bs)
    with Cons.prems obtain d1 where d1: "payload_store bs d = Inr d1"
      by (auto simp: payload_store_Inr ds_ok_def)
    note ok = ds_ok_payload_store [OF Cons.prems(1) d1]
    with Cons.IH [of d1] Cons.prems(2) Fill d1 show ?thesis by auto
  next
    case (Publish evt bx n)
    with Cons.prems(2) have n: "unat n + 20 \<le> unat max_size" by simp
    from publish_block [OF Cons.prems(1) n, of evt bx] obtain d1 where
      d1: "publish evt bx n d = Inr d1" "ds_ok max_size d1" "ds_detid d1 = ds_detid d" "ds_sourceid d1 = ds_sourceid d"
        "sv_sent (ds_service d1) = sv_sent (ds_service d) @ [frame_bytes \<lparr>f_det = ds_detid d, f_src = ds_sourceid d,
          f_evt = evt, f_bx = bx, f_payload = chunk 20 (unat n) (b_mem (ds_buffer d))\<rparr>]" by blast
    have "length (chunk 20 (unat n) (b_mem (ds_buffer d))) = unat n"
      using Cons.prems(1) n by (simp add: ds_ok_def)
    with d1(5) have "map tags (sv_sent (ds_service d1)) =
        map tags (sv_sent (ds_service d)) @ [(ds_detid d, ds_sourceid d, evt, bx, unat n)]"
      by (simp add: tags_def)
    with Cons.IH [of d1] Cons.prems(2) Publish d1 show ?thesis by auto
  qed
qed

text \<open>
  C19: a data source stays well formed in use: from the constructor on, whatever is stored into its
  payload and published, as long as it stays within the block, no call faults, the block keeps
  its size and the identifiers of the source, and the frames sent are one for each \<^verbatim>\<open>publish\<close>, in
  order, with the identifiers given to the constructor and the event, bunch crossing and
  payload length given to the call; a \<^verbatim>\<open>publish\<close> beyond the block reads outside of it.
\<close>

theorem source_well_formed:
  assumes "20 \<le> unat max_size"
  shows "((\<forall>u \<in> set us. within max_size u) \<longrightarrow>
       (\<exists>d. rbind (datasource_new det src max_size junk) (rfold use_source us) = Inr d \<and> ds_ok max_size d \<and>
         map tags (sv_sent (ds_service d)) = asked det src us)) \<and>
     ((\<forall>u \<in> set us. within max_size u) \<and> unat max_size < unat n + 20 \<and> unat n + 20 < 2 ^ 32 \<longrightarrow>
       rbind (datasource_new det src max_size junk) (rfold use_source (us @ [Publish evt bx n])) = Inl Out_Of_Bounds)"
proof (rule conjI)
  from ds_ok_new [OF assms, of det src junk] obtain d0 where
    d0: "datasource_new det src max_size junk = Inr d0" "ds_ok max_size d0" "ds_detid d0 = det" "ds_sourceid d0 = src"
      "sv_sent (ds_service d0) = []" by blast
  note run = uses_keep [OF d0(2), of us]
  from run d0 show "(\<forall>u \<in> set us. within max_size u) \<longrightarrow>
       (\<exists>d. rbind (datasource_new det src max_size junk) (rfold use_source us) = Inr d \<and> ds_ok max_size d \<and>
         map tags (sv_sent (ds_service d)) = asked det src us)" by auto
  have "publish evt bx n d = Inl Out_Of_Bounds"
    if "ds_ok max_size d" "unat max_size < unat n + 20" "unat n + 20 < 2 ^ 32" for d
    using that by (simp add: publish_def setter_defs ds_ok_def Let_def size_of_small read_ptr_def)
      (simp add: setPayloadSize_def)
  with run d0(1) show "(\<forall>u \<in> set us. within max_size u) \<and> unat max_size < unat n + 20 \<and> unat n + 20 < 2 ^ 32 \<longrightarrow>
       rbind (datasource_new det src max_size junk) (rfold use_source (us @ [Publish evt bx n])) = Inl Out_Of_Bounds"
    by (auto simp: rfold_append)
qed

theorem source_well_formed_witness:
  "\<exists>d. rbind (datasource_new 1 2 64 (\<lambda>_. 0)) (rfold use_source [Fill [9, 8], Publish 3 4 2, Publish 4 5 0]) = Inr d \<and>
     map tags (sv_sent (ds_service d)) = [(1, 2, 3, 4, 2), (1, 2, 4, 5, 0)]"
proof -
  have "20 \<le> unat (64 :: u32)" by simp
  from source_well_formed [OF this, of "[Fill [9, 8], Publish 3 4 2, Publish 4 5 0]" 1 2 "\<lambda>_. 0" 0 0 0]
  show ?thesis by auto
qed

end
