(* ===== verification/Data_Socket.thy ===== *)
theory Data_Socket
  imports Spool Data_Source
begin

text \<open>
  \<^verbatim>\<open>src/datasocket.cxx\<close>: the subscriber of a data source. Each DIM update is copied into the
  socket's buffer and, when a directory is set and the event number is not 0, stored as a
  file of the shared-memory directory.
\<close>

section \<open>State and operations\<close>

record datasocket =
  sk_count :: u32
  sk_info :: string
  sk_buffer :: buffer
  sk_sourceid :: u32
  sk_detid :: u32
  sk_name :: string
  sk_memdir :: string

definition datasocket_new :: "u32 \<Rightarrow> u32 \<Rightarrow> u32 \<Rightarrow> (nat \<Rightarrow> byte) \<Rightarrow> datasocket res" where
  "datasocket_new detid sourceid max_size junk =
     rbind (setDataSourceId sourceid (buffer_new max_size junk)) (\<lambda>b1.
     rbind (setDetectorId detid b1) (\<lambda>b2.
     Inr \<lparr>sk_count = 0, sk_info = ds_service_name detid sourceid, sk_buffer = b2,
          sk_sourceid = sourceid, sk_detid = detid, sk_name = ds_service_name detid sourceid,
          sk_memdir = ''''\<rparr>))"

text \<open>
  The second constructor reads the identifiers from the name of the service (which it does not
  keep); an identifier that is not there has no determinate value.
\<close>

definition ds_format :: "directive list" where
  "ds_format = map Lit ''/LEVBDIM/DS-'' @ [Conv_D, Lit CHR ''-'', Conv_D] @ map Lit ''/DATA''"

definition datasocket_of_name :: "string \<Rightarrow> u32 \<Rightarrow> (nat \<Rightarrow> byte) \<Rightarrow> datasocket res" where
  "datasocket_of_name n max_size junk =
     rbind (scanned (sscanf ds_format n) 1) (\<lambda>s.
     rbind (setDataSourceId (ucast s) (buffer_new max_size junk)) (\<lambda>b1.
     rbind (scanned (sscanf ds_format n) 0) (\<lambda>d.
     rbind (setDetectorId (ucast d) b1) (\<lambda>b2.
     Inr \<lparr>sk_count = 0, sk_info = ds_service_name (ucast d) (ucast s), sk_buffer = b2,
          sk_sourceid = ucast s, sk_detid = ucast d, sk_name = '''', sk_memdir = ''''\<rparr>))))"

definition save2disk :: "string \<Rightarrow> datasocket \<Rightarrow> datasocket" where
  "save2disk memdir sk = sk\<lparr>sk_memdir := memdir\<rparr>"

text \<open>\<open>data\<close> is what \<^verbatim>\<open>getData\<close> and \<^verbatim>\<open>getSize\<close> of the service give.\<close>

definition infoHandler :: "byte list \<Rightarrow> datasocket \<Rightarrow> world \<Rightarrow> (datasocket \<times> world) res" where
  "infoHandler data sk w =
     rbind (poke 0 data (b_mem (sk_buffer sk))) (\<lambda>m.
     (let b = setPayloadSize (word_of_nat (length data) - 3 * 4 - 8) ((sk_buffer sk)\<lparr>b_mem := m\<rparr>);
          sk' = sk\<lparr>sk_count := sk_count sk + 1, sk_buffer := b\<rparr> in
      if length (sk_memdir sk) \<le> 4 then Inr (sk', w)
      else
        rbind (eventId b) (\<lambda>e.
        if e = 0 then Inr (sk', w)
        else
          rbind (detectorId b) (\<lambda>d. rbind (dataSourceId b) (\<lambda>s. rbind (bxId b) (\<lambda>x.
          rbind (shm_store d s e x (b_mem b) (size_of b) (sk_memdir sk) w) (\<lambda>w'.
          Inr (sk', w')))))))) "

definition isAlive :: "datasocket \<Rightarrow> bool" where
  "isAlive sk \<longleftrightarrow> 1 < sk_count sk"

section \<open>The two constructors\<close>

lemma length_b_mem_setter: "setDataSourceId s b = Inr b' \<Longrightarrow> length (b_mem b') = length (b_mem b)"
  by (auto simp: setter_defs store_field_Inr)

lemma sscanf_service_name:
  "sscanf ds_format (ds_service_name det src) = [word_of_nat (unat det), word_of_nat (unat src)]"
proof -
  have v: "scan_value True False (unat x) = word_of_nat (unat x)" for x :: u32
    using unat_u32_lt [of x] by (intro scan_value_signed) (simp del: unat_u32_lt)
  have lit: "sscanf (Conv_D # Lit c # ds) (show_nat n @ c # r) = scan_value True False n # sscanf ds r"
    if "\<not> is_digit c" for c ds n r using that by (simp add: scan_int_show)
  have "sscanf ds_format (ds_service_name det src) =
      sscanf (Conv_D # Lit CHR ''-'' # Conv_D # Lit CHR ''/'' # map Lit ''DATA'')
        (show_nat (unat det) @ CHR ''-'' # show_nat (unat src) @ CHR ''/'' # ''DATA'')"
    using sscanf_literals [of "''/LEVBDIM/DS-''"]
    by (simp add: ds_format_def ds_service_name_def show32_def del: sscanf.simps)
  also have "\<dots> = [word_of_nat (unat det), word_of_nat (unat src)]"
    by (simp add: lit v is_digit_def del: sscanf.simps) simp
  finally show ?thesis .
qed

lemma socket_of_name:
  "datasocket_of_name (ds_service_name det src) max_size junk =
     rbind (datasocket_new det src max_size junk) (\<lambda>sk. Inr (sk\<lparr>sk_name := ''''\<rparr>))"
proof -
  have u: "(ucast (word_of_nat (unat x) :: u64) :: u32) = x" for x :: u32
    using ucast_up_down [of x] by simp
  show ?thesis
    by (cases "setDataSourceId src (buffer_new max_size junk)")
      (auto simp: datasocket_of_name_def datasocket_new_def sscanf_service_name scanned_def u
        rbind_assoc intro!: rbind_cong)
qed

text \<open>
  The name a data source publishes under gives a subscriber back its two identifiers,
  for all values: the constructor by name makes a socket with the publisher's identifiers in
  its fields and in its buffer, subscribed to that name, whenever the buffer has room for
  the header.
\<close>

theorem socket_of_service_name:
  assumes "20 \<le> unat max_size"
  shows "\<exists>sk. datasocket_of_name (ds_service_name det src) max_size junk = Inr sk \<and>
     sk_detid sk = det \<and> sk_sourceid sk = src \<and> sk_info sk = ds_service_name det src \<and>
     detectorId (sk_buffer sk) = Inr det \<and> dataSourceId (sk_buffer sk) = Inr src \<and> \<not> isAlive sk"
  using assms unfolding socket_of_name
  by (simp add: datasocket_new_def setter_defs getter_defs isAlive_def mem_simps)

theorem socket_of_service_name_witness:
  "\<exists>sk. datasocket_of_name (ds_service_name 17 4000000000) 64 (\<lambda>_. 0) = Inr sk \<and> sk_sourceid sk = 4000000000"
proof -
  have "20 \<le> unat (64 :: u32)" by simp
  from socket_of_service_name [OF this, of 17 4000000000 "\<lambda>_. 0"] show ?thesis by blast
qed

section \<open>Handling an update\<close>

definition received :: "frame \<Rightarrow> buffer \<Rightarrow> buffer" where
  "received f b = b\<lparr>b_mem := overwrite 0 (frame_bytes f) (b_mem b),
     b_psize := word_of_nat (length (f_payload f))\<rparr>"

lemma holds_received:
  "short f \<Longrightarrow> 20 + length (f_payload f) \<le> length (b_mem b) \<Longrightarrow> holds (received f b) f"
  unfolding received_def by (intro holds_copy) (simp_all add: short_def)

lemma infoHandler_frame:
  assumes "short f" and fit: "20 + length (f_payload f) \<le> length (b_mem (sk_buffer sk))"
  shows "infoHandler (frame_bytes f) sk w =
     (let b = received f (sk_buffer sk);
          sk' = sk\<lparr>sk_count := sk_count sk + 1, sk_buffer := b\<rparr> in
      if length (sk_memdir sk) \<le> 4 \<or> f_evt f = 0 then Inr (sk', w)
      else rbind (shm_store (f_det f) (f_src f) (f_evt f) (f_bx f) (b_mem b) (size_of b)
                    (sk_memdir sk) w) (\<lambda>w'. Inr (sk', w')))"
proof -
  note g = holds_getters [OF holds_received [OF assms]]
  have b: "setPayloadSize (word_of_nat (length (frame_bytes f)) - 3 * 4 - 8)
      ((sk_buffer sk)\<lparr>b_mem := overwrite 0 (frame_bytes f) (b_mem (sk_buffer sk))\<rparr>) =
      received f (sk_buffer sk)"
    by (simp add: setPayloadSize_def received_def)
  have "poke 0 (frame_bytes f) (b_mem (sk_buffer sk)) =
      Inr (overwrite 0 (frame_bytes f) (b_mem (sk_buffer sk)))" using fit by simp
  then show ?thesis
    unfolding infoHandler_def by (simp only: rbind_simps b Let_def) (simp add: g)
qed

lemma infoHandler_stores:
  assumes "plain_spool memdir w" and "short f" and "f_evt f \<noteq> 0" and "4 < length memdir"
    and "sk_memdir sk = memdir" and "20 + length (f_payload f) \<le> length (b_mem (sk_buffer sk))"
  shows "\<exists>w'. infoHandler (frame_bytes f) sk w =
       Inr (sk\<lparr>sk_count := sk_count sk + 1, sk_buffer := received f (sk_buffer sk)\<rparr>, w') \<and>
     plain_spool memdir w' \<and> w_fds w' = w_fds w \<and> w_date w' = w_date w \<and>
     spool_view memdir w' = (spool_view memdir w)(frame_name f \<mapsto> stored_bytes memdir w f) \<and>
     (\<forall>m. m \<noteq> frame_name f \<longrightarrow> content w' (data_path memdir m) = content w (data_path memdir m))"
proof -
  let ?b = "received f (sk_buffer sk)"
  have h: "holds ?b f" by (rule holds_received [OF assms(2,6)])
  have sz: "unat (size_of ?b) = 20 + length (f_payload f)" using holds_psize(2) [OF h] by simp
  have "unat (size_of ?b) \<le> length (b_mem ?b)" "take (unat (size_of ?b)) (b_mem ?b) = frame_bytes f"
    using h by (simp_all add: sz holds_def add.commute)
  from store_frame_view [OF assms(1,2) sz this] infoHandler_frame [OF assms(2,6), of w] assms(3-5)
  show ?thesis by (auto simp: Let_def)
qed

text \<open>
  An update whose event number is 0, or that reaches a socket without a directory, is
  kept in the buffer and stores nothing; one that is larger than the buffer overruns it.
\<close>

theorem socket_ignores:
  "(length (frame_bytes f) \<le> length (b_mem (sk_buffer sk)) \<and> short f \<and>
      (f_evt f = 0 \<or> length (sk_memdir sk) \<le> 4) \<longrightarrow>
        (\<exists>sk'. infoHandler (frame_bytes f) sk w = Inr (sk', w) \<and> frame_of (sk_buffer sk') = f \<and>
          sk_count sk' = sk_count sk + 1)) \<and>
   (length (b_mem (sk_buffer sk)) < length (frame_bytes f) \<longrightarrow>
      infoHandler (frame_bytes f) sk w = Inl Out_Of_Bounds)"
proof (intro conjI impI)
  assume a: "length (frame_bytes f) \<le> length (b_mem (sk_buffer sk)) \<and> short f \<and>
      (f_evt f = 0 \<or> length (sk_memdir sk) \<le> 4)"
  then have "short f" "20 + length (f_payload f) \<le> length (b_mem (sk_buffer sk))" by simp_all
  from infoHandler_frame [OF this, of w] holds_unique(2) [OF holds_received [OF this]] a
  show "\<exists>sk'. infoHandler (frame_bytes f) sk w = Inr (sk', w) \<and> frame_of (sk_buffer sk') = f \<and>
          sk_count sk' = sk_count sk + 1"
    by (auto simp: Let_def)
next
  assume "length (b_mem (sk_buffer sk)) < length (frame_bytes f)"
  then show "infoHandler (frame_bytes f) sk w = Inl Out_Of_Bounds" by (simp add: infoHandler_def)
qed

theorem socket_ignores_witness:
  "infoHandler (frame_bytes \<lparr>f_det = 1, f_src = 2, f_evt = 3, f_bx = 4, f_payload = [5, 6, 7]\<rparr>)
     \<lparr>sk_count = 0, sk_info = ''X'', sk_buffer = buffer_new 22 (\<lambda>_. 0), sk_sourceid = 2, sk_detid = 1,
      sk_name = '''', sk_memdir = ''''\<rparr> (demo_spool []) = Inl Out_Of_Bounds"
  using socket_ignores [of "\<lparr>f_det = 1, f_src = 2, f_evt = 3, f_bx = 4, f_payload = [5, 6, 7]\<rparr>"
    "\<lparr>sk_count = 0, sk_info = ''X'', sk_buffer = buffer_new 22 (\<lambda>_. 0), sk_sourceid = 2, sk_detid = 1,
      sk_name = '''', sk_memdir = ''''\<rparr>" "demo_spool []"] by simp

end
