(* ===== verification/Transport.thy ===== *)
theory Transport
  imports Data_Socket Event_Builder
begin

text \<open>
  The way of one fragment, from the data source to the buffer the event builder holds, across
  the DIM service, the data socket and the shared-memory directory.
\<close>

text \<open>\<^verbatim>\<open>pull\<close> reads at most 128 kB, header included: what is behind is cut off.\<close>

definition cut :: "frame \<Rightarrow> frame" where
  "cut f = f\<lparr>f_payload := take (0x20000 - 20) (f_payload f)\<rparr>"

lemma take_frame_bytes: "take 0x20000 (frame_bytes f) = frame_bytes (cut f)"
  by (simp add: frame_bytes_def cut_def header_bytes_def)

lemma length_cut: "20 + length (f_payload (cut f)) \<le> 0x20000"
  by (simp add: cut_def)

lemma pull_frame:
  assumes "spool_ok dir w" and "spool_view dir w n = Some (frame_bytes f)"
  shows "\<exists>b w'. shm_pull n (buffer_new 0x80000 junk) dir w = Inr (b, w') \<and>
     fragment_ok b \<and> frame_of b = cut f \<and>
     spool_ok dir w' \<and> spool_view dir w' = (spool_view dir w)(n := None)"
proof -
  let ?c = "frame_bytes (cut f)"
  have "length (take 0x20000 (frame_bytes f)) \<le> length (b_mem (buffer_new 0x80000 junk))" by simp
  from shm_pull_view [OF assms this] obtain w' where
    w': "shm_pull n (buffer_new 0x80000 junk) dir w = Inr (pulled junk ?c, w')"
    "spool_ok dir w'" "spool_view dir w' = (spool_view dir w)(n := None)"
    unfolding take_frame_bytes pulled_def by blast
  have "20 \<le> length ?c" "length ?c \<le> 0x20000" using length_cut [of f] by simp_all
  from pulled_fragment [OF this, of junk] w' show ?thesis by simp
qed



end
