(* ===== verification/Daq.thy ===== *)
theory Daq
  imports Driver_Control Transport
begin

text \<open>
  The event builder process as a whole: a driver with writers and monitors, the data sockets
  that feed its directory, and the world they share. Its steps are the DIM updates handled by
  the sockets and the passes of the scanning thread, in any order.
\<close>

section \<open>Steps\<close>

record daq =
  q_driver :: shmdriver
  q_env :: "processor env"
  q_socks :: "datasocket list"

inductive daq_step ::
  "zlib \<Rightarrow> (nat \<Rightarrow> byte) \<Rightarrow> (string \<Rightarrow> nat \<Rightarrow> byte) \<Rightarrow> daq \<Rightarrow> daq \<Rightarrow> bool"
  for Z hjunk junk where
  update: "\<lbrakk>i < length (q_socks c); short f;
      infoHandler (frame_bytes f) (q_socks c ! i) (e_world (q_env c)) = Inr (sk, w)\<rbrakk>
    \<Longrightarrow> daq_step Z hjunk junk c
          (c\<lparr>q_socks := (q_socks c)[i := sk], q_env := (q_env c)\<lparr>e_world := w\<rparr>\<rparr>)"
| scan: "\<lbrakk>d_running (q_driver c);
      scan_pass (processor_ops Z hjunk) junk (q_driver c) (q_env c) = Inr (D, en)\<rbrakk>
    \<Longrightarrow> daq_step Z hjunk junk c (c\<lparr>q_driver := D, q_env := en\<rparr>)"

section \<open>The invariant\<close>

definition whole_event :: "nat \<Rightarrow> u64 \<times> frame list \<Rightarrow> bool" where
  "whole_event n e \<longleftrightarrow> length (snd e) = n \<and> fst e \<noteq> 0 \<and> (\<forall>f \<in> set (snd e). frag_key f = fst e)"

definition groups_ok :: "nat \<Rightarrow> (u64 \<Rightarrow> frame list) \<Rightarrow> bool" where
  "groups_ok n g \<longleftrightarrow> (\<forall>k. (\<forall>f \<in> set (g k). frag_key f = k) \<and> (k \<noteq> 0 \<longrightarrow> length (g k) < n))"

definition socket_ok :: "string \<Rightarrow> datasocket \<Rightarrow> bool" where
  "socket_ok memdir sk \<longleftrightarrow> sk_memdir sk = memdir \<or> length (sk_memdir sk) \<le> 4"

definition framed :: "(string \<Rightarrow> byte list option) \<Rightarrow> bool" where
  "framed V \<longleftrightarrow> (\<forall>n c. V n = Some c \<longrightarrow> 20 \<le> length c)"

definition daq_inv :: "zlib \<Rightarrow> string \<Rightarrow> nat set \<Rightarrow> nat \<Rightarrow> daq \<Rightarrow> bool" where
  "daq_inv Z memdir ptrs n c \<longleftrightarrow>
     (let D = q_driver c; w = e_world (q_env c) in
      sink_inv Z memdir ptrs (e_objs (q_env c)) w \<and> plain_spool memdir w \<and> framed (spool_view memdir w) \<and>
      4 < length memdir \<and> d_memdir D = memdir \<and> unat (numberOfDataSource D) = n \<and> 0 < n \<and>
      set (d_processors D) \<subseteq> ptrs \<and> (\<exists>g. refines (d_eventMap D) g \<and> groups_ok n g) \<and>
      (\<forall>e \<in> set (abs_log (e_log (q_env c))). whole_event n e) \<and>
      (\<forall>sk \<in> set (q_socks c). socket_ok memdir sk))"

lemma framed_readable: "framed V \<Longrightarrow> dom V = set ns \<Longrightarrow> readable V ns"
  unfolding framed_def readable_def by (metis domD)

lemma build_pass_groups:
  assumes "groups_ok n g" and "0 < n"
  shows "groups_ok n (snd (build_pass n g fs))"
    and "\<forall>e \<in> set (fst (build_pass n g fs)). whole_event n e"
proof -
  obtain evs g' where b: "build n g fs = (evs, g')" by (cases "build n g fs")
  have key: "\<And>k f. f \<in> set (g k) \<Longrightarrow> frag_key f = k" and lt: "\<And>k. k \<noteq> 0 \<Longrightarrow> length (g k) < n"
    using assms(1) by (auto simp: groups_ok_def)
  have e: "(\<forall>(k, v) \<in> set evs. length v = n \<and> k \<noteq> 0 \<and> (\<forall>f \<in> set v. frag_key f = k)) \<and>
         (\<forall>k. \<forall>f \<in> set (g' k). frag_key f = k)" by (rule build_events [OF b key])
  have i: "length (g' k) < n" if "k \<noteq> 0" for k by (rule build_incomplete [OF b lt that])
  show "groups_ok n (snd (build_pass n g fs))"
    using e i assms(2) by (simp add: build_pass_def b groups_ok_def tidy_def)
  show "\<forall>e \<in> set (fst (build_pass n g fs)). whole_event n e"
    using e by (auto simp: build_pass_def b whole_event_def)
qed

text \<open>A pass from a state that satisfies the invariant: it refines the abstract builder.\<close>

lemma build_pass_Nil [simp]: "build_pass n g [] = ([], g)"
  by (simp add: build_pass_def tidy_def)

definition batch :: "string \<Rightarrow> nat \<Rightarrow> world \<Rightarrow> frame list" where
  "batch memdir n w =
     (if length (shm_ls memdir w) mod n = 0 then frames_of (spool_view memdir w) (shm_ls memdir w)
      else [])"

lemma scan_refines:
  assumes inv: "daq_inv Z memdir ptrs n c" and g: "refines (d_eventMap (q_driver c)) g"
    and fs: "fs = batch memdir n (e_world (q_env c))"
  shows "\<exists>D en. scan_pass (processor_ops Z hjunk) junk (q_driver c) (q_env c) = Inr (D, en) \<and>
     sink.pass_result memdir Z ptrs (q_env c) (q_driver c) g en D (fst (build_pass n g fs))
       (snd (build_pass n g fs))"
proof -
  let ?D = "q_driver c" and ?en = "q_env c"
  let ?w = "e_world ?en"
  from inv have b: "sink_inv Z memdir ptrs (e_objs ?en) ?w" "plain_spool memdir ?w"
    "framed (spool_view memdir ?w)" "d_memdir ?D = memdir" "unat (numberOfDataSource ?D) = n"
    "0 < n" "set (d_processors ?D) \<subseteq> ptrs" by (simp_all add: daq_inv_def Let_def)
  have sp: "spool_ok memdir ?w" using b(2) by (simp add: plain_spool_def)
  then have ready: "sink.ready memdir Z ptrs ?en" unfolding sink.ready_def using b(1) by simp
  have read: "readable (spool_view memdir ?w) (shm_ls memdir ?w)"
    by (rule framed_readable [OF b(3)]) (simp add: shm_ls_sorted(1) [OF sp])
  from sink.scan_pass_run [OF ready b(7) g b(4,5,6) read, unfolded Let_def, folded batch_def fs]
  show ?thesis by (cases "fs = []") simp_all
qed

lemma refines_unique: "refines m g \<Longrightarrow> refines m g' \<Longrightarrow> g = g'"
proof (rule ext)
  fix k
  assume "refines m g" "refines m g'"
  then have "entry_ok (map_of m k) (g k)" "entry_ok (map_of m k) (g' k)" by (simp_all add: refines_entry)
  then show "g k = g' k" by (cases "map_of m k") simp_all
qed

lemma scan_keeps_inv:
  assumes inv: "daq_inv Z memdir ptrs n c"
  shows "\<exists>D en. scan_pass (processor_ops Z hjunk) junk (q_driver c) (q_env c) = Inr (D, en) \<and>
     daq_inv Z memdir ptrs n (c\<lparr>q_driver := D, q_env := en\<rparr>)"
proof -
  let ?D = "q_driver c" and ?en = "q_env c"
  from inv obtain g where g: "refines (d_eventMap ?D) g" "groups_ok n g"
    by (auto simp: daq_inv_def Let_def)
  from inv have b: "plain_spool memdir (e_world ?en)" "0 < n" by (simp_all add: daq_inv_def Let_def)
  let ?fs = "batch memdir n (e_world ?en)"
  from scan_refines [OF inv g(1) refl] obtain D en where
    r: "scan_pass (processor_ops Z hjunk) junk ?D ?en = Inr (D, en)"
    "sink.pass_result memdir Z ptrs ?en ?D g en D (fst (build_pass n g ?fs)) (snd (build_pass n g ?fs))"
    by blast
  note g' = build_pass_groups [OF g(2) b(2), of ?fs]
  from r(2) have r': "same_setup ?D D" "sink_inv Z memdir ptrs (e_objs en) (e_world en)"
    "spool_ok memdir (e_world en)" "spool_kept memdir (e_world ?en) (e_world en)"
    "spool_view memdir (e_world en) = Map.empty" "refines (d_eventMap D) (snd (build_pass n g ?fs))"
    "abs_log (e_log en) = abs_log (e_log ?en) @ fst (build_pass n g ?fs)"
    unfolding sink.pass_result_def sink.ready_def sink.kept_def by auto
  have plain: "plain_spool memdir (e_world en)"
    using b(1) r'(3,4) unfolding plain_spool_def spool_kept_def by auto
  have log: "\<forall>e \<in> set (abs_log (e_log en)). whole_event n e"
    using inv g'(2) unfolding r'(7) daq_inv_def Let_def by auto
  have "daq_inv Z memdir ptrs n (c\<lparr>q_driver := D, q_env := en\<rparr>)"
    using inv r'(1,2,5,6) plain log g'(1) same_setup_nds [OF r'(1)]
    by (auto simp: daq_inv_def Let_def framed_def same_setup_def)
  with r(1) show ?thesis by blast
qed

text \<open>An update, whatever its event number, that fits the socket's buffer.\<close>

lemma infoHandler_room: "infoHandler data sk w = Inr r \<Longrightarrow> length data \<le> length (b_mem (sk_buffer sk))"
  by (cases "length data \<le> length (b_mem (sk_buffer sk))") (simp_all add: infoHandler_def)

lemma update_keeps_inv:
  assumes inv: "daq_inv Z memdir ptrs n c" and i: "i < length (q_socks c)" and "short f"
    and room: "length (frame_bytes f) \<le> length (b_mem (sk_buffer (q_socks c ! i)))"
  shows "\<exists>sk w. infoHandler (frame_bytes f) (q_socks c ! i) (e_world (q_env c)) = Inr (sk, w) \<and>
     daq_inv Z memdir ptrs n (c\<lparr>q_socks := (q_socks c)[i := sk], q_env := (q_env c)\<lparr>e_world := w\<rparr>\<rparr>)"
proof -
  let ?sk = "q_socks c ! i" and ?w = "e_world (q_env c)"
  let ?sk' = "?sk\<lparr>sk_count := sk_count ?sk + 1, sk_buffer := received f (sk_buffer ?sk)\<rparr>"
  have sk: "socket_ok memdir ?sk" using inv i by (simp add: daq_inv_def Let_def)
  have fit: "20 + length (f_payload f) \<le> length (b_mem (sk_buffer ?sk))" using room by simp
  have sk': "socket_ok memdir ?sk'" using sk by (simp add: socket_ok_def)
  have plain: "plain_spool memdir ?w" and len: "4 < length memdir"
    using inv by (simp_all add: daq_inv_def Let_def)
  have "\<exists>w. infoHandler (frame_bytes f) ?sk ?w = Inr (?sk', w) \<and> plain_spool memdir w \<and>
      w_fds w = w_fds ?w \<and> w_date w = w_date ?w \<and> framed (spool_view memdir w)"
  proof (cases "length (sk_memdir ?sk) \<le> 4 \<or> f_evt f = 0")
    case True
    with infoHandler_frame [OF \<open>short f\<close> fit, of ?w] plain inv show ?thesis
      by (auto simp: Let_def daq_inv_def)
  next
    case False
    then have "sk_memdir ?sk = memdir" "f_evt f \<noteq> 0" using sk by (auto simp: socket_ok_def)
    from infoHandler_stores [OF plain \<open>short f\<close> this(2) len this(1) fit] inv show ?thesis
      by (auto simp: framed_def stored_bytes_def daq_inv_def Let_def)
  qed
  then obtain w where w: "infoHandler (frame_bytes f) ?sk ?w = Inr (?sk', w)" "plain_spool memdir w"
    "w_fds w = w_fds ?w" "w_date w = w_date ?w" "framed (spool_view memdir w)" by blast
  have "\<forall>s \<in> set ((q_socks c)[i := ?sk']). socket_ok memdir s"
    using inv sk' set_update_subset_insert [of "q_socks c" i ?sk'] by (auto simp: daq_inv_def Let_def)
  with inv w have "daq_inv Z memdir ptrs n
      (c\<lparr>q_socks := (q_socks c)[i := ?sk'], q_env := (q_env c)\<lparr>e_world := w\<rparr>\<rparr>)"
    by (simp add: daq_inv_def Let_def sink_inv_def)
  with w(1) show ?thesis by blast
qed

section \<open>Reachable states\<close>

lemma step_keeps_inv:
  assumes "daq_step Z hjunk junk c c'" and "daq_inv Z memdir ptrs n c"
  shows "daq_inv Z memdir ptrs n c'"
  using assms(1)
proof (cases rule: daq_step.cases)
  case (update i f sk w)
  from infoHandler_room [OF update(4)] update_keeps_inv [OF assms(2) update(2,3)] update(1,4) show ?thesis by auto
next
  case (scan D en)
  with scan_keeps_inv [OF assms(2), of hjunk junk] show ?thesis by auto
qed

lemma reachable_inv:
  assumes "(daq_step Z hjunk junk)\<^sup>*\<^sup>* c c'" and "daq_inv Z memdir ptrs n c"
  shows "daq_inv Z memdir ptrs n c'"
  using assms by (induction rule: rtranclp_induct) (auto intro: step_keeps_inv)

lemma whole_log:
  assumes "daq_inv Z memdir ptrs n c"
  shows "\<forall>(k, v) \<in> set (e_log (q_env c)). length v = n \<and> k \<noteq> 0 \<and> (\<forall>b \<in> set v. ucast (f_evt (frame_of b)) = k)"
proof -
  from assms have "\<forall>e \<in> set (abs_log (e_log (q_env c))). whole_event n e" by (simp add: daq_inv_def Let_def)
  then show ?thesis by (auto simp: abs_log_def whole_event_def frag_key_def)
qed

section \<open>A concrete system\<close>

text \<open>One source, one writer, one socket, and a fragment of event 3 waiting in the directory.\<close>

definition demo_daq :: daq where
  "demo_daq =
     \<lparr>q_driver = (registerProcessor 0 (registerDataSource 1 2 (shmdriver_new ''/spool'' True)))
        \<lparr>d_running := True\<rparr>,
      q_env = \<lparr>e_objs = [Some (Basic_Writer (basicwriter_new ''/data''))],
        e_world = demo_spool [(frame_name demo_frame, frame_bytes demo_frame)], e_log = []\<rparr>,
      q_socks = [\<lparr>sk_count = 0, sk_info = ds_service_name 1 2, sk_buffer = buffer_new 0x80000 (\<lambda>_. 0),
        sk_sourceid = 2, sk_detid = 1, sk_name = '''', sk_memdir = ''/spool''\<rparr>]\<rparr>"

lemma demo_daq_inv: "daq_inv demo_zlib ''/spool'' {0} 1 demo_daq"
proof -
  let ?w = "demo_spool [(frame_name demo_frame, frame_bytes demo_frame)]"
  have plain: "plain_spool ''/spool'' ?w" by (rule demo_plain_spool [OF demo_names_frame])
  have view: "spool_view ''/spool'' ?w = [frame_name demo_frame \<mapsto> frame_bytes demo_frame]"
    using demo_spool_ok(2) [OF demo_names_frame [of demo_frame "frame_bytes demo_frame"]] by simp
  have sink: "sink_inv demo_zlib ''/spool'' {0} [Some (Basic_Writer (basicwriter_new ''/data''))] ?w"
    by (simp add: sink_inv_def demo_zlib_ok demo_spool_def outside_def data_path_def mark_path_def
        basicwriter_new_def resolve_def)
  have "refines ([] :: (u64, buffer list) smap) (\<lambda>_. [])" by (rule refines_empty)
  then show ?thesis
    using plain view sink
    by (auto simp: daq_inv_def Let_def demo_daq_def framed_def socket_ok_def numberOfDataSource_def
        registerProcessor_def registerDataSource_def shmdriver_new_def groups_ok_def abs_log_def)
qed

lemma demo_listing:
  "frames_of (spool_view ''/spool'' (e_world (q_env demo_daq))) (shm_ls ''/spool'' (e_world (q_env demo_daq))) =
     [demo_frame]"
proof -
  let ?w = "demo_spool [(frame_name demo_frame, frame_bytes demo_frame)]"
  note n = demo_names_frame [of demo_frame "frame_bytes demo_frame"]
  note ls = shm_ls_sorted [OF demo_spool_ok(1) [OF n]]
  have view: "spool_view ''/spool'' ?w = [frame_name demo_frame \<mapsto> frame_bytes demo_frame]"
    using demo_spool_ok(2) [OF n] by simp
  have one: "xs = [x]" if "set xs = {x}" "distinct xs" for xs and x :: string
    using that by (cases xs; cases "tl xs") auto
  have "set (shm_ls ''/spool'' ?w) = {frame_name demo_frame}" using ls(1) by (simp add: view)
  from one [OF this ls(3)] have "shm_ls ''/spool'' ?w = [frame_name demo_frame]" .
  moreover have "take 0x20000 (frame_bytes demo_frame) = frame_bytes demo_frame"
    by (simp add: demo_frame_def)
  ultimately show ?thesis by (simp add: demo_daq_def frames_of_def view)
qed

section \<open>Properties\<close>

text \<open>
  C2: one pass of the scan is one pass of the abstract event builder: on fragments that make
  full sets, the groups held and the events handed over become what \<open>build_pass\<close> computes from
  the groups held and the fragments in name order; otherwise both stay and the fragments are
  thrown away. In every case the directory is empty afterwards.
\<close>

theorem scan_pass_refines_builder:
  assumes "daq_inv Z memdir ptrs n c" and "refines (d_eventMap (q_driver c)) g"
    and "fs = frames_of (spool_view memdir (e_world (q_env c))) (shm_ls memdir (e_world (q_env c)))"
  shows "\<exists>D en. scan_pass (processor_ops Z hjunk) junk (q_driver c) (q_env c) = Inr (D, en) \<and>
     shm_ls memdir (e_world en) = [] \<and>
     (if length fs mod n = 0
      then refines (d_eventMap D) (snd (build_pass n g fs)) \<and>
           abs_log (e_log en) = abs_log (e_log (q_env c)) @ fst (build_pass n g fs)
      else refines (d_eventMap D) g \<and> abs_log (e_log en) = abs_log (e_log (q_env c)))"
proof -
  let ?w = "e_world (q_env c)"
  have len: "length fs = length (shm_ls memdir ?w)" by (simp add: assms(3) frames_of_def)
  have b: "batch memdir n ?w = (if length fs mod n = 0 then fs else [])"
    using len unfolding batch_def by (simp add: assms(3))
  from scan_refines [OF assms(1,2) b [symmetric]] obtain D en where
    r: "scan_pass (processor_ops Z hjunk) junk (q_driver c) (q_env c) = Inr (D, en)"
    "sink.pass_result memdir Z ptrs (q_env c) (q_driver c) g en D
       (fst (build_pass n g (if length fs mod n = 0 then fs else [])))
       (snd (build_pass n g (if length fs mod n = 0 then fs else [])))" by blast
  then have "spool_ok memdir (e_world en)" "spool_view memdir (e_world en) = Map.empty"
    unfolding sink.pass_result_def sink.ready_def by auto
  then have "shm_ls memdir (e_world en) = []" using shm_ls_sorted(1) [of memdir "e_world en"] by simp
  with r show ?thesis unfolding sink.pass_result_def by (auto split: if_splits)
qed

text \<open>
  C3: every full set is delivered, once and in order: when a pass starts with an empty map on a
  directory whose number of files is a multiple of the number of sources, then for every event
  number but 0 the processors get as many events as there are full sets of its fragments, and
  these events contain its fragments one after the other.
\<close>

theorem scan_pass_delivers:
  assumes "daq_inv Z memdir ptrs n c" and "d_eventMap (q_driver c) = []"
    and "fs = frames_of (spool_view memdir (e_world (q_env c))) (shm_ls memdir (e_world (q_env c)))"
    and "length fs mod n = 0" and "k \<noteq> 0"
  shows "\<exists>D en evs. scan_pass (processor_ops Z hjunk) junk (q_driver c) (q_env c) = Inr (D, en) \<and>
     abs_log (e_log en) = abs_log (e_log (q_env c)) @ evs \<and>
     (let own = filter (\<lambda>f. ucast (f_evt f) = k) fs in
        length (filter (\<lambda>e. fst e = k) evs) = length own div n \<and>
        concat (map snd (filter (\<lambda>e. fst e = k) evs)) = take (length own div n * n) own)"
proof -
  have b: "batch memdir n (e_world (q_env c)) = fs"
    using assms(4) unfolding batch_def by (simp add: assms(3) frames_of_def)
  have n: "0 < n" using assms(1) by (simp add: daq_inv_def Let_def)
  have "refines (d_eventMap (q_driver c)) (\<lambda>_. [])" by (simp add: assms(2) refines_empty)
  from scan_refines [OF assms(1) this b [symmetric]] obtain D en where
    r: "scan_pass (processor_ops Z hjunk) junk (q_driver c) (q_env c) = Inr (D, en)"
    "abs_log (e_log en) = abs_log (e_log (q_env c)) @ fst (build_pass n (\<lambda>_. []) fs)"
    unfolding sink.pass_result_def by blast
  obtain evs g' where bl: "build n (\<lambda>_. []) fs = (evs, g')" by (cases "build n (\<lambda>_. []) fs")
  have evs: "fst (build_pass n (\<lambda>_. []) fs) = evs" by (simp add: build_pass_def bl)
  from build_event_count(1) [OF bl n, of k] build_delivers [OF bl n assms(5)] assms(5) r show ?thesis
    by (auto simp: evs Let_def frag_key_def delivered_def)
qed



theorem scan_pass_refines_builder_witness:
  "\<exists>D en. scan_pass (processor_ops demo_zlib (\<lambda>_. 0)) (\<lambda>_ _. 0) (q_driver demo_daq) (q_env demo_daq) = Inr (D, en) \<and>
     shm_ls ''/spool'' (e_world en) = [] \<and>
     abs_log (e_log en) = fst (build_pass 1 (\<lambda>_. []) [demo_frame])"
proof -
  have "refines (d_eventMap (q_driver demo_daq)) (\<lambda>_. [])"
    by (simp add: demo_daq_def registerProcessor_def registerDataSource_def shmdriver_new_def refines_empty)
  from scan_pass_refines_builder [OF demo_daq_inv this refl, of "\<lambda>_. 0" "\<lambda>_ _. 0"]
  show ?thesis unfolding demo_listing by (auto simp: demo_daq_def abs_log_def)
qed

theorem scan_pass_delivers_witness:
  "\<exists>D en evs. scan_pass (processor_ops demo_zlib (\<lambda>_. 0)) (\<lambda>_ _. 0) (q_driver demo_daq) (q_env demo_daq) = Inr (D, en) \<and>
     abs_log (e_log en) = evs \<and> concat (map snd (filter (\<lambda>e. fst e = 3) evs)) = [demo_frame]"
proof -
  have "d_eventMap (q_driver demo_daq) = []"
    by (simp add: demo_daq_def registerProcessor_def registerDataSource_def shmdriver_new_def)
  from scan_pass_delivers [OF demo_daq_inv this demo_listing [symmetric], of 3 "\<lambda>_. 0" "\<lambda>_ _. 0"]
  show ?thesis by (auto simp: Let_def demo_daq_def abs_log_def) (auto simp: demo_frame_def)
qed

end
