(* ===== verification/File_Tailer.thy ===== *)
theory File_Tailer
  imports Stdio
begin

text \<open>
  \<^verbatim>\<open>src/fileTailer.cxx\<close>: the last lines of a file, collected in one pass with a buffer that is used
  as a ring. Pointers into the buffer are offsets, the buffer's bytes are indeterminate until
  they are written. A file is the list of its characters.
\<close>

section \<open>State\<close>

record tailer =
  t_buff :: "char option list"
  t_lines :: "(nat option \<times> nat option) list"
  t_buffp :: nat
  t_linestart :: nat
  t_wrap :: bool
  t_nfound :: nat

definition tail_init :: "nat \<Rightarrow> nat \<Rightarrow> tailer" where
  "tail_init nlines maxbuff =
     \<lparr>t_buff = replicate maxbuff None, t_lines = replicate nlines (None, None), t_buffp = 0,
      t_linestart = 0, t_wrap = False, t_nfound = 0\<rparr>"

section \<open>Operations\<close>

definition shift_lines :: "(nat option \<times> nat option) list \<Rightarrow> (nat option \<times> nat option) list res" where
  "shift_lines ls = (if ls = [] then Inl Out_Of_Bounds else Inr (tl ls @ [(None, None)]))"

definition testForRoom :: "(nat option \<times> nat option) list \<Rightarrow> nat \<Rightarrow> nat \<Rightarrow> bool res" where
  "testForRoom ls i buffp =
     (if i < length ls then Inr (\<not> (Some buffp = fst (ls ! i) \<or> Some (buffp + 1) = fst (ls ! i)))
      else Inl Out_Of_Bounds)"

text \<open>\<^verbatim>\<open>lines[nlines - 1][wrap] = p\<close>.\<close>

definition set_line :: "bool \<Rightarrow> nat \<Rightarrow> (nat option \<times> nat option) list \<Rightarrow> (nat option \<times> nat option) list res" where
  "set_line w p ls =
     (if ls = [] then Inl Out_Of_Bounds
      else Inr (butlast ls @ [if w then (fst (last ls), Some p) else (Some p, snd (last ls))]))"

definition new_line :: "nat \<Rightarrow> tailer \<Rightarrow> tailer res" where
  "new_line nlines t =
     (if t_buffp t = t_linestart t \<and> \<not> t_wrap t then
        rbind (shift_lines (t_lines t)) (\<lambda>ls.
        Inr (t\<lparr>t_nfound := (if t_nfound t < nlines then t_nfound t + 1 else t_nfound t), t_lines := ls\<rparr>))
      else Inr t)"

definition wrap_line :: "nat \<Rightarrow> tailer \<Rightarrow> tailer res" where
  "wrap_line maxbuff t =
     (if t_buffp t + 1 = maxbuff then
        rbind (poke (t_buffp t) [Some CHR 0x00] (t_buff t)) (\<lambda>b.
        rbind (set_line False (t_linestart t) (t_lines t)) (\<lambda>ls.
        Inr (t\<lparr>t_buff := b, t_lines := ls, t_wrap := True, t_buffp := 0, t_linestart := 0\<rparr>)))
      else Inr t)"

definition store_char :: "nat \<Rightarrow> char \<Rightarrow> tailer \<Rightarrow> tailer res" where
  "store_char maxbuff c t =
     rbind (poke (t_buffp t) [Some c] (t_buff t)) (\<lambda>b.
     if c = CHR 0x0A then
       rbind (poke (t_buffp t + 1) [Some CHR 0x00] b) (\<lambda>b'.
       rbind (set_line (t_wrap t) (t_linestart t) (t_lines t)) (\<lambda>ls.
       (let p = (if maxbuff \<le> t_buffp t + 2 + 1 then 0 else t_buffp t + 2) in
        Inr (t\<lparr>t_buff := b', t_lines := ls, t_wrap := False, t_buffp := p, t_linestart := p\<rparr>))))
     else Inr (t\<lparr>t_buff := b, t_buffp := t_buffp t + 1\<rparr>))"

text \<open>
  One character of the loop: \<^verbatim>\<open>fileTail\<close> stops where there is no room, \<^verbatim>\<open>findTail\<close> only says so.
  The flag of the result says that the loop goes on.
\<close>

definition tail_char :: "bool \<Rightarrow> nat \<Rightarrow> nat \<Rightarrow> char \<Rightarrow> tailer \<Rightarrow> (bool \<times> tailer) res" where
  "tail_char stop nlines maxbuff c t =
     rbind (new_line nlines t) (\<lambda>t1.
     rbind (wrap_line maxbuff t1) (\<lambda>t2.
     rbind (testForRoom (t_lines t2) (nlines - t_nfound t2) (t_buffp t2)) (\<lambda>room.
     if stop \<and> \<not> room then Inr (False, t2)
     else rbind (store_char maxbuff c t2) (\<lambda>t3. Inr (True, t3)))))"

fun tail_loop :: "bool \<Rightarrow> nat \<Rightarrow> nat \<Rightarrow> string \<Rightarrow> tailer \<Rightarrow> (bool \<times> tailer) res" where
  "tail_loop stop nlines maxbuff [] t = Inr (True, t)"
| "tail_loop stop nlines maxbuff (c # cs) t =
     rbind (tail_char stop nlines maxbuff c t) (\<lambda>(go, t').
     if go then tail_loop stop nlines maxbuff cs t' else Inr (False, t'))"

text \<open>A last line without a newline is closed, with a test of the room whose result counts only
  in \<^verbatim>\<open>findTail\<close>.\<close>

definition tail_end :: "bool \<Rightarrow> nat \<Rightarrow> tailer \<Rightarrow> tailer res" where
  "tail_end test nlines t =
     (if t_buffp t = 0 then Inr t
      else
        rbind (peek (t_buffp t - 1) 1 (t_buff t)) (\<lambda>b.
        case hd b of
          None \<Rightarrow> Inl Indeterminate
        | Some x \<Rightarrow>
            if x = CHR 0x00 then Inr t
            else
              rbind (testForRoom (t_lines t) (nlines - t_nfound t) (t_buffp t)) (\<lambda>room.
              if test \<and> \<not> room then Inr t
              else
                rbind (poke (t_buffp t) [Some CHR 0x00] (t_buff t)) (\<lambda>b'.
                rbind (set_line (t_wrap t) (t_linestart t) (t_lines t)) (\<lambda>ls.
                Inr (t\<lparr>t_buff := b', t_lines := ls\<rparr>))))))"

definition fileTail :: "nat \<Rightarrow> nat \<Rightarrow> string \<Rightarrow> tailer res" where
  "fileTail nlines maxbuff cs =
     rbind (tail_loop True nlines maxbuff cs (tail_init nlines maxbuff)) (\<lambda>(eof, t).
     if eof then tail_end False nlines t else Inr t)"

definition findTail :: "nat \<Rightarrow> nat \<Rightarrow> string \<Rightarrow> tailer res" where
  "findTail nlines maxbuff cs =
     rbind (tail_loop False nlines maxbuff cs (tail_init nlines maxbuff)) (\<lambda>(eof, t).
     tail_end True nlines t)"

text \<open>The C string at an offset; printing it as a format is determined only without a percent sign.\<close>

fun string_at :: "char option list \<Rightarrow> string res" where
  "string_at [] = Inl Out_Of_Bounds"
| "string_at (None # b) = Inl Indeterminate"
| "string_at (Some c # b) = (if c = CHR 0x00 then Inr [] else rbind (string_at b) (\<lambda>s. Inr (c # s)))"

definition print_format :: "nat \<Rightarrow> string \<Rightarrow> string res" where
  "print_format cap s = (if CHR ''%'' \<in> set s then Inl Indeterminate else sprintf_into cap s)"

text \<open>
  One turn of the output loop: for either half of a line the first half is printed. What has been
  printed so far is the text up to \<^verbatim>\<open>ib\<close>, or nothing at all.
\<close>

definition print_half :: "nat \<Rightarrow> nat \<Rightarrow> char option list \<Rightarrow> nat option \<Rightarrow> nat option \<Rightarrow> string option \<Rightarrow> string option res" where
  "print_half maxbuff cap b half first outp =
     (let ib = length (case outp of None \<Rightarrow> [] | Some s \<Rightarrow> s) in
      if half \<noteq> None \<and> ib < maxbuff then
        (case first of
           None \<Rightarrow> Inl Bad_Pointer
         | Some p \<Rightarrow>
             rbind (string_at (drop p b)) (\<lambda>s.
             rbind (print_format (cap - ib) s) (\<lambda>s'.
             Inr (Some ((case outp of None \<Rightarrow> [] | Some s \<Rightarrow> s) @ s')))))
      else Inr outp)"

definition print_line :: "nat \<Rightarrow> nat \<Rightarrow> char option list \<Rightarrow> nat option \<times> nat option \<Rightarrow> string option \<Rightarrow> string option res" where
  "print_line maxbuff cap b l outp =
     rbind (print_half maxbuff cap b (fst l) (fst l) outp) (\<lambda>o1.
     print_half maxbuff cap b (snd l) (fst l) o1)"

text \<open>\<^verbatim>\<open>tail\<close>: a file that cannot be opened is read through a null pointer.\<close>

definition tail_file :: "nat \<Rightarrow> nat \<Rightarrow> string option \<Rightarrow> nat \<Rightarrow> string option res" where
  "tail_file maxbuff nlines file cap =
     (case file of
        None \<Rightarrow> Inl Bad_Pointer
      | Some cs \<Rightarrow>
          rbind (fileTail nlines maxbuff cs) (\<lambda>t.
          rfold (print_line maxbuff cap (t_buff t)) (t_lines t) None))"

section \<open>No access outside the arrays\<close>

definition tail_ok :: "nat \<Rightarrow> nat \<Rightarrow> tailer \<Rightarrow> bool" where
  "tail_ok nlines maxbuff t \<longleftrightarrow>
     length (t_buff t) = maxbuff \<and> length (t_lines t) = nlines \<and> t_buffp t < maxbuff \<and>
     t_nfound t \<le> nlines \<and> (t_nfound t = 0 \<longrightarrow> t_buffp t = t_linestart t \<and> \<not> t_wrap t \<and> t_buffp t = 0) \<and>
     (t_buffp t \<noteq> 0 \<longrightarrow> t_buff t ! (t_buffp t - 1) \<noteq> None)"

lemma nth_overwrite:
  "off + length bs \<le> length m \<Longrightarrow> i < length m \<Longrightarrow>
     overwrite off bs m ! i = (if off \<le> i \<and> i < off + length bs then bs ! (i - off) else m ! i)"
  by (auto simp: overwrite_def nth_append)

lemma set_line_ok: "ls \<noteq> [] \<Longrightarrow> \<exists>ls'. set_line w p ls = Inr ls' \<and> length ls' = length ls"
  by (simp add: set_line_def)

lemma new_line_ok:
  assumes "tail_ok n m t" and "0 < n"
  shows "\<exists>t1. new_line n t = Inr t1 \<and> tail_ok n m t1 \<and> 0 < t_nfound t1"
proof (cases "t_buffp t = t_linestart t \<and> \<not> t_wrap t")
  case True
  with assms show ?thesis by (auto simp: new_line_def shift_lines_def tail_ok_def)
next
  case False
  with assms show ?thesis by (auto simp: new_line_def tail_ok_def)
qed

lemma wrap_line_ok:
  assumes "tail_ok n m t" and "0 < t_nfound t" and "2 \<le> m"
  shows "\<exists>t1. wrap_line m t = Inr t1 \<and> tail_ok n m t1 \<and> 0 < t_nfound t1 \<and> t_buffp t1 + 1 < m"
proof (cases "t_buffp t + 1 = m")
  case True
  from assms have "t_lines t \<noteq> []" by (auto simp: tail_ok_def)
  from set_line_ok [OF this, of False "t_linestart t"] True assms show ?thesis
    by (auto simp: wrap_line_def tail_ok_def nth_overwrite)
next
  case False
  with assms show ?thesis by (auto simp: wrap_line_def tail_ok_def)
qed

lemma store_char_ok:
  assumes "tail_ok n m t" and "0 < t_nfound t" and "t_buffp t + 1 < m"
  shows "\<exists>t1. store_char m c t = Inr t1 \<and> tail_ok n m t1"
proof -
  from assms have "t_lines t \<noteq> []" by (auto simp: tail_ok_def)
  from set_line_ok [OF this, of "t_wrap t" "t_linestart t"] assms show ?thesis
    by (auto simp: store_char_def tail_ok_def Let_def nth_overwrite)
qed

lemma tail_char_ok:
  assumes "tail_ok n m t" and "0 < n" and "2 \<le> m"
  shows "\<exists>go t1. tail_char stop n m c t = Inr (go, t1) \<and> tail_ok n m t1 \<and> 0 < t_nfound t1"
proof -
  from new_line_ok [OF assms(1,2)] obtain t1 where t1: "new_line n t = Inr t1" "tail_ok n m t1" "0 < t_nfound t1" by blast
  from wrap_line_ok [OF t1(2,3) assms(3)] obtain t2 where
    t2: "wrap_line m t1 = Inr t2" "tail_ok n m t2" "0 < t_nfound t2" "t_buffp t2 + 1 < m" by blast
  have room: "\<exists>r. testForRoom (t_lines t2) (n - t_nfound t2) (t_buffp t2) = Inr r"
    using t2(2,3) assms(2) by (simp add: testForRoom_def tail_ok_def)
  from store_char_ok [OF t2(2-4)] obtain t3 where t3: "store_char m c t2 = Inr t3" "tail_ok n m t3" by blast
  have "t_nfound t3 = t_nfound t2" using t3(1) by (auto simp: store_char_def Let_def split: if_splits)
  with t1 t2 t3 room show ?thesis by (auto simp: tail_char_def)
qed

lemma tail_loop_ok:
  assumes "tail_ok n m t" and "0 < n" and "2 \<le> m"
  shows "\<exists>eof t1. tail_loop stop n m cs t = Inr (eof, t1) \<and> tail_ok n m t1"
  using assms(1)
proof (induction cs arbitrary: t)
  case Nil
  then show ?case by auto
next
  case (Cons c cs)
  from tail_char_ok [OF Cons.prems assms(2,3), of stop c] obtain go t1 where
    t1: "tail_char stop n m c t = Inr (go, t1)" "tail_ok n m t1" by blast
  from Cons.IH [OF t1(2)] t1 show ?case by auto
qed

lemma tail_end_ok:
  assumes "tail_ok n m t" and "0 < n"
  shows "\<exists>t1. tail_end test n t = Inr t1"
proof (cases "t_buffp t = 0")
  case True
  then show ?thesis by (simp add: tail_end_def)
next
  case False
  with assms have b: "peek (t_buffp t - 1) 1 (t_buff t) = Inr [t_buff t ! (t_buffp t - 1)]"
    by (auto simp: tail_ok_def peek_def chunk_def take_Suc_conv_app_nth)
  from False assms obtain x where x: "t_buff t ! (t_buffp t - 1) = Some x" by (auto simp: tail_ok_def)
  have "0 < t_nfound t" using False assms by (auto simp: tail_ok_def)
  then have r: "\<exists>r. testForRoom (t_lines t) (n - t_nfound t) (t_buffp t) = Inr r"
    using assms by (simp add: testForRoom_def tail_ok_def)
  have "t_lines t \<noteq> []" using assms by (auto simp: tail_ok_def)
  from set_line_ok [OF this, of "t_wrap t" "t_linestart t"] r b x assms show ?thesis
    by (auto simp: tail_end_def tail_ok_def)
qed

lemma tail_ok_init: "2 \<le> m \<Longrightarrow> tail_ok n m (tail_init n m)"
  by (simp add: tail_ok_def tail_init_def)


section \<open>A file that fits the buffer\<close>

text \<open>The lines of a text, each with its newline; the last may have none.\<close>

fun add_char :: "string list \<times> string \<Rightarrow> char \<Rightarrow> string list \<times> string" where
  "add_char (L, s) c = (if c = CHR 0x0A then (L @ [s @ [c]], []) else (L, s @ [c]))"

definition split_lines :: "string \<Rightarrow> string list \<times> string" where
  "split_lines cs = foldl add_char ([], []) cs"

definition text_lines :: "string \<Rightarrow> string list" where
  "text_lines cs = (let (L, s) = split_lines cs in L @ (if s = [] then [] else [s]))"

definition last_n :: "nat \<Rightarrow> 'a list \<Rightarrow> 'a list" where
  "last_n n xs = drop (length xs - n) xs"

definition stored :: "string list \<Rightarrow> string" where
  "stored L = concat (map (\<lambda>l. l @ [CHR 0x00]) L)"

fun offsets :: "nat \<Rightarrow> string list \<Rightarrow> nat list" where
  "offsets k [] = []"
| "offsets k (l # L) = k # offsets (k + length l + 1) L"

definition ptr :: "nat \<Rightarrow> nat option \<times> nat option" where
  "ptr k = (Some k, None)"

text \<open>The state of the pass after complete lines and the start of another, before any wrap.\<close>

definition line_ptrs :: "nat \<Rightarrow> (nat option \<times> nat option) list \<Rightarrow> (nat option \<times> nat option) list" where
  "line_ptrs n ps = last_n n (replicate n (None, None) @ ps)"

definition plain :: "nat \<Rightarrow> nat \<Rightarrow> string list \<Rightarrow> string \<Rightarrow> tailer" where
  "plain n m L s =
     \<lparr>t_buff = map Some (stored L @ s) @ replicate (m - length (stored L @ s)) None,
      t_lines = line_ptrs n (map ptr (offsets 0 L) @ (if s = [] then [] else [(None, None)])),
      t_buffp = length (stored L @ s), t_linestart = length (stored L), t_wrap = False,
      t_nfound = min n (length L + (if s = [] then 0 else 1))\<rparr>"

lemma stored_append: "stored (L @ [l]) = stored L @ l @ [CHR 0x00]"
  by (simp add: stored_def)

lemma offsets_append: "offsets k (L @ [l]) = offsets k L @ [k + length (stored L)]"
  by (induction L arbitrary: k) (simp_all add: stored_def)

lemma length_offsets [simp]: "length (offsets k L) = length L"
  by (induction L arbitrary: k) simp_all

lemma offsets_less: "o1 \<in> set (offsets k L) \<Longrightarrow> o1 < k + length (stored L)"
  by (induction L arbitrary: k) (fastforce simp: stored_def)+

lemma length_line_ptrs [simp]: "length (line_ptrs n ps) = n"
  by (simp add: line_ptrs_def last_n_def)

lemma tl_drop_append: "k < length xs \<Longrightarrow> tl (drop k xs) @ [p] = drop (Suc k) (xs @ [p])"
  by (simp add: drop_Suc tl_drop)

lemma line_ptrs_alt: "line_ptrs n ps = drop (length ps) (replicate n (None, None) @ ps)"
  by (simp add: line_ptrs_def last_n_def)

lemma line_ptrs_shift: "0 < n \<Longrightarrow> tl (line_ptrs n ps) @ [p] = line_ptrs n (ps @ [p])"
  using tl_drop_append [of "length ps" "replicate n (None, None) @ ps" p] by (simp add: line_ptrs_alt del: drop_append)

lemma line_ptrs_last: "0 < n \<Longrightarrow> butlast (line_ptrs n (ps @ [p])) @ [q] = line_ptrs n (ps @ [q])"
  by (simp add: line_ptrs_def last_n_def butlast_append butlast_conv_take)

lemma last_line_ptrs: "0 < n \<Longrightarrow> last (line_ptrs n (ps @ [p])) = p"
  by (simp add: line_ptrs_def last_n_def)

lemma set_line_ptrs: "set (line_ptrs n ps) \<subseteq> insert (None, None) (set ps)"
  by (auto simp: line_ptrs_def last_n_def dest: in_set_dropD)

lemma overwrite_next:
  assumes "length xs + length ys \<le> m"
  shows "overwrite (length xs) (map Some ys) (map Some xs @ replicate (m - length xs) None) =
     map Some (xs @ ys) @ replicate (m - length (xs @ ys)) None"
  using assms by (simp add: overwrite_def)

lemma plain_room:
  assumes "i < n"
  shows "testForRoom (line_ptrs n (map ptr (offsets 0 L) @ [(None, None)])) i (length (stored L @ s)) = Inr True"
proof -
  let ?ls = "line_ptrs n (map ptr (offsets 0 L) @ [(None, None)])"
  have "?ls ! i \<in> set ?ls" using assms by (intro nth_mem) simp
  then have "?ls ! i = (None, None) \<or> (\<exists>k \<in> set (offsets 0 L). ?ls ! i = ptr k)"
    using set_line_ptrs [of n "map ptr (offsets 0 L) @ [(None, None)]"] by auto
  then show ?thesis
    using assms by (fastforce simp: testForRoom_def ptr_def dest: offsets_less)
qed

text \<open>The state inside a character's turn: the entry of the current line has been made.\<close>

lemma plain_new_line:
  assumes "0 < n"
  shows "new_line n (plain n m L s) =
     Inr ((plain n m L s)\<lparr>t_lines := line_ptrs n (map ptr (offsets 0 L) @ [(None, None)]),
            t_nfound := min n (length L + 1)\<rparr>)"
proof (cases "s = []")
  case True
  have "line_ptrs n (map ptr (offsets 0 L)) \<noteq> []" using assms by (metis length_line_ptrs list.size(3) less_nat_zero_code)
  with True assms show ?thesis
    by (auto simp: new_line_def plain_def shift_lines_def line_ptrs_shift)
next
  case False
  then show ?thesis by (simp add: new_line_def plain_def)
qed

lemma plain_char:
  assumes "0 < n" and "length (stored L @ s) + 3 < m"
  shows "tail_char stop n m c (plain n m L s) =
     Inr (True, case add_char (L, s) c of (L', s') \<Rightarrow> plain n m L' s')"
proof -
  let ?t = "(plain n m L s)\<lparr>t_lines := line_ptrs n (map ptr (offsets 0 L) @ [(None, None)]),
            t_nfound := min n (length L + 1)\<rparr>"
  have wrap: "wrap_line m ?t = Inr ?t" using assms(2) by (simp add: wrap_line_def plain_def)
  have room: "testForRoom (t_lines ?t) (n - t_nfound ?t) (t_buffp ?t) = Inr True"
    using plain_room [of "n - min n (length L + 1)" n L s] assms(1) by (simp add: plain_def)
  have one: "poke (length (stored L @ s)) [Some c] (t_buff ?t) =
      Inr (map Some ((stored L @ s) @ [c]) @ replicate (m - length ((stored L @ s) @ [c])) None)"
    using overwrite_next [of "stored L @ s" "[c]" m] assms(2) by (simp add: plain_def)
  have "store_char m c ?t = Inr (case add_char (L, s) c of (L', s') \<Rightarrow> plain n m L' s')"
  proof (cases "c = CHR 0x0A")
    case False
    with one show ?thesis by (simp add: store_char_def plain_def)
  next
    case True
    have two: "poke (length (stored L @ s) + 1) [Some CHR 0x00]
        (map Some ((stored L @ s) @ [c]) @ replicate (m - length ((stored L @ s) @ [c])) None) =
        Inr (map Some ((stored L @ s @ [c]) @ [CHR 0x00]) @ replicate (m - length ((stored L @ s @ [c]) @ [CHR 0x00])) None)"
      using overwrite_next [of "stored L @ s @ [c]" "[CHR 0x00]" m] assms(2) by simp
    have ne: "line_ptrs n (map ptr (offsets 0 L) @ [(None, None)]) \<noteq> []"
      using assms(1) by (metis length_line_ptrs list.size(3) less_nat_zero_code)
    have line: "set_line False (length (stored L)) (line_ptrs n (map ptr (offsets 0 L) @ [(None, None)])) =
        Inr (line_ptrs n (map ptr (offsets 0 (L @ [s @ [c]]))))"
      using line_ptrs_last [OF assms(1), of "map ptr (offsets 0 L)" "(None, None)" "ptr (length (stored L))"]
      by (simp add: set_line_def ne last_line_ptrs [OF assms(1)] offsets_append ptr_def)
    show ?thesis
      using True one two line assms(2)
      by (simp add: store_char_def plain_def Let_def stored_append)
  qed
  with plain_new_line [OF assms(1), of m L s] wrap room show ?thesis by (simp add: tail_char_def)
qed

definition newlines :: "string \<Rightarrow> nat" where
  "newlines cs = length (filter (\<lambda>c. c = CHR 0x0A) cs)"

lemma plain_loop:
  assumes "0 < n" and "length (stored L @ s) + length cs + newlines cs + 2 < m"
  shows "tail_loop stop n m cs (plain n m L s) =
     Inr (True, case foldl add_char (L, s) cs of (L', s') \<Rightarrow> plain n m L' s')"
  using assms(2)
proof (induction cs arbitrary: L s)
  case Nil
  then show ?case by simp
next
  case (Cons c cs)
  obtain L' s' where a: "add_char (L, s) c = (L', s')" by fastforce
  then have "length (stored L' @ s') = length (stored L @ s) + 1 + (if c = CHR 0x0A then 1 else 0)"
    by (auto simp: stored_append split: if_splits)
  then have "length (stored L' @ s') + length cs + newlines cs + 2 < m"
    using Cons.prems by (simp add: newlines_def split: if_splits)
  from Cons.IH [OF this] plain_char [OF assms(1), of L s m stop c] Cons.prems a show ?case by simp
qed

lemma add_chars_text: "foldl add_char (L, s) cs = (L', s') \<Longrightarrow> concat L' @ s' = concat L @ s @ cs"
proof (induction cs arbitrary: L s)
  case Nil
  then show ?case by simp
next
  case (Cons c cs)
  then show ?case by (cases "c = CHR 0x0A") auto
qed

lemma text_lines_concat: "concat (text_lines cs) = cs"
  using add_chars_text [of "[]" "[]" cs] by (auto simp: text_lines_def split_lines_def split: prod.splits)

definition collected :: "nat \<Rightarrow> string list \<Rightarrow> tailer \<Rightarrow> bool" where
  "collected n A t \<longleftrightarrow> (\<exists>r. t_buff t = map Some (stored A) @ r) \<and> t_lines t = line_ptrs n (map ptr (offsets 0 A))"

lemma line_ptrs_empty: "line_ptrs n [] = replicate n (None, None)"
  by (simp add: line_ptrs_def last_n_def)

lemma stored_last: "stored A \<noteq> [] \<Longrightarrow> last (stored A) = CHR 0x00"
  by (cases A rule: rev_cases) (simp_all add: stored_append, simp add: stored_def)

lemma peek_last: "xs \<noteq> [] \<Longrightarrow> peek (length xs - 1) 1 (map Some xs @ r) = Inr [Some (last xs)]"
  by (cases xs rule: rev_cases) (simp_all add: peek_def chunk_def)

lemma plain_end:
  assumes "0 < n" and "length (stored L @ s) + 1 < m" and "CHR 0x00 \<notin> set s"
  shows "\<exists>t. tail_end False n (plain n m L s) = Inr t \<and> collected n (L @ (if s = [] then [] else [s])) t"
proof (cases "s = []")
  case True
  then have "tail_end False n (plain n m L s) = Inr (plain n m L s)"
    using peek_last [of "stored L"] stored_last [of L] by (simp add: tail_end_def plain_def)
  moreover have "collected n L (plain n m L s)" using True by (auto simp: collected_def plain_def)
  ultimately show ?thesis using True by simp
next
  case False
  let ?xs = "stored L @ s"
  let ?r = "replicate (m - length ?xs) (None :: char option)"
  have b: "peek (length ?xs - 1) 1 (map Some ?xs @ ?r) = Inr [Some (last s)]"
    using peek_last [of ?xs] False by simp
  have "last s \<in> set s" using False by simp
  with assms(3) have z: "last s \<noteq> CHR 0x00" by auto
  have room: "testForRoom (line_ptrs n (map ptr (offsets 0 L) @ [(None, None)])) (n - min n (length L + 1)) (length ?xs) = Inr True"
    by (rule plain_room) (use assms(1) in simp)
  have w: "poke (length ?xs) [Some CHR 0x00] (map Some ?xs @ ?r) =
      Inr (map Some (?xs @ [CHR 0x00]) @ replicate (m - length (?xs @ [CHR 0x00])) None)"
    using overwrite_next [of ?xs "[CHR 0x00]" m] assms(2) by simp
  have ne: "line_ptrs n (map ptr (offsets 0 L) @ [(None, None)]) \<noteq> []"
    using assms(1) by (metis length_line_ptrs list.size(3) less_nat_zero_code)
  have line: "set_line False (length (stored L)) (line_ptrs n (map ptr (offsets 0 L) @ [(None, None)])) =
      Inr (line_ptrs n (map ptr (offsets 0 (L @ [s]))))"
    using line_ptrs_last [OF assms(1), of "map ptr (offsets 0 L)" "(None, None)" "ptr (length (stored L))"]
    by (simp add: set_line_def ne last_line_ptrs [OF assms(1)] offsets_append ptr_def)
  have p: "plain n m L s = \<lparr>t_buff = map Some ?xs @ ?r, t_lines = line_ptrs n (map ptr (offsets 0 L) @ [(None, None)]),
      t_buffp = length ?xs, t_linestart = length (stored L), t_wrap = False, t_nfound = min n (length L + 1)\<rparr>"
    using False by (simp add: plain_def)
  have "length ?xs \<noteq> 0" using False by simp
  then have "tail_end False n (plain n m L s) = Inr ((plain n m L s)
      \<lparr>t_buff := map Some (?xs @ [CHR 0x00]) @ replicate (m - length (?xs @ [CHR 0x00])) None,
       t_lines := line_ptrs n (map ptr (offsets 0 (L @ [s])))\<rparr>)"
    unfolding tail_end_def p tailer.simps by (simp only: b room w line rbind_simps list.sel option.case z if_False) simp
  then show ?thesis using False by (auto simp: collected_def stored_append)
qed

lemma fileTail_collects:
  assumes "0 < n" and "length cs + newlines cs + 2 < m" and "CHR 0x00 \<notin> set cs"
  shows "\<exists>t. fileTail n m cs = Inr t \<and> collected n (text_lines cs) t"
proof -
  obtain L s where f: "split_lines cs = (L, s)" by fastforce
  have i: "tail_init n m = plain n m [] []"
    by (simp add: tail_init_def plain_def stored_def line_ptrs_empty)
  have "length (stored [] @ []) + length cs + newlines cs + 2 < m" using assms(2) by (simp add: stored_def)
  from plain_loop [OF assms(1) this, of True] f
  have l: "tail_loop True n m cs (tail_init n m) = Inr (True, plain n m L s)" by (simp add: i split_lines_def)
  have "set s \<subseteq> set cs" using add_chars_text [of "[]" "[]" cs L s] f by (auto simp: split_lines_def)
  then have z: "CHR 0x00 \<notin> set s" using assms(3) by auto
  have len: "foldl add_char (L0, s0) xs = (L, s) \<Longrightarrow>
      length (stored L @ s) = length (stored L0 @ s0) + length xs + newlines xs" for xs L0 s0
  proof (induction xs arbitrary: L0 s0)
    case Nil
    then show ?case by (simp add: newlines_def)
  next
    case (Cons x xs)
    then show ?case
      by (cases "x = CHR 0x0A") (auto simp: newlines_def stored_append)
  qed
  from len [of "[]" "[]" cs] f have "length (stored L @ s) + 1 < m" using assms(2) by (simp add: split_lines_def stored_def)
  from plain_end [OF assms(1) this z] l f show ?thesis by (auto simp: fileTail_def text_lines_def)
qed

section \<open>What is printed\<close>

lemma string_at_stored: "CHR 0x00 \<notin> set l \<Longrightarrow> string_at (map Some l @ Some CHR 0x00 # r) = Inr l"
  by (induction l) auto

lemma print_nothing: "rfold (print_line m cap b) (replicate j (None, None)) outp = Inr outp"
  by (induction j) (simp_all add: print_line_def print_half_def)

lemma print_lines:
  assumes "CHR ''%'' \<notin> set (concat A)" and "CHR 0x00 \<notin> set (concat A)"
    and "length (case outp of None \<Rightarrow> [] | Some s \<Rightarrow> s) + length (concat A) < m" and "m \<le> cap"
    and "b = map Some (stored B @ stored A) @ r"
  shows "rfold (print_line m cap b) (map ptr (offsets (length (stored B)) A)) outp =
     Inr (if A = [] then outp else Some ((case outp of None \<Rightarrow> [] | Some s \<Rightarrow> s) @ concat A))"
  using assms(1,2,3,5)
proof (induction A arbitrary: B outp)
  case Nil
  then show ?case by simp
next
  case (Cons l A)
  let ?o = "case outp of None \<Rightarrow> [] | Some s \<Rightarrow> s"
  have "drop (length (stored B)) b = map Some l @ Some CHR 0x00 # map Some (stored A) @ r"
    using Cons.prems(4) by (simp add: stored_def)
  then have "string_at (drop (length (stored B)) b) = Inr l" using string_at_stored Cons.prems(2) by simp
  moreover have "print_format (cap - length ?o) l = Inr l"
    using Cons.prems(1,3) assms(4) by (simp add: print_format_def sprintf_into_def)
  ultimately have p: "print_line m cap b (ptr (length (stored B))) outp = Inr (Some (?o @ l))"
    using Cons.prems(3) by (simp add: print_line_def print_half_def ptr_def Let_def)
  have k: "length (stored B) + length l + 1 = length (stored (B @ [l]))" by (simp add: stored_append)
  have "rfold (print_line m cap b) (map ptr (offsets (length (stored (B @ [l]))) A)) (Some (?o @ l)) =
      Inr (if A = [] then Some (?o @ l) else Some ((?o @ l) @ concat A))"
    using Cons.IH [of "Some (?o @ l)" "B @ [l]"] Cons.prems by (simp add: stored_def)
  with p show ?case by (simp add: k del: One_nat_def add_Suc_right)
qed

lemma offsets_drop: "drop d (offsets k A) = offsets (k + length (stored (take d A))) (drop d A)"
proof (induction A arbitrary: k d)
  case Nil
  then show ?case by (simp add: stored_def)
next
  case (Cons l A)
  then show ?case by (cases d) (simp_all add: stored_def add.assoc)
qed

lemma line_ptrs_offsets:
  "line_ptrs n (map ptr (offsets 0 A)) =
     replicate (n - length A) (None, None) @
     map ptr (offsets (length (stored (take (length A - n) A))) (last_n n A))"
  using offsets_drop [of "length A - n" 0 A] by (simp add: line_ptrs_def last_n_def drop_map)

section \<open>Properties\<close>

text \<open>
  C32: the tail of a file is its last lines: when the file fits the buffer (its characters, one
  zero for each line and three more), has no zero and no percent sign, \<^verbatim>\<open>tail\<close> writes exactly the
  last \<^verbatim>\<open>nlines\<close> lines in their order to a caller's array of that size, and nothing when the file
  is empty. A file that cannot be opened is read through a null pointer.
\<close>

theorem tail_last_lines:
  assumes "0 < nlines" and "length cs + newlines cs + 2 < maxbuff" and "maxbuff \<le> cap"
    and "CHR 0x00 \<notin> set cs" and "CHR ''%'' \<notin> set cs"
  shows "tail_file maxbuff nlines (Some cs) cap =
       Inr (if cs = [] then None else Some (concat (last_n nlines (text_lines cs)))) \<and>
     tail_file maxbuff nlines None cap = Inl Bad_Pointer"
proof -
  let ?A = "text_lines cs"
  from fileTail_collects [OF assms(1,2,4)] obtain t r where t: "fileTail nlines maxbuff cs = Inr t"
    "t_buff t = map Some (stored ?A) @ r" "t_lines t = line_ptrs nlines (map ptr (offsets 0 ?A))"
    by (auto simp: collected_def)
  have cat: "concat (take (length ?A - nlines) ?A) @ concat (last_n nlines ?A) = cs"
    by (simp add: last_n_def concat_append [symmetric] text_lines_concat del: concat_append)
  have sub: "set (concat (last_n nlines ?A)) \<subseteq> set cs" by (subst cat [symmetric]) simp
  have len: "length (concat (last_n nlines ?A)) < maxbuff" using arg_cong [OF cat, of length] assms(2) by simp
  have buf: "t_buff t = map Some (stored (take (length ?A - nlines) ?A) @ stored (last_n nlines ?A)) @ r"
    using t(2) by (simp add: stored_def last_n_def flip: map_append concat_append)
  have clean: "CHR ''%'' \<notin> set (concat (last_n nlines ?A))" "CHR 0x00 \<notin> set (concat (last_n nlines ?A))"
    using sub assms(4,5) by blast+
  have "rfold (print_line maxbuff cap (t_buff t))
      (map ptr (offsets (length (stored (take (length ?A - nlines) ?A))) (last_n nlines ?A))) None =
      Inr (if last_n nlines ?A = [] then None else Some (concat (last_n nlines ?A)))"
    using print_lines [where outp = None, OF clean _ assms(3) buf] len by (simp del: set_concat)
  then have "rfold (print_line maxbuff cap (t_buff t)) (t_lines t) None =
      Inr (if last_n nlines ?A = [] then None else Some (concat (last_n nlines ?A)))"
    by (simp add: t(3) line_ptrs_offsets rfold_append print_nothing)
  moreover have "last_n nlines ?A = [] \<longleftrightarrow> cs = []"
  proof
    assume "last_n nlines ?A = []"
    with assms(1) have "length ?A = 0" by (simp add: last_n_def del: length_0_conv)
    with text_lines_concat [of cs] show "cs = []" by simp
  next
    assume "cs = []"
    then show "last_n nlines ?A = []" by (simp add: last_n_def text_lines_def split_lines_def)
  qed
  ultimately show ?thesis using t(1) by (simp add: tail_file_def)
qed

text \<open>
  A line that the end of the buffer cuts is not printed as it was: its first half is printed
  twice and its second half is left out; with an older line still in the way the pass stops there.
\<close>

theorem wrapped_line_repeats:
  "tail_file 8 1 (Some (''abc'' @ [CHR 0x0A] @ ''defg'' @ [CHR 0x0A])) 100 = Inr (Some ''dede'') \<and>
   tail_file 8 2 (Some (''abc'' @ [CHR 0x0A] @ ''defg'' @ [CHR 0x0A])) 100 =
     Inr (Some (''abc'' @ [CHR 0x0A] @ ''de''))"
  by code_simp

section \<open>Witnesses\<close>


theorem tail_last_lines_witness:
  "tail_file 64 1 (Some (''abc'' @ [CHR 0x0A] @ ''defg'')) 64 = Inr (Some ''defg'')"
proof -
  have l: "concat (last_n 1 (text_lines (''abc'' @ [CHR 0x0A] @ ''defg''))) = ''defg''" by code_simp
  have "0 < (1 :: nat)" and "length (''abc'' @ [CHR 0x0A] @ ''defg'') + newlines (''abc'' @ [CHR 0x0A] @ ''defg'') + 2 < 64"
    and "64 \<le> (64 :: nat)" and "CHR 0x00 \<notin> set (''abc'' @ [CHR 0x0A] @ ''defg'')"
    and "CHR ''%'' \<notin> set (''abc'' @ [CHR 0x0A] @ ''defg'')"
    by (simp_all add: newlines_def)
  from tail_last_lines [OF this] show ?thesis unfolding l by simp
qed

end
