(* ===== verification/Json_Lib.thy ===== *)
theory Json_Lib
  imports Stdio
begin

text \<open>
  The JSON library the control components call (jsoncpp) is not in the repository: its
  operations are a record of parameters, what its documentation promises of them a named
  hypothesis. \<open>j_object\<close> says that a value is null or an object, the values whose members can
  be read and written with \<^verbatim>\<open>v[key]\<close> (on any other the library throws; a member that is not
  there reads as null). The reader is applied to a cleared value. The last section gives the
  hypothesis a concrete instance.
\<close>

section \<open>Operations\<close>

record 'j jsonlib =
  j_null :: 'j
  j_str :: "string \<Rightarrow> 'j"
  j_int :: "int \<Rightarrow> 'j"
  j_object :: "'j \<Rightarrow> bool"
  j_get :: "string \<Rightarrow> 'j \<Rightarrow> 'j res"
  j_set :: "string \<Rightarrow> 'j \<Rightarrow> 'j \<Rightarrow> 'j res"
  j_asString :: "'j \<Rightarrow> string res"
  j_asInt :: "'j \<Rightarrow> int res"
  j_asUInt :: "'j \<Rightarrow> u32 res"
  j_isNull :: "'j \<Rightarrow> bool"
  j_isMember :: "string \<Rightarrow> 'j \<Rightarrow> bool res"
  j_names :: "'j \<Rightarrow> string list res"
  j_append :: "'j \<Rightarrow> 'j \<Rightarrow> 'j res"
  j_elems :: "'j \<Rightarrow> 'j list"
  j_size :: "'j \<Rightarrow> nat"
  j_at :: "nat \<Rightarrow> 'j \<Rightarrow> 'j res"
  j_clear :: "'j \<Rightarrow> 'j res"
  j_parse :: "string \<Rightarrow> 'j"
  j_parses :: "string \<Rightarrow> bool"
  j_write :: "'j \<Rightarrow> string"

text \<open>\<^verbatim>\<open>v[k1][k2]=x\<close>.\<close>

definition j_set2 :: "'j jsonlib \<Rightarrow> string \<Rightarrow> string \<Rightarrow> 'j \<Rightarrow> 'j \<Rightarrow> 'j res" where
  "j_set2 J k1 k2 x v =
     rbind (j_get J k1 v) (\<lambda>m. rbind (j_set J k2 x m) (\<lambda>m'. j_set J k1 m' v))"

text \<open>\<^verbatim>\<open>v[k].asString()\<close> and \<^verbatim>\<open>v[k].asInt()\<close>.\<close>

definition content_string :: "'j jsonlib \<Rightarrow> string \<Rightarrow> 'j \<Rightarrow> string res" where
  "content_string J k jcr = rbind (j_get J k jcr) (j_asString J)"

definition content_int :: "'j jsonlib \<Rightarrow> string \<Rightarrow> 'j \<Rightarrow> int res" where
  "content_int J k v = rbind (j_get J k v) (j_asInt J)"

definition null_law :: "'j jsonlib \<Rightarrow> bool" where
  "null_law J \<longleftrightarrow> j_object J (j_null J) \<and> (\<forall>k. j_get J k (j_null J) = Inr (j_null J)) \<and>
     (\<forall>v. j_isNull J v \<longleftrightarrow> v = j_null J) \<and> (\<forall>s. j_asString J (j_str J s) = Inr s)"

definition int_law :: "'j jsonlib \<Rightarrow> bool" where
  "int_law J \<longleftrightarrow> (\<forall>i. j_asInt J (j_int J i) = Inr i \<and>
     j_asUInt J (j_int J i) = (if 0 \<le> i \<and> i < 2 ^ 32 then Inr (word_of_int i) else Inl Thrown))"

definition member_law :: "'j jsonlib \<Rightarrow> bool" where
  "member_law J \<longleftrightarrow>
     (\<forall>k. j_isMember J k (j_null J) = Inr False) \<and>
     (\<forall>k v x v'. j_set J k x v = Inr v' \<longrightarrow> j_isMember J k v' = Inr True \<and>
        (\<forall>k'. k' \<noteq> k \<longrightarrow> j_isMember J k' v' = j_isMember J k' v)) \<and>
     (\<forall>k v. j_object J v \<longrightarrow> (\<exists>b. j_isMember J k v = Inr b)) \<and>
     (\<forall>k v. \<not> j_object J v \<longrightarrow> j_isMember J k v = Inl Thrown)"

definition set_law :: "'j jsonlib \<Rightarrow> bool" where
  "set_law J \<longleftrightarrow> (\<forall>k v x. j_object J v \<longrightarrow>
     (\<exists>v'. j_set J k x v = Inr v' \<and> j_object J v' \<and> j_get J k v' = Inr x \<and>
        (\<forall>k'. k' \<noteq> k \<longrightarrow> j_get J k' v' = j_get J k' v)))"

definition get_law :: "'j jsonlib \<Rightarrow> bool" where
  "get_law J \<longleftrightarrow> (\<forall>k v. (\<exists>m. j_get J k v = Inr m) \<longleftrightarrow> j_object J v)"

definition throw_law :: "'j jsonlib \<Rightarrow> bool" where
  "throw_law J \<longleftrightarrow> (\<forall>k v x. \<not> j_object J v \<longrightarrow>
     j_get J k v = Inl Thrown \<and> j_set J k x v = Inl Thrown)"

definition text_law :: "'j jsonlib \<Rightarrow> bool" where
  "text_law J \<longleftrightarrow> (\<forall>v. j_object J v \<longrightarrow> (\<exists>v'. j_clear J v = Inr v') \<and>
     j_parse J (j_write J v) = v \<and> j_parses J (j_write J v))"

definition array_law :: "'j jsonlib \<Rightarrow> bool" where
  "array_law J \<longleftrightarrow> j_elems J (j_null J) = [] \<and>
     (\<forall>v. v = j_null J \<or> j_elems J v \<noteq> [] \<longrightarrow> j_size J v = length (j_elems J v) \<and>
        (\<forall>i < length (j_elems J v). j_at J i v = Inr (j_elems J v ! i))) \<and>
     (\<forall>x v. v = j_null J \<or> j_elems J v \<noteq> [] \<longrightarrow>
        (\<exists>v'. j_append J v x = Inr v' \<and> j_elems J v' = j_elems J v @ [x]))"

definition json_ok :: "'j jsonlib \<Rightarrow> bool" where
  "json_ok J \<longleftrightarrow>
     null_law J \<and> int_law J \<and> set_law J \<and> get_law J \<and> member_law J \<and> throw_law J \<and>
     text_law J \<and> array_law J"

section \<open>Consequences\<close>

lemma json_null:
  assumes "json_ok J"
  shows "j_object J (j_null J)" and "j_get J k (j_null J) = Inr (j_null J)"
    and "j_asString J (j_str J s) = Inr s" and "j_elems J (j_null J) = []"
    and "j_isNull J v \<longleftrightarrow> v = j_null J"
  using assms by (simp_all add: json_ok_def null_law_def array_law_def)

lemma json_set:
  assumes "json_ok J" and "j_object J v"
  obtains v' where "j_set J k x v = Inr v'" "j_object J v'" "j_get J k v' = Inr x"
    "\<And>k'. k' \<noteq> k \<Longrightarrow> j_get J k' v' = j_get J k' v"
proof -
  from assms(1) have "set_law J" by (simp add: json_ok_def)
  with assms(2) that show thesis unfolding set_law_def by blast
qed

lemma json_get:
  assumes "json_ok J"
  shows "(\<exists>m. j_get J k v = Inr m) \<longleftrightarrow> j_object J v"
proof -
  from assms have "get_law J" by (simp add: json_ok_def)
  then show ?thesis unfolding get_law_def by blast
qed

lemma json_thrown:
  assumes "json_ok J" and "\<not> j_object J v"
  shows "j_get J k v = Inl Thrown" and "j_set J k x v = Inl Thrown"
proof -
  from assms(1) have "throw_law J" by (simp add: json_ok_def)
  with assms(2) show "j_get J k v = Inl Thrown" and "j_set J k x v = Inl Thrown"
    unfolding throw_law_def by blast+
qed

lemma json_text:
  assumes "json_ok J" and "j_object J v"
  shows "j_parse J (j_write J v) = v" and "\<exists>v'. j_clear J v = Inr v'" and "j_parses J (j_write J v)"
proof -
  from assms(1) have "text_law J" by (simp add: json_ok_def)
  with assms(2) show "j_parse J (j_write J v) = v" and "\<exists>v'. j_clear J v = Inr v'"
    and "j_parses J (j_write J v)"
    unfolding text_law_def by blast+
qed

lemma json_int:
  assumes "json_ok J"
  shows "j_asInt J (j_int J i) = Inr i" and "0 \<le> i \<Longrightarrow> i < 2 ^ 32 \<Longrightarrow> j_asUInt J (j_int J i) = Inr (word_of_int i)"
    and "i < 0 \<Longrightarrow> j_asUInt J (j_int J i) = Inl Thrown"
  using assms by (simp_all add: json_ok_def int_law_def)

lemma json_member:
  assumes "json_ok J"
  shows "j_isMember J k (j_null J) = Inr False"
    and "j_set J k x v = Inr v' \<Longrightarrow> j_isMember J k v' = Inr True"
    and "j_set J k x v = Inr v' \<Longrightarrow> k' \<noteq> k \<Longrightarrow> j_isMember J k' v' = j_isMember J k' v"
    and "j_object J v \<Longrightarrow> \<exists>b. j_isMember J k v = Inr b"
    and "\<not> j_object J v \<Longrightarrow> j_isMember J k v = Inl Thrown"
proof -
  from assms have "member_law J" by (simp add: json_ok_def)
  then show "j_isMember J k (j_null J) = Inr False"
    and "j_set J k x v = Inr v' \<Longrightarrow> j_isMember J k v' = Inr True"
    and "j_set J k x v = Inr v' \<Longrightarrow> k' \<noteq> k \<Longrightarrow> j_isMember J k' v' = j_isMember J k' v"
    and "j_object J v \<Longrightarrow> \<exists>b. j_isMember J k v = Inr b"
    and "\<not> j_object J v \<Longrightarrow> j_isMember J k v = Inl Thrown"
    unfolding member_law_def by blast+
qed

lemma json_append:
  assumes "json_ok J" and "v = j_null J \<or> j_elems J v \<noteq> []"
  shows "\<exists>v'. j_append J v x = Inr v' \<and> j_elems J v' = j_elems J v @ [x]"
proof -
  from assms(1) have "array_law J" by (simp add: json_ok_def)
  with assms(2) show ?thesis unfolding array_law_def by blast
qed

text \<open>An array filled from a list of values.\<close>

lemma json_append_list:
  assumes "json_ok J" and "v = j_null J \<or> j_elems J v \<noteq> []"
  shows "\<exists>v'. rfold (\<lambda>x v. j_append J v x) xs v = Inr v' \<and> j_elems J v' = j_elems J v @ xs"
  using assms(2)
proof (induction xs arbitrary: v)
  case Nil
  then show ?case by simp
next
  case (Cons x xs)
  from json_append [OF assms(1) Cons.prems, of x] obtain v1 where
    v1: "j_append J v x = Inr v1" "j_elems J v1 = j_elems J v @ [x]" by blast
  from Cons.IH [of v1] v1 show ?case by auto
qed

text \<open>Two members of a new object.\<close>

lemma set_two:
  assumes "json_ok J" and "k1 \<noteq> k2"
  obtains rep0 rep where "j_set J k1 x1 (j_null J) = Inr rep0" "j_set J k2 x2 rep0 = Inr rep"
    "j_get J k1 rep = Inr x1" "j_get J k2 rep = Inr x2"
proof -
  obtain r0 where r0: "j_set J k1 x1 (j_null J) = Inr r0" "j_object J r0" "j_get J k1 r0 = Inr x1"
    by (rule json_set [OF assms(1) json_null(1) [OF assms(1)]]) blast
  obtain r where "j_set J k2 x2 r0 = Inr r" "j_get J k2 r = Inr x2" "\<And>k. k \<noteq> k2 \<Longrightarrow> j_get J k r = j_get J k r0"
    by (rule json_set [OF assms(1) r0(2)]) blast
  with r0 assms(2) show thesis by (intro that) auto
qed

section \<open>A concrete instance\<close>

text \<open>
  Values are their own text: \<^verbatim>\<open>N\<close> is null, \<^verbatim>\<open>S\<close> starts a string, \<^verbatim>\<open>A\<close> an array and \<^verbatim>\<open>O\<close> an object,
  whose parts are written with a mark before every character and one at the end.
\<close>

definition put_text :: "string \<Rightarrow> string" where
  "put_text s = concat (map (\<lambda>c. [CHR ''1'', c]) s) @ ''0''"

fun get_text :: "string \<Rightarrow> string \<times> string" where
  "get_text (a # c # r) =
     (if a = CHR ''1'' then (let (s, r') = get_text r in (c # s, r')) else ([], c # r))"
| "get_text s = ([], [])"

lemma get_put_text: "get_text (put_text s @ r) = (s, r)"
proof (induction s)
  case Nil
  then show ?case by (cases r) (simp_all add: put_text_def)
next
  case (Cons c s)
  then show ?case by (simp add: put_text_def)
qed

fun get_texts :: "nat \<Rightarrow> string \<Rightarrow> string list" where
  "get_texts 0 s = []"
| "get_texts (Suc n) s = (if s = [] then [] else (let (t, r) = get_text s in t # get_texts n r))"

definition put_texts :: "string list \<Rightarrow> string" where
  "put_texts ts = concat (map put_text ts)"

lemma put_text_nonempty [simp]: "put_text s \<noteq> []"
  by (simp add: put_text_def)

lemma length_put_text: "1 \<le> length (put_text s)"
  by (simp add: put_text_def)

lemma get_put_texts: "length ts \<le> n \<Longrightarrow> get_texts n (put_texts ts) = ts"
proof (induction ts arbitrary: n)
  case Nil
  then show ?case by (cases n) (simp_all add: put_texts_def)
next
  case (Cons t ts)
  then obtain m where n: "n = Suc m" "length ts \<le> m" by (cases n) auto
  with Cons.IH [of m] show ?case
    by (simp add: put_texts_def get_put_text)
qed

lemma length_put_texts: "length ts \<le> length (put_texts ts)"
proof (induction ts)
  case Nil
  then show ?case by simp
next
  case (Cons t ts)
  with length_put_text [of t] show ?case by (simp add: put_texts_def)
qed

definition texts :: "string \<Rightarrow> string list" where
  "texts s = get_texts (length s) s"

lemma texts_put [simp]: "texts (put_texts ts) = ts"
  by (simp add: texts_def get_put_texts length_put_texts)

fun pairs :: "'a list \<Rightarrow> ('a \<times> 'a) list" where
  "pairs (a # b # r) = (a, b) # pairs r"
| "pairs _ = []"

definition members :: "string \<Rightarrow> (string \<times> string) list" where
  "members s = (case s of [] \<Rightarrow> [] | c # r \<Rightarrow> if c = CHR ''O'' then pairs (texts r) else [])"

definition object :: "(string \<times> string) list \<Rightarrow> string" where
  "object kvs = CHR ''O'' # put_texts (concat (map (\<lambda>(k, v). [k, v]) kvs))"

lemma members_object [simp]: "members (object kvs) = kvs"
proof -
  have "pairs (concat (map (\<lambda>(k, v). [k, v]) kvs)) = kvs" by (induction kvs) auto
  then show ?thesis by (simp add: members_def object_def)
qed

definition text_object :: "string \<Rightarrow> bool" where
  "text_object s \<longleftrightarrow> s \<noteq> [] \<and> (hd s = CHR ''N'' \<or> hd s = CHR ''O'')"

lemma text_object_object: "text_object (object kvs)"
  by (simp add: text_object_def object_def)

definition text_elems :: "string \<Rightarrow> string list" where
  "text_elems s = (case s of [] \<Rightarrow> [] | c # r \<Rightarrow> if c = CHR ''A'' then texts r else [])"

definition text_int :: "int \<Rightarrow> string" where
  "text_int i = CHR ''I'' # (if i < 0 then CHR ''-'' # show_nat (nat (- i)) else show_nat (nat i))"

definition int_of_text :: "string \<Rightarrow> int res" where
  "int_of_text s =
     (case s of c # r \<Rightarrow>
        if c = CHR ''I'' then
          (case r of d # ds \<Rightarrow> if d = CHR ''-'' then Inr (- int (read_digits ds)) else Inr (int (read_digits r))
           | [] \<Rightarrow> Inl Thrown)
        else Inl Thrown
      | [] \<Rightarrow> Inl Thrown)"

lemma int_of_text_int: "int_of_text (text_int i) = Inr i"
proof (cases "i < 0")
  case True
  then show ?thesis by (simp add: int_of_text_def text_int_def read_show_nat)
next
  case False
  obtain d ds where d: "show_nat (nat i) = d # ds" by (meson neq_Nil_conv show_nat_nonempty)
  with show_nat_digits [of "nat i"] is_digit_not_special have "d \<noteq> CHR ''-''" by auto
  with False d read_show_nat [of "nat i"] show ?thesis by (simp add: int_of_text_def text_int_def)
qed

definition text_json :: "string jsonlib" where
  "text_json =
     \<lparr>j_null = ''N'', j_str = (\<lambda>s. CHR ''S'' # s), j_int = text_int, j_object = text_object,
      j_get = (\<lambda>k v. if text_object v
         then Inr (case map_of (members v) k of Some x \<Rightarrow> x | None \<Rightarrow> ''N'') else Inl Thrown),
      j_set = (\<lambda>k x v. if text_object v then Inr (object ((k, x) # members v)) else Inl Thrown),
      j_asString = (\<lambda>v. if v \<noteq> [] \<and> hd v = CHR ''S'' then Inr (tl v)
         else if v = ''N'' then Inr [] else Inl Thrown),
      j_asInt = int_of_text,
      j_asUInt = (\<lambda>v. rbind (int_of_text v) (\<lambda>i.
         if 0 \<le> i \<and> i < 2 ^ 32 then Inr (word_of_int i) else Inl Thrown)),
      j_isNull = (\<lambda>v. v = ''N''),
      j_isMember = (\<lambda>k v. if text_object v then Inr (map_of (members v) k \<noteq> None) else Inl Thrown),
      j_names = (\<lambda>v. if text_object v then Inr (map fst (members v)) else Inl Thrown),
      j_append = (\<lambda>v x. if v = ''N'' \<or> text_elems v \<noteq> []
         then Inr (CHR ''A'' # put_texts (text_elems v @ [x])) else Inl Thrown),
      j_elems = text_elems, j_size = (\<lambda>v. length (text_elems v)),
      j_at = (\<lambda>i v. if i < length (text_elems v) then Inr (text_elems v ! i) else Inl Thrown),
      j_clear = (\<lambda>v. Inr ''N''), j_parse = (\<lambda>s. s), j_parses = (\<lambda>s. s \<noteq> []), j_write = (\<lambda>v. v)\<rparr>"

lemma text_json_ok: "json_ok text_json"
proof -
  have o: "text_object (object kvs)" for kvs by (simp add: text_object_def object_def)
  have n: "text_object ''N''" "members ''N'' = []" "text_elems ''N'' = []"
    by (simp_all add: text_object_def members_def text_elems_def)
  have e: "text_elems (CHR ''A'' # put_texts ts) = ts" for ts by (simp add: text_elems_def)
  have text_nonempty: "text_object v \<Longrightarrow> v \<noteq> []" for v by (simp add: text_object_def)
  show ?thesis
    unfolding json_ok_def null_law_def int_law_def set_law_def get_law_def member_law_def throw_law_def
      text_law_def array_law_def
    using text_nonempty by (auto simp: text_json_def o n e int_of_text_int split: if_splits)
qed

lemma text_members:
  "j_get text_json k (object kvs) = Inr (case map_of kvs k of Some x \<Rightarrow> x | None \<Rightarrow> ''N'')"
  "j_isMember text_json k (object kvs) = Inr (map_of kvs k \<noteq> None)"
  "j_asString text_json (CHR ''S'' # s) = Inr s" "j_object text_json (object kvs)"
  "j_isMember text_json k ''N'' = Inr False" "j_elems text_json (CHR ''A'' # put_texts ts) = ts"
  "j_asInt text_json (text_int i) = Inr i"
  by (simp_all add: text_json_def text_object_object text_elems_def int_of_text_int)
    (simp_all add: text_object_def members_def)

end
