(* ===== verification/Fsm_Message.thy ===== *)
theory Fsm_Message
  imports Json_Lib
begin

text \<open>
  \<^verbatim>\<open>src/fsmmessage.cxx\<close>: a message of the control protocol, its text and the JSON value read
  from it. (Reading a member that is not there adds a null member to the stored value; as a
  missing member reads as null anyway, the model leaves the value as it is.)
\<close>

section \<open>State and operations\<close>

record 'j fsmmessage =
  m_sroot :: string
  m_jsroot :: 'j

definition msg_empty :: "'j jsonlib \<Rightarrow> 'j fsmmessage" where
  "msg_empty J = \<lparr>m_sroot = [], m_jsroot = j_null J\<rparr>"

definition msg_new :: "'j jsonlib \<Rightarrow> string \<Rightarrow> 'j fsmmessage res" where
  "msg_new J s = rbind (j_clear J (j_null J)) (\<lambda>_. Inr \<lparr>m_sroot = s, m_jsroot = j_parse J s\<rparr>)"

definition msg_command :: "'j jsonlib \<Rightarrow> 'j fsmmessage \<Rightarrow> string res" where
  "msg_command J m = rbind (j_get J ''command'' (m_jsroot m)) (j_asString J)"

definition msg_value :: "'j fsmmessage \<Rightarrow> string" where
  "msg_value m = m_sroot m"

definition msg_content :: "'j jsonlib \<Rightarrow> 'j fsmmessage \<Rightarrow> 'j res" where
  "msg_content J m = j_get J ''content'' (m_jsroot m)"

definition msg_status :: "'j jsonlib \<Rightarrow> 'j fsmmessage \<Rightarrow> 'j res" where
  "msg_status J m = j_get J ''status'' (m_jsroot m)"

definition msg_setValue :: "'j jsonlib \<Rightarrow> string \<Rightarrow> 'j fsmmessage \<Rightarrow> 'j fsmmessage res" where
  "msg_setValue J s m =
     rbind (j_clear J (m_jsroot m)) (\<lambda>_. Inr \<lparr>m_sroot = s, m_jsroot = j_parse J s\<rparr>)"

definition msg_setAnswer :: "'j jsonlib \<Rightarrow> 'j \<Rightarrow> 'j fsmmessage \<Rightarrow> 'j fsmmessage res" where
  "msg_setAnswer J rep m =
     rbind (msg_command J m) (\<lambda>c.
     rbind (j_set J ''command'' (j_str J c) (j_null J)) (\<lambda>v1.
     rbind (msg_content J m) (\<lambda>ct.
     rbind (j_set J ''content'' ct v1) (\<lambda>v2.
     rbind (j_set2 J ''content'' ''answer'' rep v2) (\<lambda>v3.
     msg_setValue J (j_write J v3) m)))))"

section \<open>Messages as they travel\<close>

text \<open>
  A well-formed message: the value is what its text reads as, an object whose command is a
  string. \<open>says\<close> gives its command, its content and its status.
\<close>

definition says :: "'j jsonlib \<Rightarrow> 'j fsmmessage \<Rightarrow> string \<Rightarrow> 'j \<Rightarrow> bool" where
  "says J m c ct \<longleftrightarrow> j_object J (m_jsroot m) \<and> j_parse J (m_sroot m) = m_jsroot m \<and>
     msg_command J m = Inr c \<and> msg_content J m = Inr ct"

lemma says_command: "says J m c ct \<Longrightarrow> msg_command J m = Inr c"
  and says_content: "says J m c ct \<Longrightarrow> msg_content J m = Inr ct"
  by (simp_all add: says_def)

text \<open>Setting the text of a message to a written object.\<close>

lemma setValue_written:
  assumes "json_ok J" and "j_object J (m_jsroot m)" and "j_object J v"
  shows "msg_setValue J (j_write J v) m = Inr \<lparr>m_sroot = j_write J v, m_jsroot = v\<rparr>"
  using json_text(2) [OF assms(1,2)] json_text(1) [OF assms(1,3)] by (auto simp: msg_setValue_def)

lemma msg_new_written:
  assumes "json_ok J" and "j_object J v"
  shows "msg_new J (j_write J v) = Inr \<lparr>m_sroot = j_write J v, m_jsroot = v\<rparr>"
  using json_text(2) [OF assms(1) json_null(1) [OF assms(1)]] json_text(1) [OF assms]
  by (auto simp: msg_new_def)

text \<open>
  A reply is built member by member from a null value: command, status and content, and inside
  the content an answer. It can be built exactly when the content is null or an object.
\<close>

definition answered :: "'j jsonlib \<Rightarrow> 'j \<Rightarrow> 'j \<Rightarrow> 'j \<Rightarrow> bool" where
  "answered J ct a ct' \<longleftrightarrow> j_object J ct' \<and> j_get J ''answer'' ct' = Inr a \<and>
     (\<forall>k. k \<noteq> ''answer'' \<longrightarrow> j_get J k ct' = j_get J k ct)"

lemma set2_answer:
  assumes "json_ok J" and "j_object J v" and "j_get J ''content'' v = Inr ct" and "j_object J ct"
  obtains v' ct' where "j_set2 J ''content'' ''answer'' a v = Inr v'" "j_object J v'"
    "j_get J ''content'' v' = Inr ct'" "answered J ct a ct'"
    "\<And>k. k \<noteq> ''content'' \<Longrightarrow> j_get J k v' = j_get J k v"
proof -
  obtain ct' where ct': "j_set J ''answer'' a ct = Inr ct'" "j_object J ct'"
    "j_get J ''answer'' ct' = Inr a" "\<And>k. k \<noteq> ''answer'' \<Longrightarrow> j_get J k ct' = j_get J k ct"
    by (rule json_set [OF assms(1,4)]) blast
  obtain v' where v': "j_set J ''content'' ct' v = Inr v'" "j_object J v'"
    "j_get J ''content'' v' = Inr ct'" "\<And>k. k \<noteq> ''content'' \<Longrightarrow> j_get J k v' = j_get J k v"
    by (rule json_set [OF assms(1,2)]) blast
  show thesis
    by (rule that [of v' ct']) (use assms(3) ct' v' in \<open>auto simp: j_set2_def answered_def\<close>)
qed

lemma set2_thrown:
  assumes "json_ok J" and "j_get J ''content'' v = Inr ct" and "\<not> j_object J ct"
  shows "j_set2 J ''content'' ''answer'' a v = Inl Thrown"
  using assms(2) json_thrown(2) [OF assms(1,3)] by (simp add: j_set2_def)

lemma setAnswer_says:
  assumes "json_ok J" and "says J m c ct"
  shows "if j_object J ct
     then \<exists>m' ct'. msg_setAnswer J rep m = Inr m' \<and> says J m' c ct' \<and> answered J ct rep ct'
     else msg_setAnswer J rep m = Inl Thrown"
proof -
  note N = json_null [OF assms(1)]
  have obj: "j_object J (m_jsroot m)" using assms(2) by (simp add: says_def)
  obtain v1 where v1: "j_set J ''command'' (j_str J c) (j_null J) = Inr v1" "j_object J v1"
    "j_get J ''command'' v1 = Inr (j_str J c)"
    by (rule json_set [OF assms(1) N(1)]) blast
  obtain v2 where v2: "j_set J ''content'' ct v1 = Inr v2" "j_object J v2"
    "j_get J ''content'' v2 = Inr ct" "\<And>k. k \<noteq> ''content'' \<Longrightarrow> j_get J k v2 = j_get J k v1"
    by (rule json_set [OF assms(1) v1(2)]) blast
  have run: "msg_setAnswer J rep m =
     rbind (j_set2 J ''content'' ''answer'' rep v2) (\<lambda>v3. msg_setValue J (j_write J v3) m)"
    using assms(2) v1(1) v2(1) by (simp add: msg_setAnswer_def says_command says_content)
  show ?thesis
  proof (cases "j_object J ct")
    case False
    with set2_thrown [OF assms(1) v2(3)] run show ?thesis by simp
  next
    case True
    obtain v3 ct' where v3: "j_set2 J ''content'' ''answer'' rep v2 = Inr v3" "j_object J v3"
      "j_get J ''content'' v3 = Inr ct'" "answered J ct rep ct'"
      "\<And>k. k \<noteq> ''content'' \<Longrightarrow> j_get J k v3 = j_get J k v2"
      by (rule set2_answer [OF assms(1) v2(2,3) True]) blast
    have "says J \<lparr>m_sroot = j_write J v3, m_jsroot = v3\<rparr> c ct'"
      using v3 v2(4) v1(3) N(3) json_text(1) [OF assms(1) v3(2)]
      by (simp add: says_def msg_command_def msg_content_def)
    with True run v3(1,4) setValue_written [OF assms(1) obj v3(2)] show ?thesis by auto
  qed
qed

end
