(* ===== verification/Fsm.thy ===== *)
theory Fsm
  imports Fsm_Message Std_Map
begin

text \<open>
  \<^verbatim>\<open>src/fsm.cxx\<close>: the state machine of a process, driven by messages. A transition belongs to a
  command and an initial state; executing it calls the application, whose state is a
  parameter type. The DIM services are the list of the states published, oldest first, and
  the request and reply texts of the RPC.
\<close>

section \<open>State\<close>

record ('j, 's) fsmTransition =
  tr_istate :: string
  tr_fstate :: string
  tr_callback :: "'j fsmmessage \<Rightarrow> 's \<Rightarrow> ('j fsmmessage \<times> 's) res"

record ('j, 's) fsm =
  f_states :: "string list"
  f_state :: string
  f_transitions :: "(string, ('j, 's) fsmTransition list) smap"
  f_cmdService :: string
  f_stateService :: string
  f_published :: "string list"

text \<open>The characters a \<^verbatim>\<open>char*\<close> conversion passes on.\<close>

definition c_str :: "string \<Rightarrow> string" where
  "c_str s = takeWhile (\<lambda>c. c \<noteq> CHR 0x00) s"

section \<open>Operations\<close>

definition fsm_new :: "string \<Rightarrow> ('j, 's) fsm" where
  "fsm_new n =
     \<lparr>f_states = [], f_state = ''CREATED'', f_transitions = [],
      f_cmdService = ''/FSM/'' @ n @ ''/CMD'', f_stateService = ''/FSM/'' @ n @ ''/STATE'',
      f_published = [c_str ''CREATED'']\<rparr>"

definition addState :: "string \<Rightarrow> ('j, 's, 'z) fsm_scheme \<Rightarrow> ('j, 's, 'z) fsm_scheme" where
  "addState n f = f\<lparr>f_states := f_states f @ [n]\<rparr>"

definition addTransition ::
  "string \<Rightarrow> ('j, 's) fsmTransition \<Rightarrow> ('j, 's, 'z) fsm_scheme \<Rightarrow> ('j, 's, 'z) fsm_scheme" where
  "addTransition cmd t f =
     (case map_of (f_transitions f) cmd of
        Some vp \<Rightarrow>
          if \<exists>u \<in> set vp. tr_istate u = tr_istate t then f
          else f\<lparr>f_transitions := map_assign cmd (vp @ [t]) (f_transitions f)\<rparr>
      | None \<Rightarrow> f\<lparr>f_transitions := map_insert cmd [t] (f_transitions f)\<rparr>)"

definition setState :: "string \<Rightarrow> ('j, 's, 'z) fsm_scheme \<Rightarrow> ('j, 's, 'z) fsm_scheme" where
  "setState s f = f\<lparr>f_state := s\<rparr>"

definition publishState :: "('j, 's, 'z) fsm_scheme \<Rightarrow> ('j, 's, 'z) fsm_scheme" where
  "publishState f = f\<lparr>f_published := f_published f @ [c_str (f_state f)]\<rparr>"

text \<open>The two replies: a failure puts a text into the content, a success returns the content.\<close>

definition fsm_failed :: "'j jsonlib \<Rightarrow> string \<Rightarrow> string \<Rightarrow> 'j fsmmessage \<Rightarrow> 'j fsmmessage res" where
  "fsm_failed J c answer m =
     rbind (j_set J ''command'' (j_str J c) (j_null J)) (\<lambda>v1.
     rbind (j_set J ''status'' (j_str J ''FAILED'') v1) (\<lambda>v2.
     rbind (msg_content J m) (\<lambda>ct.
     rbind (j_set J ''content'' ct v2) (\<lambda>v3.
     rbind (j_set2 J ''content'' ''answer'' (j_str J answer) v3) (\<lambda>v4.
     msg_setValue J (j_write J v4) m)))))"

definition fsm_done :: "'j jsonlib \<Rightarrow> 'j fsmmessage \<Rightarrow> 'j fsmmessage res" where
  "fsm_done J m =
     rbind (msg_command J m) (\<lambda>c.
     rbind (j_set J ''command'' (j_str J c) (j_null J)) (\<lambda>v1.
     rbind (j_set J ''status'' (j_str J ''DONE'') v1) (\<lambda>v2.
     rbind (msg_content J m) (\<lambda>ct.
     rbind (j_set J ''content'' ct v2) (\<lambda>v3.
     msg_setValue J (j_write J v3) m)))))"

definition fsm_processCommand ::
  "'j jsonlib \<Rightarrow> 'j fsmmessage \<Rightarrow> ('j, 's, 'z) fsm_scheme \<Rightarrow> 's
     \<Rightarrow> (string \<times> 'j fsmmessage \<times> ('j, 's, 'z) fsm_scheme \<times> 's) res" where
  "fsm_processCommand J m f s =
     rbind (msg_command J m) (\<lambda>c.
     case map_of (f_transitions f) c of
       None \<Rightarrow>
         rbind (fsm_failed J c (c @ '' not found in transitions list '') m) (\<lambda>m'.
         Inr (''ERROR'', m', f, s))
     | Some vp \<Rightarrow>
         (case find (\<lambda>t. tr_istate t = f_state f) vp of
            Some t \<Rightarrow>
              rbind (tr_callback t m s) (\<lambda>(m1, s').
              (let f' = publishState (f\<lparr>f_state := tr_fstate t\<rparr>) in
               rbind (fsm_done J m1) (\<lambda>m2. Inr (f_state f', m2, f', s'))))
          | None \<Rightarrow>
              rbind (fsm_failed J c (''Current State='' @ f_state f @
                       '' is not an initial state of the command '' @ c) m) (\<lambda>m'.
              Inr (''ERROR'', m', f, s))))"

text \<open>\<^verbatim>\<open>jc["name"]=name; jrep.append(jc)\<close>.\<close>

definition append_name :: "'j jsonlib \<Rightarrow> string \<Rightarrow> 'j \<Rightarrow> 'j res" where
  "append_name J n jrep =
     rbind (j_set J ''name'' (j_str J n) (j_null J)) (\<lambda>jc. j_append J jrep jc)"

definition transitionsList :: "'j jsonlib \<Rightarrow> ('j, 's, 'z) fsm_scheme \<Rightarrow> 'j res" where
  "transitionsList J f =
     rfold (\<lambda>(n, vp). append_name J n) (f_transitions f) (j_null J)"

definition allowList :: "'j jsonlib \<Rightarrow> ('j, 's, 'z) fsm_scheme \<Rightarrow> 'j res" where
  "allowList J f =
     rfold (\<lambda>(n, vp) jrep.
       if \<exists>t \<in> set vp. tr_istate t = f_state f then append_name J n jrep else Inr jrep)
       (f_transitions f) (j_null J)"

section \<open>The transition function\<close>

definition transition :: "('j, 's, 'z) fsm_scheme \<Rightarrow> string \<Rightarrow> string \<Rightarrow> ('j, 's) fsmTransition option" where
  "transition f cmd st =
     (case map_of (f_transitions f) cmd of None \<Rightarrow> None | Some vp \<Rightarrow> find (\<lambda>t. tr_istate t = st) vp)"

definition fsm_ok :: "('j, 's, 'z) fsm_scheme \<Rightarrow> bool" where
  "fsm_ok f \<longleftrightarrow> map_ok (f_transitions f) \<and>
     (\<forall>(c, vp) \<in> set (f_transitions f). vp \<noteq> [] \<and> distinct (map tr_istate vp))"

lemma fsm_ok_new: "fsm_ok (fsm_new n)"
  by (simp add: fsm_ok_def fsm_new_def)

lemma set_insert_subset: "set (map_insert k v m) \<subseteq> insert (k, v) (set m)"
  by (induction k v m rule: map_insert.induct) auto

lemma set_assign_subset: "set (map_assign k v m) \<subseteq> insert (k, v) (set m)"
  by (induction k v m rule: map_assign.induct) auto

lemma fsm_ok_addTransition:
  assumes "fsm_ok f"
  shows "fsm_ok (addTransition cmd t f)"
proof (cases "map_of (f_transitions f) cmd")
  case None
  with assms set_insert_subset [of cmd "[t]" "f_transitions f"] show ?thesis
    by (auto simp: fsm_ok_def addTransition_def map_ok_insert)
next
  case (Some vp)
  then have "(cmd, vp) \<in> set (f_transitions f)" by (rule map_of_SomeD)
  then have "distinct (map tr_istate vp)" using assms by (auto simp: fsm_ok_def)
  then have "distinct (map tr_istate (vp @ [t]))" if "\<not> (\<exists>u \<in> set vp. tr_istate u = tr_istate t)"
    using that by (simp add: image_iff) metis
  with Some assms show ?thesis
    by (auto simp: fsm_ok_def addTransition_def map_ok_assign simp del: map_append distinct_append
        dest!: subsetD [OF set_assign_subset])
qed

lemma find_append: "find P (xs @ ys) = (case find P xs of Some x \<Rightarrow> Some x | None \<Rightarrow> find P ys)"
  by (induction xs) auto

lemma find_exists: "find (\<lambda>t. g t = x) ts \<noteq> None \<longleftrightarrow> (\<exists>t \<in> set ts. g t = x)"
  by (induction ts) auto

lemma addTransition_state: "f_state (addTransition cmd t f) = f_state f"
  by (simp add: addTransition_def split: option.split)

lemma transition_addTransition:
  assumes "fsm_ok f"
  shows "transition (addTransition cmd t f) c st =
     (if c = cmd \<and> st = tr_istate t \<and> transition f cmd st = None then Some t else transition f c st)"
proof -
  have ok: "map_ok (f_transitions f)" using assms by (simp add: fsm_ok_def)
  show ?thesis
  proof (cases "map_of (f_transitions f) cmd")
    case None
    then show ?thesis
      using smap.find_ins [OF ok, of cmd "[t]" c] by (auto simp: transition_def addTransition_def)
  next
    case (Some vp)
    show ?thesis
    proof (cases "\<exists>u \<in> set vp. tr_istate u = tr_istate t")
      case True
      with Some find_exists [of tr_istate "tr_istate t" vp] show ?thesis
        by (auto simp: transition_def addTransition_def)
    next
      case False
      with Some smap.find_asg [OF ok, of cmd "vp @ [t]" c] find_exists [of tr_istate "tr_istate t" vp]
      show ?thesis
        by (auto simp: transition_def addTransition_def find_append split: option.splits)
    qed
  qed
qed

section \<open>Replies\<close>

definition replies :: "'j jsonlib \<Rightarrow> 'j fsmmessage \<Rightarrow> string \<Rightarrow> string \<Rightarrow> 'j \<Rightarrow> bool" where
  "replies J m c st ct \<longleftrightarrow> says J m c ct \<and> msg_status J m = Inr (j_str J st)"

text \<open>The part of a reply before the answer: command, status and content.\<close>

lemma reply_value:
  assumes "json_ok J"
  obtains v1 v2 v3 where "j_set J ''command'' (j_str J c) (j_null J) = Inr v1"
    "j_set J ''status'' (j_str J st) v1 = Inr v2" "j_set J ''content'' ct v2 = Inr v3"
    "j_object J v3" "j_get J ''command'' v3 = Inr (j_str J c)"
    "j_get J ''status'' v3 = Inr (j_str J st)" "j_get J ''content'' v3 = Inr ct"
proof -
  obtain v1 where v1: "j_set J ''command'' (j_str J c) (j_null J) = Inr v1" "j_object J v1"
    "j_get J ''command'' v1 = Inr (j_str J c)"
    by (rule json_set [OF assms json_null(1) [OF assms]]) blast
  obtain v2 where v2: "j_set J ''status'' (j_str J st) v1 = Inr v2" "j_object J v2"
    "j_get J ''status'' v2 = Inr (j_str J st)" "\<And>k. k \<noteq> ''status'' \<Longrightarrow> j_get J k v2 = j_get J k v1"
    by (rule json_set [OF assms v1(2)]) blast
  obtain v3 where v3: "j_set J ''content'' ct v2 = Inr v3" "j_object J v3"
    "j_get J ''content'' v3 = Inr ct" "\<And>k. k \<noteq> ''content'' \<Longrightarrow> j_get J k v3 = j_get J k v2"
    by (rule json_set [OF assms v2(2)]) blast
  show thesis
    by (rule that [of v1 v2 v3]) (use v1 v2 v3 in auto)
qed

lemma fsm_done_replies:
  assumes "json_ok J" and "says J m c ct"
  shows "\<exists>m'. fsm_done J m = Inr m' \<and> replies J m' c ''DONE'' ct"
proof -
  have obj: "j_object J (m_jsroot m)" using assms(2) by (simp add: says_def)
  obtain v1 v2 v3 where v: "j_set J ''command'' (j_str J c) (j_null J) = Inr v1"
    "j_set J ''status'' (j_str J ''DONE'') v1 = Inr v2" "j_set J ''content'' ct v2 = Inr v3"
    "j_object J v3" "j_get J ''command'' v3 = Inr (j_str J c)"
    "j_get J ''status'' v3 = Inr (j_str J ''DONE'')" "j_get J ''content'' v3 = Inr ct"
    by (rule reply_value [OF assms(1)])
  from setValue_written [OF assms(1) obj v(4)]
  have "fsm_done J m = Inr \<lparr>m_sroot = j_write J v3, m_jsroot = v3\<rparr>"
    using assms(2) v(1-3) by (simp add: fsm_done_def says_command says_content)
  moreover have "replies J \<lparr>m_sroot = j_write J v3, m_jsroot = v3\<rparr> c ''DONE'' ct"
    using v(4-7) json_null(3) [OF assms(1)] json_text(1) [OF assms(1) v(4)]
    by (simp add: replies_def says_def msg_command_def msg_content_def msg_status_def)
  ultimately show ?thesis by blast
qed

lemma fsm_failed_replies:
  assumes "json_ok J" and "says J m c ct"
  shows "if j_object J ct
     then \<exists>m' ct'. fsm_failed J c answer m = Inr m' \<and> replies J m' c ''FAILED'' ct' \<and>
            answered J ct (j_str J answer) ct'
     else fsm_failed J c answer m = Inl Thrown"
proof -
  have obj: "j_object J (m_jsroot m)" using assms(2) by (simp add: says_def)
  obtain v1 v2 v3 where v: "j_set J ''command'' (j_str J c) (j_null J) = Inr v1"
    "j_set J ''status'' (j_str J ''FAILED'') v1 = Inr v2" "j_set J ''content'' ct v2 = Inr v3"
    "j_object J v3" "j_get J ''command'' v3 = Inr (j_str J c)"
    "j_get J ''status'' v3 = Inr (j_str J ''FAILED'')" "j_get J ''content'' v3 = Inr ct"
    by (rule reply_value [OF assms(1)])
  have run: "fsm_failed J c answer m =
     rbind (j_set2 J ''content'' ''answer'' (j_str J answer) v3) (\<lambda>v4. msg_setValue J (j_write J v4) m)"
    using assms(2) v(1-3) by (simp add: fsm_failed_def says_content)
  show ?thesis
  proof (cases "j_object J ct")
    case False
    with set2_thrown [OF assms(1) v(7)] run show ?thesis by simp
  next
    case True
    obtain v4 ct' where v4: "j_set2 J ''content'' ''answer'' (j_str J answer) v3 = Inr v4"
      "j_object J v4" "j_get J ''content'' v4 = Inr ct'" "answered J ct (j_str J answer) ct'"
      "\<And>k. k \<noteq> ''content'' \<Longrightarrow> j_get J k v4 = j_get J k v3"
      by (rule set2_answer [OF assms(1) v(4,7) True]) blast
    have "replies J \<lparr>m_sroot = j_write J v4, m_jsroot = v4\<rparr> c ''FAILED'' ct'"
      using v4 v(5,6) json_null(3) [OF assms(1)] json_text(1) [OF assms(1) v4(2)]
      by (simp add: replies_def says_def msg_command_def msg_content_def msg_status_def)
    with True run v4(1,4) setValue_written [OF assms(1) obj v4(2)] show ?thesis by auto
  qed
qed

text \<open>What the code expects of the application's callbacks: they return with a message.\<close>

definition callbacks_ok :: "'j jsonlib \<Rightarrow> ('j, 's, 'z) fsm_scheme \<Rightarrow> bool" where
  "callbacks_ok J f \<longleftrightarrow> (\<forall>(_, vp) \<in> set (f_transitions f). \<forall>t \<in> set vp. \<forall>m c ct s. says J m c ct \<longrightarrow>
     (\<exists>m' s' c' ct'. tr_callback t m s = Inr (m', s') \<and> says J m' c' ct'))"

lemma transition_callback:
  assumes "callbacks_ok J f" and "transition f c st = Some t" and "says J m c' ct"
  shows "\<exists>m' s' c' ct'. tr_callback t m s = Inr (m', s') \<and> says J m' c' ct'"
proof -
  from assms(2) obtain vp where vp: "map_of (f_transitions f) c = Some vp"
    "find (\<lambda>t. tr_istate t = st) vp = Some t" by (auto simp: transition_def split: option.splits)
  have "(c, vp) \<in> set (f_transitions f)" by (rule map_of_SomeD [OF vp(1)])
  moreover have "t \<in> set vp" using vp(2) by (auto simp: find_Some_iff)
  ultimately show ?thesis using assms(1,3) unfolding callbacks_ok_def by fast
qed

lemma processCommand_transition:
  assumes "msg_command J m = Inr c"
  shows "fsm_processCommand J m f s =
     (case transition f c (f_state f) of
        Some t \<Rightarrow>
          rbind (tr_callback t m s) (\<lambda>(m1, s').
          rbind (fsm_done J m1) (\<lambda>m2. Inr (tr_fstate t, m2, publishState (f\<lparr>f_state := tr_fstate t\<rparr>), s')))
      | None \<Rightarrow>
          rbind (fsm_failed J c
            (if map_of (f_transitions f) c = None then c @ '' not found in transitions list ''
             else ''Current State='' @ f_state f @ '' is not an initial state of the command '' @ c) m)
            (\<lambda>m'. Inr (''ERROR'', m', f, s)))"
  using assms
  by (auto simp: fsm_processCommand_def transition_def publishState_def Let_def split: option.split)

lemma processCommand_done:
  assumes "json_ok J" and "callbacks_ok J f" and "says J m c ct" and "transition f c (f_state f) = Some t"
  shows "\<exists>m1 s' c1 ct1 m2. tr_callback t m s = Inr (m1, s') \<and> says J m1 c1 ct1 \<and>
     fsm_processCommand J m f s =
       Inr (tr_fstate t, m2, publishState (f\<lparr>f_state := tr_fstate t\<rparr>), s') \<and>
     replies J m2 c1 ''DONE'' ct1"
proof -
  from transition_callback [OF assms(2,4,3)] obtain m1 s' c1 ct1 where
    cb: "tr_callback t m s = Inr (m1, s')" "says J m1 c1 ct1" by blast
  from fsm_done_replies [OF assms(1) cb(2)] obtain m2 where
    "fsm_done J m1 = Inr m2" "replies J m2 c1 ''DONE'' ct1" by blast
  with cb assms(4) processCommand_transition [OF says_command [OF assms(3)], of f s]
  show ?thesis by auto
qed

end
