(* ===== verification/Job_Process.thy ===== *)
theory Job_Process
  imports File_Tailer Fsm Std_Map
begin

text \<open>
  The processes of \<^verbatim>\<open>src/fsmjob.cxx\<close>: what the job control asks of the system (files, environment,
  \<^verbatim>\<open>fork\<close>, \<^verbatim>\<open>execve\<close>, \<^verbatim>\<open>kill\<close>), the status line of a process, the data kept of each, and how one
  is started and killed. The system's answers to the forks to come are part of its state.
\<close>

section \<open>The system\<close>

text \<open>What a child hands to \<^verbatim>\<open>execve\<close>, and the file its output goes to.\<close>

record exec_image =
  ei_path :: string
  ei_argv :: "string list"
  ei_envp :: "string list"
  ei_log :: string

record os =
  os_file :: "string \<Rightarrow> string option"
  os_env :: "string \<Rightarrow> string option"
  os_fork :: "nat \<Rightarrow> int"
  os_forks :: nat
  os_children :: "(int \<times> exec_image res) list"
  os_signals :: "(int \<times> u32) list"

definition show_int :: "int \<Rightarrow> string" where
  "show_int i = (if i < 0 then CHR ''-'' # show_nat (nat (- i)) else show_nat (nat i))"

definition as_u32 :: "int \<Rightarrow> u32" where
  "as_u32 i = word_of_int i"

text \<open>\<^verbatim>\<open>atol\<close> of a request's parameter, cut to 32 bits.\<close>

definition atol32 :: "string \<Rightarrow> u32" where
  "atol32 s = (case scan_int True (c_str s) of None \<Rightarrow> 0 | Some (v, _) \<Rightarrow> ucast v)"

section \<open>trimString\<close>

text \<open>
  The first loop reads position 0 of what is left, the second erases the character before the
  last one; positions outside the string throw.
\<close>

fun trim_front :: "string \<Rightarrow> string res" where
  "trim_front [] = Inl Thrown"
| "trim_front (c # s) = (if c = CHR '' '' then trim_front s else Inr (c # s))"

function trim_back :: "string \<Rightarrow> string res" where
  "trim_back s =
     (if s = [] then Inl Thrown
      else if last s \<noteq> CHR '' '' then Inr s
      else if length s < 2 then Inl Thrown
      else trim_back (take (length s - 2) s @ [last s]))"
  by pat_completeness auto
termination
  by (relation "measure length") auto

declare trim_back.simps [simp del]

definition trimString :: "string \<Rightarrow> string res" where
  "trimString s =
     (if s = [] then Inr []
      else rbind (trim_front s) (\<lambda>t. if t = [] then Inr [] else trim_back t))"

lemma trim_back_space: "last s = CHR '' '' \<Longrightarrow> trim_back s = Inl Thrown"
proof (induction s rule: trim_back.induct)
  case (1 s)
  show ?case
  proof (cases "s = [] \<or> length s < 2")
    case True
    with 1 show ?thesis by (subst trim_back.simps) auto
  next
    case False
    with 1 show ?thesis by (subst trim_back.simps) auto
  qed
qed

lemma trim_back_clean: "s \<noteq> [] \<Longrightarrow> last s \<noteq> CHR '' '' \<Longrightarrow> trim_back s = Inr s"
  by (subst trim_back.simps) simp

lemma trim_front_result:
  "trim_front s =
     (if \<forall>c \<in> set s. c = CHR '' '' then Inl Thrown else Inr (dropWhile (\<lambda>c. c = CHR '' '') s))"
  by (induction s) auto

section \<open>The status of a process\<close>

definition getlines :: "string \<Rightarrow> string list" where
  "getlines cs = map (\<lambda>l. if l \<noteq> [] \<and> last l = CHR 0x0A then butlast l else l) (text_lines cs)"

definition processStatus :: "os \<Rightarrow> u32 \<Rightarrow> string res" where
  "processStatus w lpid =
     (case os_file w (''/proc/'' @ show32 lpid @ ''/status'') of
        None \<Rightarrow> Inr ''X (dead)''
      | Some cs \<Rightarrow>
          (case find (\<lambda>l. take 6 l = ''State:'') (getlines cs) of
             None \<Rightarrow> Inr ''X (dead)''
           | Some l \<Rightarrow> trimString (drop 6 l)))"

section \<open>Process data\<close>

datatype process_status = NOT_CREATED | RUNNING | KILLED

record 'j processData =
  pd_info :: 'j
  pd_childPid :: int
  pd_status :: process_status
  pd_string :: string

definition processData_new :: "'j jsonlib \<Rightarrow> string \<Rightarrow> 'j processData" where
  "processData_new J s =
     \<lparr>pd_info = j_parse J s, pd_childPid = 0, pd_status = NOT_CREATED, pd_string = s\<rparr>"

text \<open>A member that is an array of strings, read by its size and positions.\<close>

definition string_items :: "'j jsonlib \<Rightarrow> string \<Rightarrow> 'j \<Rightarrow> string list res" where
  "string_items J k info =
     rbind (j_get J k info) (\<lambda>v.
     rfold (\<lambda>i acc. rbind (j_at J i v) (\<lambda>x. rbind (j_asString J x) (\<lambda>s. Inr (acc @ [s]))))
       [0..<j_size J v] [])"

section \<open>The child\<close>

text \<open>
  Texts printed into the rows of a matrix from a row on, as \<^verbatim>\<open>argv\<close> (16 rows) and \<^verbatim>\<open>envp\<close> (100 rows)
  are filled; the pointer after the last row used is set to null, which needs a place too.
\<close>

fun fill_rows :: "nat \<Rightarrow> nat \<Rightarrow> nat \<Rightarrow> string list \<Rightarrow> string list res" where
  "fill_rows rows width i [] = (if i < rows then Inr [] else Inl Out_Of_Bounds)"
| "fill_rows rows width i (x # xs) =
     (if i < rows then
        rbind (sprintf_into width (c_str x)) (\<lambda>r. rbind (fill_rows rows width (i + 1) xs) (\<lambda>rs. Inr (r # rs)))
      else Inl Out_Of_Bounds)"

text \<open>The program name is printed as a format.\<close>

definition child_exec ::
  "string list \<Rightarrow> int \<Rightarrow> string \<Rightarrow> string \<Rightarrow> string list \<Rightarrow> string list \<Rightarrow> exec_image res" where
  "child_exec envConf mypid programName processName arguments environmentVars =
     rbind (print_format 4096 (c_str programName)) (\<lambda>path.
     rbind (fill_rows 16 4096 1 arguments) (\<lambda>args.
     rbind (fill_rows 100 4096 0 (envConf @ environmentVars @ [''PROCESSNAME='' @ processName])) (\<lambda>envs.
     rbind (sprintf_into 100 (''/tmp/fsmjobPID'' @ show_int mypid @ ''.log'')) (\<lambda>logPath.
     Inr \<lparr>ei_path = path, ei_argv = path # args, ei_envp = envs, ei_log = logPath\<rparr>))))"

section \<open>Starting and killing\<close>

text \<open>
  \<^verbatim>\<open>fork\<close> answers the parent with the child's number, or with -1: the test for the child is only
  whether the answer is 0, so a failed fork is taken for a child.
\<close>

definition startProcess ::
  "'j jsonlib \<Rightarrow> string list \<Rightarrow> 'j processData \<Rightarrow> os \<Rightarrow> ('j processData \<times> os) res" where
  "startProcess J envConf pd w =
     (if pd_status pd \<noteq> NOT_CREATED then Inr (pd, w)
      else
        rbind (j_get J ''PROGRAM'' (pd_info pd)) (\<lambda>v1. rbind (j_asString J v1) (\<lambda>programName.
        rbind (j_get J ''NAME'' (pd_info pd)) (\<lambda>v2. rbind (j_asString J v2) (\<lambda>processName.
        rbind (string_items J ''ARGS'' (pd_info pd)) (\<lambda>arguments.
        rbind (string_items J ''ENV'' (pd_info pd)) (\<lambda>environmentVars.
        (let pid = os_fork w (os_forks w) in
         Inr (pd\<lparr>pd_childPid := pid, pd_status := RUNNING\<rparr>,
              w\<lparr>os_forks := os_forks w + 1,
                os_children := (if pid = - 1 then os_children w
                  else os_children w @
                    [(pid, child_exec envConf pid programName processName arguments environmentVars)])\<rparr>)))))))))"

definition killProcess ::
  "u32 \<Rightarrow> u32 \<Rightarrow> (int, 'j processData) smap \<Rightarrow> os \<Rightarrow> (int, 'j processData) smap \<times> os" where
  "killProcess pid sig m w =
     (case find (\<lambda>(k, pd). pd_status pd = RUNNING \<and> pid = as_u32 k) m of
        None \<Rightarrow> (m, w)
      | Some (k, pd) \<Rightarrow> (map_erase k m, w\<lparr>os_signals := os_signals w @ [(k, sig)]\<rparr>))"

section \<open>Properties of the texts\<close>

lemma fill_rows_result:
  "fill_rows rows width i xs =
     (if i + length xs < rows \<and> (\<forall>x \<in> set xs. length (c_str x) < width) then Inr (map c_str xs)
      else Inl Out_Of_Bounds)"
  by (induction xs arbitrary: i) (auto simp: sprintf_into_def)

lemma show_nat_length: "length (show_nat n) \<le> 10" if "n < 10000000000"
proof -
  have "length (show_nat n) \<le> Suc k" if "n < 10 ^ Suc k" for n k
    using that
  proof (induction k arbitrary: n)
    case 0
    then show ?case by (subst show_nat.simps) simp
  next
    case (Suc k)
    have "n div 10 < 10 ^ Suc k" using Suc.prems by auto
    from Suc.IH [OF this] show ?case by (subst show_nat.simps) simp
  qed
  from this [of n 9] that show ?thesis by simp
qed

lemma log_path_fits:
  assumes "- (2 ^ 31) \<le> pid" and "pid < 2 ^ 31"
  shows "sprintf_into 100 (''/tmp/fsmjobPID'' @ show_int pid @ ''.log'') = Inr (''/tmp/fsmjobPID'' @ show_int pid @ ''.log'')"
proof -
  have "length (show_nat (nat \<bar>pid\<bar>)) \<le> 10" using assms by (intro show_nat_length) simp
  then have "length (show_int pid) \<le> 11" by (cases "pid < 0") (simp_all add: show_int_def)
  then show ?thesis by (simp add: sprintf_into_def)
qed

text \<open>
  \<^verbatim>\<open>trimString\<close> removes the spaces at the front of a string and leaves the rest as it is; a
  string that ends in a space, or has nothing else, makes it throw.
\<close>

theorem trimString_spec:
  "trimString s =
     (if s = [] then Inr []
      else if last s = CHR '' '' then Inl Thrown
      else Inr (dropWhile (\<lambda>c. c = CHR '' '') s))"
proof (cases "s = []")
  case True
  then show ?thesis by (simp add: trimString_def)
next
  case False
  show ?thesis
  proof (cases "\<forall>c \<in> set s. c = CHR '' ''")
    case True
    with False have "last s = CHR '' ''" by simp
    with True False show ?thesis by (simp add: trimString_def trim_front_result)
  next
    case mixed: False
    let ?d = "dropWhile (\<lambda>c. c = CHR '' '') s"
    from mixed have d: "?d \<noteq> []" by (auto simp: dropWhile_eq_Nil_conv)
    have "last s = last ?d"
      using d last_appendR [of ?d "takeWhile (\<lambda>c. c = CHR '' '') s"] by simp
    with False d trim_back_space [of ?d] trim_back_clean [of ?d] show ?thesis
      by (auto simp: trimString_def trim_front_result mixed simp del: dropWhile_eq_Nil_conv)
  qed
qed

text \<open>
  C34: a child executes the program of its description with itself and the arguments as its
  argument list, and the job control's environment, its own and its name as environment,
  in that order, when there are at most 14 arguments and 98 environment texts, all shorter than
  4096 characters; with more, or longer ones, it writes outside its arrays. (A percent sign in
  the program's name is taken for a format.)
\<close>

theorem child_exec_spec:
  assumes "- (2 ^ 31) \<le> pid" and "pid < 2 ^ 31" and "CHR ''%'' \<notin> set (c_str prog)"
  shows "child_exec conf pid prog name args env =
     (if length (c_str prog) < 4096 \<and> length args \<le> 14 \<and> length conf + length env \<le> 98 \<and>
         (\<forall>x \<in> set (args @ conf @ env @ [''PROCESSNAME='' @ name]). length (c_str x) < 4096)
      then Inr \<lparr>ei_path = c_str prog, ei_argv = c_str prog # map c_str args,
                ei_envp = map c_str (conf @ env @ [''PROCESSNAME='' @ name]),
                ei_log = ''/tmp/fsmjobPID'' @ show_int pid @ ''.log''\<rparr>
      else Inl Out_Of_Bounds)"
  using assms(3) log_path_fits [OF assms(1,2)]
  by (auto simp: child_exec_def fill_rows_result print_format_def sprintf_into_def [of 4096 "c_str prog"])

section \<open>Witnesses\<close>

theorem child_exec_spec_witness:
  "child_exec [''HOME=/''] 4711 ''/bin/writer'' ''W1'' [''-c''] [] =
     Inr \<lparr>ei_path = ''/bin/writer'', ei_argv = [''/bin/writer'', ''-c''],
          ei_envp = [''HOME=/'', ''PROCESSNAME=W1''],
          ei_log = ''/tmp/fsmjobPID'' @ show_int 4711 @ ''.log''\<rparr>"
proof -
  have "- (2 ^ 31) \<le> (4711 :: int)" and "(4711 :: int) < 2 ^ 31" and "CHR ''%'' \<notin> set (c_str ''/bin/writer'')"
    by (simp_all add: c_str_def)
  from child_exec_spec [OF this, of "[''HOME=/'']" "''W1''" "[''-c'']" "[]"] show ?thesis by (simp add: c_str_def)
qed

end
