(* ===== verification/Fsm_Control.thy ===== *)
theory Fsm_Control
  imports Fsm
begin

text \<open>
  The remote control of a state machine (\<^verbatim>\<open>fsmClient\<close>, \<^verbatim>\<open>rpcFsmMessage\<close> of \<^verbatim>\<open>src/fsm.cxx\<close>) and the
  properties of the machine. The locale is the contract of the virtual \<^verbatim>\<open>processCommand\<close> the
  RPC handler calls; the plain machine is interpreted here, the web one in its own theory.
\<close>

section \<open>Remote procedure calls\<close>

record 'j fsmClient =
  fc_m :: "'j fsmmessage"

definition fsmClient_new :: "'j jsonlib \<Rightarrow> 'j fsmClient" where
  "fsmClient_new J = \<lparr>fc_m = msg_empty J\<rparr>"

text \<open>What \<^verbatim>\<open>execute\<close> sends, and what the arrival of the answer does.\<close>

definition client_execute :: "'j fsmmessage \<Rightarrow> string" where
  "client_execute m = msg_value m"

definition rpcInfoHandler :: "'j jsonlib \<Rightarrow> string \<Rightarrow> 'j fsmClient \<Rightarrow> 'j fsmClient res" where
  "rpcInfoHandler J data c = rbind (msg_setValue J data (fc_m c)) (\<lambda>m. Inr (c\<lparr>fc_m := m\<rparr>))"

text \<open>
  The server's handler: the request is copied into an array of 32768 bytes that was zeroed, and
  read back up to the first zero byte.
\<close>

definition rpcHandler ::
  "'j jsonlib \<Rightarrow> ('j fsmmessage \<Rightarrow> 'f \<Rightarrow> 's \<Rightarrow> (string \<times> 'j fsmmessage \<times> 'f \<times> 's) res)
     \<Rightarrow> string \<Rightarrow> 'f \<Rightarrow> 's \<Rightarrow> (string \<times> 'f \<times> 's) res" where
  "rpcHandler J process data f s =
     (if 32768 < length data then Inl Out_Of_Bounds
      else if length data = 32768 \<and> CHR 0x00 \<notin> set data then Inl Out_Of_Bounds
      else
        rbind (msg_new J (c_str data)) (\<lambda>msg.
        rbind (process msg f s) (\<lambda>(_, msg', f', s'). Inr (msg_value msg', f', s'))))"

locale command_server =
  fixes J :: "'j jsonlib"
    and process :: "'j fsmmessage \<Rightarrow> 'f \<Rightarrow> 's \<Rightarrow> (string \<times> 'j fsmmessage \<times> 'f \<times> 's) res"
    and good :: "'f \<Rightarrow> bool"
  assumes process_returns:
    "json_ok J \<Longrightarrow> good f \<Longrightarrow> says J m c ct \<Longrightarrow> j_object J ct \<Longrightarrow>
     \<exists>r m' f' s' c' ct'. process m f s = Inr (r, m', f', s') \<and> good f' \<and> says J m' c' ct'"
begin

text \<open>A request through the handler does what the call does, and the client gets the reply.\<close>

lemma exchange:
  assumes "json_ok J" and "good f" and m: "says J m c ct" and "j_object J ct"
    and "length (m_sroot m) < 32768" and "CHR 0x00 \<notin> set (m_sroot m)"
    and "j_object J (m_jsroot (fc_m cl))"
  shows "\<exists>r m' f' s'. process m f s = Inr (r, m', f', s') \<and> good f' \<and>
     rpcHandler J process (client_execute m) f s = Inr (m_sroot m', f', s') \<and>
     rpcInfoHandler J (m_sroot m') cl = Inr (cl\<lparr>fc_m := m'\<rparr>)"
proof -
  from process_returns [OF assms(1-4)] obtain r m' f' s' c' ct' where
    p: "process m f s = Inr (r, m', f', s')" "good f'" "says J m' c' ct'" by blast
  have cs: "c_str (m_sroot m) = m_sroot m"
    using assms(6) by (simp add: c_str_def takeWhile_eq_all_conv) metis
  have "msg_new J (m_sroot m) = Inr m"
    using m json_text(2) [OF assms(1) json_null(1) [OF assms(1)]] by (auto simp: msg_new_def says_def)
  then have "rpcHandler J process (client_execute m) f s = Inr (m_sroot m', f', s')"
    using assms(5) p(1) by (simp add: rpcHandler_def client_execute_def msg_value_def cs)
  moreover have "msg_setValue J (m_sroot m') (fc_m cl) = Inr m'"
    using p(3) json_text(2) [OF assms(1,7)] by (auto simp: msg_setValue_def says_def)
  ultimately show ?thesis using p(1,2) by (auto simp: rpcInfoHandler_def)
qed

text \<open>A session: requests of one client, each executed in turn.\<close>

fun session :: "'j fsmmessage list \<Rightarrow> 'f \<Rightarrow> 's \<Rightarrow> 'j fsmClient \<Rightarrow> ('f \<times> 's \<times> 'j fsmClient) res" where
  "session [] f s cl = Inr (f, s, cl)"
| "session (m # ms) f s cl =
     rbind (rpcHandler J process (client_execute m) f s) (\<lambda>(ans, f', s').
     rbind (rpcInfoHandler J ans cl) (\<lambda>cl'. session ms f' s' cl'))"

lemma session_returns:
  assumes "json_ok J" and "good f" and "j_object J (m_jsroot (fc_m cl))"
    and "\<forall>m \<in> set ms. \<exists>c ct. says J m c ct \<and> j_object J ct \<and> length (m_sroot m) < 32768 \<and>
           CHR 0x00 \<notin> set (m_sroot m)"
  shows "\<exists>f' s' cl'. session ms f s cl = Inr (f', s', cl') \<and> good f'"
  using assms(2-)
proof (induction ms arbitrary: f s cl)
  case Nil
  then show ?case by simp
next
  case (Cons m ms)
  from Cons.prems(3) obtain c ct where m: "says J m c ct" "j_object J ct" "length (m_sroot m) < 32768"
    "CHR 0x00 \<notin> set (m_sroot m)" by auto
  from exchange [OF assms(1) Cons.prems(1) m Cons.prems(2), of s] obtain r m' f' s' where
    x: "process m f s = Inr (r, m', f', s')" "good f'"
    "rpcHandler J process (client_execute m) f s = Inr (m_sroot m', f', s')"
    "rpcInfoHandler J (m_sroot m') cl = Inr (cl\<lparr>fc_m := m'\<rparr>)" by blast
  from process_returns [OF assms(1) Cons.prems(1) m(1,2), of s] x(1)
  have "j_object J (m_jsroot (fc_m (cl\<lparr>fc_m := m'\<rparr>)))" by (auto simp: says_def)
  from Cons.IH [OF x(2) this, of s'] Cons.prems(3) x(3,4) show ?case by auto
qed

end

section \<open>The plain machine\<close>

definition fsm_good :: "'j jsonlib \<Rightarrow> ('j, 's, 'z) fsm_scheme \<Rightarrow> bool" where
  "fsm_good J f \<longleftrightarrow> fsm_ok f \<and> callbacks_ok J f"

lemma good_publish: "fsm_good J f \<Longrightarrow> fsm_good J (publishState (f\<lparr>f_state := st\<rparr>))"
  by (simp add: fsm_good_def fsm_ok_def callbacks_ok_def publishState_def)

lemma processCommand_returns:
  assumes "json_ok J" and "fsm_good J f" and "says J m c ct" and "j_object J ct"
  shows "\<exists>r m' f' s' c' ct'. fsm_processCommand J m f s = Inr (r, m', f', s') \<and> fsm_good J f' \<and> says J m' c' ct'"
proof (cases "transition f c (f_state f)")
  case None
  let ?text = "if map_of (f_transitions f) c = None then c @ '' not found in transitions list ''
     else ''Current State='' @ f_state f @ '' is not an initial state of the command '' @ c"
  from fsm_failed_replies [OF assms(1,3), of ?text] assms(4) obtain m' ct' where
    "fsm_failed J c ?text m = Inr m'" "says J m' c ct'" by (auto simp: replies_def)
  with None assms(2) processCommand_transition [OF says_command [OF assms(3)], of f s]
  show ?thesis by auto
next
  case (Some t)
  have cb: "callbacks_ok J f" using assms(2) by (simp add: fsm_good_def)
  from processCommand_done [OF assms(1) cb assms(3) Some, of s] obtain s' c1 ct1 m2 where
    "fsm_processCommand J m f s = Inr (tr_fstate t, m2, publishState (f\<lparr>f_state := tr_fstate t\<rparr>), s')"
    "replies J m2 c1 ''DONE'' ct1" by blast
  then show ?thesis using good_publish [OF assms(2)] unfolding replies_def by blast
qed

interpretation plain: command_server J "fsm_processCommand J" "fsm_good J" for J
  by unfold_locales (rule processCommand_returns)

section \<open>A concrete machine\<close>

definition demo_fsm :: "(string, nat) fsm" where
  "demo_fsm = addTransition ''START''
     \<lparr>tr_istate = ''CREATED'', tr_fstate = ''RUNNING'', tr_callback = (\<lambda>m s. Inr (m, s + 1))\<rparr> (fsm_new ''TEST'')"

definition demo_msg :: "string \<Rightarrow> string fsmmessage" where
  "demo_msg c =
     (let v = object [(''command'', CHR ''S'' # c), (''content'', ''N'')] in \<lparr>m_sroot = v, m_jsroot = v\<rparr>)"

lemma demo_says: "says text_json (demo_msg c) c ''N''" and demo_content: "j_object text_json ''N''"
proof -
  let ?v = "object [(''command'', CHR ''S'' # c), (''content'', ''N'')]"
  have v: "text_object ?v" "members ?v = [(''command'', CHR ''S'' # c), (''content'', ''N'')]"
    by (rule text_object_object members_object)+
  show "says text_json (demo_msg c) c ''N''"
    unfolding says_def demo_msg_def Let_def msg_command_def msg_content_def fsmmessage.simps
    by (simp only: text_json_def jsonlib.simps v if_True rbind_simps) simp
  show "j_object text_json ''N''" by (simp add: text_json_def text_object_def)
qed

text \<open>A request with an object as its content.\<close>

definition demo_command :: "string \<Rightarrow> (string \<times> string) list \<Rightarrow> string fsmmessage" where
  "demo_command c kvs =
     (let v = object [(''command'', CHR ''S'' # c), (''content'', object kvs)] in \<lparr>m_sroot = v, m_jsroot = v\<rparr>)"

lemma demo_command_says: "says text_json (demo_command c kvs) c (object kvs)" "j_object text_json (object kvs)"
  by (simp_all add: says_def demo_command_def Let_def msg_command_def msg_content_def text_members)
    (simp add: text_json_def)

lemma demo_fsm_ok: "fsm_ok demo_fsm" and demo_callbacks: "callbacks_ok text_json demo_fsm"
  and demo_start: "transition demo_fsm ''START'' ''CREATED'' =
    Some \<lparr>tr_istate = ''CREATED'', tr_fstate = ''RUNNING'', tr_callback = (\<lambda>m s. Inr (m, s + 1))\<rparr>"
proof -
  show "fsm_ok demo_fsm" unfolding demo_fsm_def by (rule fsm_ok_addTransition [OF fsm_ok_new])
  show "callbacks_ok text_json demo_fsm"
    by (auto simp: callbacks_ok_def demo_fsm_def addTransition_def fsm_new_def)
  show "transition demo_fsm ''START'' ''CREATED'' =
    Some \<lparr>tr_istate = ''CREATED'', tr_fstate = ''RUNNING'', tr_callback = (\<lambda>m s. Inr (m, s + 1))\<rparr>"
    by (simp add: transition_def demo_fsm_def addTransition_def fsm_new_def)
qed

section \<open>What a command does\<close>

text \<open>
  C25: \<^verbatim>\<open>processCommand\<close> implements the transition function. A command that has a transition from
  the current state calls its callback once, moves to its final state, publishes that state and
  answers DONE with the content the callback left; any other command changes nothing, calls
  nothing and answers FAILED with an explanation in the content, provided the content of the
  request is null or an object (on anything else the reply cannot be built and an exception
  leaves the handler).
\<close>

theorem processCommand_spec:
  assumes "json_ok J" and "callbacks_ok J f" and "says J m c ct"
  shows "case transition f c (f_state f) of
     Some t \<Rightarrow>
       (\<exists>m1 s' c1 ct1 m2. tr_callback t m s = Inr (m1, s') \<and> says J m1 c1 ct1 \<and>
          replies J m2 c1 ''DONE'' ct1 \<and>
          fsm_processCommand J m f s = Inr (tr_fstate t, m2,
            f\<lparr>f_state := tr_fstate t, f_published := f_published f @ [c_str (tr_fstate t)]\<rparr>, s'))
   | None \<Rightarrow>
       if j_object J ct
       then \<exists>m' ct' text. fsm_processCommand J m f s = Inr (''ERROR'', m', f, s) \<and>
              replies J m' c ''FAILED'' ct' \<and> answered J ct (j_str J text) ct'
       else fsm_processCommand J m f s = Inl Thrown"
proof (cases "transition f c (f_state f)")
  case None
  let ?text = "if map_of (f_transitions f) c = None then c @ '' not found in transitions list ''
     else ''Current State='' @ f_state f @ '' is not an initial state of the command '' @ c"
  from fsm_failed_replies [OF assms(1,3), of ?text] processCommand_transition [OF says_command [OF assms(3)], of f s]
    None show ?thesis by (auto split: if_splits)
next
  case (Some t)
  from processCommand_done [OF assms Some, of s] obtain m1 s' c1 ct1 m2 where
    "tr_callback t m s = Inr (m1, s')" "says J m1 c1 ct1" "replies J m2 c1 ''DONE'' ct1"
    "fsm_processCommand J m f s = Inr (tr_fstate t, m2, publishState (f\<lparr>f_state := tr_fstate t\<rparr>), s')"
    by blast
  then show ?thesis unfolding Some option.case publishState_def by auto
qed

text \<open>
  A transition table keeps, for each command and initial state, the transition that was
  added first: adding one for a pair that has one already changes nothing, otherwise exactly
  that pair changes; the table keeps its invariant (sorted, one entry per pair).
\<close>

theorem addTransition_spec:
  assumes "fsm_ok f"
  shows "fsm_ok (addTransition cmd t f) \<and>
     transition (addTransition cmd t f) c st =
       (case transition f c st of
          Some u \<Rightarrow> Some u
        | None \<Rightarrow> if c = cmd \<and> st = tr_istate t then Some t else None) \<and>
     f_state (addTransition cmd t f) = f_state f"
proof -
  have "f_state (addTransition cmd t f) = f_state f"
    by (simp add: addTransition_def split: option.split)
  then show ?thesis
    using fsm_ok_addTransition [OF assms] transition_addTransition [OF assms, of cmd t c st]
    by (auto split: option.splits)
qed

section \<open>The list of allowed commands\<close>

lemma append_name_ok:
  assumes "json_ok J"
  shows "\<exists>e. j_get J ''name'' e = Inr (j_str J n) \<and> (\<forall>v. append_name J n v = j_append J v e)"
proof -
  obtain e where "j_set J ''name'' (j_str J n) (j_null J) = Inr e" "j_get J ''name'' e = Inr (j_str J n)"
    by (rule json_set [OF assms json_null(1) [OF assms], of "''name''" "j_str J n"]) blast
  then show ?thesis by (auto simp: append_name_def)
qed

text \<open>A list of names built by a loop over a table, with a condition.\<close>

lemma name_list:
  assumes "json_ok J" and "v = j_null J \<or> j_elems J v \<noteq> []"
  shows "\<exists>v'. rfold (\<lambda>(n, x) v. if P x then append_name J n v else Inr v) tab v = Inr v' \<and>
     map (j_get J ''name'') (j_elems J v') =
       map (j_get J ''name'') (j_elems J v) @ map (\<lambda>(n, x). Inr (j_str J n)) (filter (\<lambda>(n, x). P x) tab)"
  using assms(2)
proof (induction tab arbitrary: v)
  case Nil
  then show ?case by simp
next
  case (Cons e tab)
  obtain n x where e: "e = (n, x)" by (cases e)
  show ?case
  proof (cases "P x")
    case False
    with Cons.IH [OF Cons.prems] show ?thesis by (simp add: e)
  next
    case True
    from append_name_ok [OF assms(1), of n] obtain a where
      a: "j_get J ''name'' a = Inr (j_str J n)" "\<And>v. append_name J n v = j_append J v a" by blast
    from json_append [OF assms(1) Cons.prems, of a] obtain v1 where
      v1: "j_append J v a = Inr v1" "j_elems J v1 = j_elems J v @ [a]" by blast
    from Cons.IH [of v1] v1(2) obtain v' where
      v': "rfold (\<lambda>(n, x) v. if P x then append_name J n v else Inr v) tab v1 = Inr v'"
      "map (j_get J ''name'') (j_elems J v') = map (j_get J ''name'') (j_elems J v1) @
         map (\<lambda>(n, x). Inr (j_str J n)) (filter (\<lambda>(n, x). P x) tab)" by auto
    with True a v1 show ?thesis by (simp add: e)
  qed
qed

text \<open>
  C38: the list of allowed commands is exact: it names, in increasing order and once each, the
  commands that have a transition from the current state, that is, by the specification of
  \<^verbatim>\<open>processCommand\<close>, those that would be executed rather than refused.
\<close>

theorem allowList_exact:
  assumes "json_ok J" and "fsm_ok f"
  shows "\<exists>v names. allowList J f = Inr v \<and>
     map (j_get J ''name'') (j_elems J v) = map (\<lambda>n. Inr (j_str J n)) names \<and>
     sorted_wrt (<) names \<and> (\<forall>c. c \<in> set names \<longleftrightarrow> transition f c (f_state f) \<noteq> None)"
proof -
  let ?P = "\<lambda>vp. \<exists>t \<in> set vp. tr_istate t = f_state f"
  let ?names = "map fst (filter (\<lambda>(n, vp). ?P vp) (f_transitions f))"
  have ok: "map_ok (f_transitions f)" using assms(2) by (simp add: fsm_ok_def)
  from name_list [OF assms(1), of "j_null J" ?P "f_transitions f"] json_null(4) [OF assms(1)]
  obtain v where v: "allowList J f = Inr v"
    "map (j_get J ''name'') (j_elems J v) = map (\<lambda>(n, x). Inr (j_str J n)) (filter (\<lambda>(n, vp). ?P vp) (f_transitions f))"
    unfolding allowList_def by auto
  have names: "map (\<lambda>(n, x). Inr (j_str J n)) (filter (\<lambda>(n, vp). ?P vp) (f_transitions f)) =
      map (\<lambda>n. Inr (j_str J n)) ?names" by (simp add: case_prod_beta)
  have "sorted_wrt (<) ?names"
    using map_ok_filter [OF ok, of "\<lambda>(n, vp). ?P vp"] by (simp add: map_ok_def)
  moreover have "c \<in> set ?names \<longleftrightarrow> transition f c (f_state f) \<noteq> None" for c
  proof -
    have "c \<in> set ?names \<longleftrightarrow> (\<exists>vp. map_of (f_transitions f) c = Some vp \<and> ?P vp)"
      using map_of_eq_Some_iff [OF map_ok_distinct [OF ok]] by force
    then show ?thesis
      using find_exists [of tr_istate "f_state f"] by (auto simp: transition_def split: option.splits)
  qed
  ultimately show ?thesis using v(1) v(2) [unfolded names] by blast
qed

section \<open>Reachable machines\<close>

text \<open>Declarations and commands, in any order, on a machine and its application.\<close>

inductive fsm_step :: "'j jsonlib \<Rightarrow> ('j, 's) fsm \<times> 's \<Rightarrow> ('j, 's) fsm \<times> 's \<Rightarrow> bool" for J where
  declare_state: "fsm_step J (f, s) (addState n f, s)"
| declare_transition: "fsm_step J (f, s) (addTransition cmd t f, s)"
| command: "fsm_processCommand J m f s = Inr (r, m', f', s') \<Longrightarrow> fsm_step J (f, s) (f', s')"

definition final_states :: "('j, 's) fsm \<Rightarrow> string set" where
  "final_states f = {tr_fstate t |t c st. transition f c st = Some t}"

definition fsm_inv :: "('j, 's) fsm \<Rightarrow> bool" where
  "fsm_inv f \<longleftrightarrow> fsm_ok f \<and> f_published f \<noteq> [] \<and> last (f_published f) = c_str (f_state f) \<and>
     f_state f \<in> insert ''CREATED'' (final_states f)"

lemma fsm_inv_new: "fsm_inv (fsm_new n)"
  by (simp add: fsm_inv_def fsm_ok_new) (simp add: fsm_new_def)

lemma transition_same_table:
  "f_transitions f' = f_transitions f \<Longrightarrow> transition f' = transition f"
  by (intro ext) (simp add: transition_def)

lemma final_states_add:
  assumes "fsm_ok f"
  shows "final_states f \<subseteq> final_states (addTransition cmd t f)"
proof
  fix x
  assume "x \<in> final_states f"
  then obtain u c st where u: "transition f c st = Some u" "x = tr_fstate u"
    by (auto simp: final_states_def)
  then have "transition (addTransition cmd t f) c st = Some u"
    using transition_addTransition [OF assms, of cmd t c st] by auto
  with u(2) show "x \<in> final_states (addTransition cmd t f)" by (auto simp: final_states_def)
qed

lemma command_keeps_inv:
  assumes "fsm_processCommand J m f s = Inr (r, m', f', s')" and "fsm_inv f"
  shows "fsm_inv f'"
proof -
  from assms(1) obtain c where c: "msg_command J m = Inr c" by (auto simp: fsm_processCommand_def)
  show ?thesis
  proof (cases "transition f c (f_state f)")
    case None
    with assms processCommand_transition [OF c, of f s] show ?thesis by auto
  next
    case (Some t)
    with assms(1) processCommand_transition [OF c, of f s]
    have f': "f' = publishState (f\<lparr>f_state := tr_fstate t\<rparr>)" by auto
    have "transition f' = transition f" by (rule transition_same_table) (simp add: f' publishState_def)
    then have "final_states f' = final_states f" by (simp add: final_states_def)
    moreover have "tr_fstate t \<in> final_states f" using Some by (auto simp: final_states_def)
    ultimately show ?thesis using assms(2) by (simp add: f' fsm_inv_def publishState_def fsm_ok_def)
  qed
qed

lemma step_keeps_fsm_inv:
  assumes "fsm_step J c c'" and "fsm_inv (fst c)"
  shows "fsm_inv (fst c')"
  using assms
proof (induction rule: fsm_step.induct)
  case (declare_state f s n)
  have "transition (addState n f) = transition f" by (rule transition_same_table) (simp add: addState_def)
  with declare_state show ?case by (simp add: fsm_inv_def final_states_def addState_def fsm_ok_def)
next
  case (declare_transition f s cmd t)
  then have ok: "fsm_ok f" by (simp add: fsm_inv_def)
  have "f_published (addTransition cmd t f) = f_published f" "f_state (addTransition cmd t f) = f_state f"
    by (simp_all add: addTransition_def split: option.split)
  with declare_transition fsm_ok_addTransition [OF ok] final_states_add [OF ok, of cmd t]
  show ?case by (auto simp: fsm_inv_def)
next
  case (command m f s r m' f' s')
  with command_keeps_inv show ?case by simp
qed

text \<open>
  C26: whatever is declared and commanded, in whatever order, a machine is always in its first
  state CREATED or in the final state of a declared transition (whether or not that state was
  declared), and the state it has published last is the state it is in.
\<close>

theorem published_state_is_current:
  assumes "(fsm_step J)\<^sup>*\<^sup>* (fsm_new n, s0) (f, s)"
  shows "last (f_published f) = c_str (f_state f) \<and>
     (f_state f = ''CREATED'' \<or> (\<exists>c st t. transition f c st = Some t \<and> f_state f = tr_fstate t))"
proof -
  have "fsm_inv (fst (f, s))"
    using assms
  proof (induction rule: rtranclp_induct)
    case base
    show ?case by (simp add: fsm_inv_new)
  next
    case (step c c')
    from step_keeps_fsm_inv [OF step(2,3)] show ?case .
  qed
  then show ?thesis by (auto simp: fsm_inv_def final_states_def)
qed

section \<open>Witnesses\<close>

theorem processCommand_spec_witness:
  "\<exists>m2. fsm_processCommand text_json (demo_msg ''START'') demo_fsm 0 = Inr (''RUNNING'', m2,
     demo_fsm\<lparr>f_state := ''RUNNING'', f_published := f_published demo_fsm @ [c_str ''RUNNING'']\<rparr>, 1)"
proof -
  have st: "f_state demo_fsm = ''CREATED''" by (simp add: demo_fsm_def addTransition_def fsm_new_def)
  from processCommand_spec [OF text_json_ok demo_callbacks demo_says, of "''START''" 0]
  show ?thesis unfolding st demo_start by auto
qed

theorem addTransition_spec_witness:
  "transition (addTransition ''START''
     \<lparr>tr_istate = ''CREATED'', tr_fstate = ''LOST'', tr_callback = (\<lambda>m s. Inr (m, s))\<rparr> demo_fsm) ''START'' ''CREATED'' =
   transition demo_fsm ''START'' ''CREATED''"
  using addTransition_spec [OF demo_fsm_ok, of "''START''"
    "\<lparr>tr_istate = ''CREATED'', tr_fstate = ''LOST'', tr_callback = (\<lambda>m s. Inr (m, s))\<rparr>" "''START''" "''CREATED''"]
  by (simp add: demo_start)

theorem allowList_exact_witness:
  "\<exists>v names. allowList text_json demo_fsm = Inr v \<and>
     map (j_get text_json ''name'') (j_elems text_json v) = map (\<lambda>n. Inr (j_str text_json n)) names \<and>
     ''START'' \<in> set names \<and> ''STOP'' \<notin> set names"
proof -
  have st: "f_state demo_fsm = ''CREATED''" by (simp add: demo_fsm_def addTransition_def fsm_new_def)
  have stop: "transition demo_fsm ''STOP'' ''CREATED'' = None"
    by (simp add: transition_def demo_fsm_def addTransition_def fsm_new_def)
  from allowList_exact [OF text_json_ok demo_fsm_ok] show ?thesis
    unfolding st using demo_start stop by (metis option.distinct(1))
qed

theorem published_state_is_current_witness:
  "last (f_published demo_fsm) = c_str (f_state demo_fsm)"
proof -
  have "(fsm_step text_json)\<^sup>*\<^sup>* (fsm_new ''TEST'', 0) (demo_fsm, 0)"
    unfolding demo_fsm_def by (rule r_into_rtranclp) (rule fsm_step.declare_transition)
  from published_state_is_current [OF this] show ?thesis by blast
qed

end
