(* ===== verification/Fsm_Web.thy ===== *)
theory Fsm_Web
  imports Fsm_Control Stdio
begin

text \<open>
  \<^verbatim>\<open>src/fsmweb.cxx\<close>: the state machine served over HTTP. \<^verbatim>\<open>fsmweb\<close> extends the plain machine; its
  pages are the functions of \<^verbatim>\<open>FSMMongo\<close>. The HTTP server (mongoose) is not in the repository: a
  request is what its parameters read as, a response is a JSON value and headers.
\<close>

section \<open>State\<close>

type_synonym request = "string \<Rightarrow> string option"

record 'j response =
  rs_json :: 'j
  rs_headers :: "(string \<times> string) list"

text \<open>
  The function of a page command: besides the request, the response and the application it may
  read the state of the machine.
\<close>

type_synonym ('j, 's) page_function =
  "request \<Rightarrow> string \<Rightarrow> 'j response \<Rightarrow> 's \<Rightarrow> ('j response \<times> 's) res"

record ('j, 's) fsmweb = "('j, 's) fsm" +
  fw_running :: bool
  fw_name :: string
  fw_webName :: string
  fw_commands :: "(string, ('j, 's) page_function) smap"
  fw_webState :: "string option"
  fw_webSent :: "string list"

definition request_get :: "string \<Rightarrow> string \<Rightarrow> request \<Rightarrow> string" where
  "request_get k d r = (case r k of Some v \<Rightarrow> v | None \<Rightarrow> d)"

definition setHeader :: "string \<Rightarrow> string \<Rightarrow> 'j response \<Rightarrow> 'j response" where
  "setHeader k v r = r\<lparr>rs_headers := rs_headers r @ [(k, v)]\<rparr>"

definition response_set :: "'j jsonlib \<Rightarrow> string \<Rightarrow> 'j \<Rightarrow> 'j response \<Rightarrow> 'j response res" where
  "response_set J k v r = rbind (j_set J k v (rs_json r)) (\<lambda>j. Inr (r\<lparr>rs_json := j\<rparr>))"

definition response_new :: "'j jsonlib \<Rightarrow> 'j response" where
  "response_new J = \<lparr>rs_json = j_null J, rs_headers = []\<rparr>"

section \<open>The machine\<close>

definition fsmweb_new :: "string \<Rightarrow> ('j, 's) fsmweb" where
  "fsmweb_new n = fsm.extend (fsm_new n)
     \<lparr>fw_running = False, fw_name = n, fw_webName = [], fw_commands = [], fw_webState = None,
      fw_webSent = []\<rparr>"

definition fsmweb_start :: "string \<Rightarrow> u32 \<Rightarrow> ('j, 's) fsmweb \<Rightarrow> ('j, 's) fsmweb" where
  "fsmweb_start hostname port f =
     (let webName = ''http://'' @ hostname @ '':'' @ show32 port @ ''/'' @ fw_name f in
      f\<lparr>fw_running := True, fw_webName := webName, fw_webState := Some (''/FSM/'' @ fw_name f @ ''/WEB''),
        fw_webSent := fw_webSent f @ [c_str webName]\<rparr>)"

definition fsmweb_stop :: "('j, 's) fsmweb \<Rightarrow> ('j, 's) fsmweb" where
  "fsmweb_stop f = f\<lparr>fw_running := False\<rparr>"

definition fsmweb_processCommand ::
  "'j jsonlib \<Rightarrow> 'j fsmmessage \<Rightarrow> ('j, 's) fsmweb \<Rightarrow> 's
     \<Rightarrow> (string \<times> 'j fsmmessage \<times> ('j, 's) fsmweb \<times> 's) res" where
  "fsmweb_processCommand J m f s =
     (case fw_webState f of
        None \<Rightarrow> fsm_processCommand J m f s
      | Some _ \<Rightarrow>
          rbind (msg_command J m) (\<lambda>c.
          if c = ''?'' then Inr (f_state f, m, f\<lparr>fw_webSent := fw_webSent f @ [c_str (fw_webName f)]\<rparr>, s)
          else fsm_processCommand J m f s))"

definition addCommand ::
  "string \<Rightarrow> ('j, 's) page_function \<Rightarrow> ('j, 's) fsmweb \<Rightarrow> ('j, 's) fsmweb" where
  "addCommand n g f = f\<lparr>fw_commands := map_insert n g (fw_commands f)\<rparr>"

definition handleRequest ::
  "'j jsonlib \<Rightarrow> ('j, 's) fsmweb \<Rightarrow> request \<Rightarrow> 'j response \<Rightarrow> 's \<Rightarrow> ('j response \<times> 's) res" where
  "handleRequest J f rq rsp s =
     (let scommand = request_get ''name'' ''NOTSET'' rq in
      if scommand = ''NOTSET'' then
        rbind (response_set J ''status'' (j_str J ''No command or content given'') rsp) (\<lambda>r. Inr (r, s))
      else
        (case map_of (fw_commands f) scommand of
           None \<Rightarrow> rbind (response_set J ''status'' (j_str J ''Unknown Command'') rsp) (\<lambda>r. Inr (r, s))
         | Some g \<Rightarrow>
             rbind (g rq (f_state f) (response_new J) s) (\<lambda>(pRep, s').
             rbind (response_set J ''answer'' (rs_json pRep) rsp) (\<lambda>r1.
             rbind (response_set J ''status'' (j_str J ''OK'') r1) (\<lambda>r2.
             Inr (r2, s'))))))"

definition commandsList :: "'j jsonlib \<Rightarrow> ('j, 's) fsmweb \<Rightarrow> 'j res" where
  "commandsList J f = rfold (\<lambda>(n, g). append_name J n) (fw_commands f) (j_null J)"

section \<open>The pages\<close>

definition fsmProcess ::
  "'j jsonlib \<Rightarrow> ('j, 's) fsmweb \<Rightarrow> request \<Rightarrow> 'j response \<Rightarrow> 's
     \<Rightarrow> ('j response \<times> ('j, 's) fsmweb \<times> 's) res" where
  "fsmProcess J f rq rsp0 s =
     (let rsp = setHeader ''Access-Control-Allow-Origin'' ''*'' rsp0;
          scommand = request_get ''command'' ''NOTSET'' rq;
          scontent = request_get ''content'' ''NOTSET'' rq in
      if scommand = ''NOTSET'' \<or> scontent = ''NOTSET'' then
        rbind (response_set J ''status'' (j_str J ''No command or content given'') rsp) (\<lambda>r. Inr (r, f, s))
      else
        rbind (j_set J ''command'' (j_str J scommand) (j_null J)) (\<lambda>v1.
        rbind (j_set J ''content'' (j_parse J scontent) v1) (\<lambda>v2.
        rbind (msg_setValue J (j_write J v2) (msg_empty J)) (\<lambda>m.
        rbind (fsmweb_processCommand J m f s) (\<lambda>(res, m', f', s').
        Inr (rsp\<lparr>rs_json := j_parse J (msg_value m')\<rparr>, f', s'))))))"

definition cmdProcess ::
  "'j jsonlib \<Rightarrow> ('j, 's) fsmweb \<Rightarrow> request \<Rightarrow> 'j response \<Rightarrow> 's \<Rightarrow> ('j response \<times> 's) res" where
  "cmdProcess J f rq rsp s =
     handleRequest J f rq (setHeader ''Access-Control-Allow-Origin'' ''*'' rsp) s"

definition list_page :: "'j jsonlib \<Rightarrow> int \<Rightarrow> ('j, 's) fsmweb \<Rightarrow> 'j response \<Rightarrow> 'j response res" where
  "list_page J pid f rsp =
     rbind (response_set J ''PREFIX'' (j_str J (fw_name f)) rsp) (\<lambda>r1.
     rbind (transitionsList J f) (\<lambda>tl. rbind (response_set J ''FSM'' tl r1) (\<lambda>r2.
     rbind (allowList J f) (\<lambda>al. rbind (response_set J ''ALLOWED'' al r2) (\<lambda>r3.
     rbind (commandsList J f) (\<lambda>cl. rbind (response_set J ''CMD'' cl r3) (\<lambda>r4.
     rbind (response_set J ''STATE'' (j_str J (f_state f)) r4) (\<lambda>r5.
     rbind (response_set J ''PID'' (j_int J pid) r5) (\<lambda>r6.
     Inr (setHeader ''Access-Control-Allow-Origin'' ''*'' r6))))))))))"

datatype page = List_Page | Fsm_Page | Cmd_Page

text \<open>The routes of \<^verbatim>\<open>setup\<close>: method, full path, page; the prefix applies to the later ones.\<close>

definition routes :: "string \<Rightarrow> (string \<times> string \<times> page) list" where
  "routes n =
     [(''GET'', ''/'', List_Page), (''GET'', ''/'' @ n @ ''/'', List_Page),
      (''GET'', ''/'' @ n @ ''/FSM'', Fsm_Page), (''GET'', ''/'' @ n @ ''/CMD'', Cmd_Page)]"

section \<open>The contract of the RPC handler\<close>

lemma web_returns:
  assumes "json_ok J" and "fsm_good J f" and "says J m c ct" and "j_object J ct"
  shows "\<exists>r m' f' s' c' ct'. fsmweb_processCommand J m f s = Inr (r, m', f', s') \<and> fsm_good J f' \<and> says J m' c' ct'"
proof (cases "fw_webState f = None \<or> c \<noteq> ''?''")
  case True
  then have "fsmweb_processCommand J m f s = fsm_processCommand J m f s"
    using says_command [OF assms(3)] by (auto simp: fsmweb_processCommand_def split: option.split)
  with processCommand_returns [OF assms, of s] show ?thesis by simp
next
  case False
  then have "fsmweb_processCommand J m f s =
      Inr (f_state f, m, f\<lparr>fw_webSent := fw_webSent f @ [c_str (fw_webName f)]\<rparr>, s)"
    using says_command [OF assms(3)] by (auto simp: fsmweb_processCommand_def)
  moreover have "fsm_good J (f\<lparr>fw_webSent := fw_webSent f @ [c_str (fw_webName f)]\<rparr>)"
    using assms(2) by (simp add: fsm_good_def fsm_ok_def callbacks_ok_def)
  ultimately show ?thesis using assms(3) by blast
qed

interpretation web: command_server J "fsmweb_processCommand J" "fsm_good J" for J
  by unfold_locales (rule web_returns)

section \<open>Properties\<close>

text \<open>The message a request of the machine's page stands for.\<close>

lemma page_message:
  assumes "json_ok J"
  obtains v1 v2 where "j_set J ''command'' (j_str J c) (j_null J) = Inr v1"
    "j_set J ''content'' ct v1 = Inr v2" "j_object J v2"
    "says J \<lparr>m_sroot = j_write J v2, m_jsroot = v2\<rparr> c ct"
proof -
  obtain v1 where v1: "j_set J ''command'' (j_str J c) (j_null J) = Inr v1" "j_object J v1"
    "j_get J ''command'' v1 = Inr (j_str J c)"
    by (rule json_set [OF assms json_null(1) [OF assms]]) blast
  obtain v2 where v2: "j_set J ''content'' ct v1 = Inr v2" "j_object J v2"
    "j_get J ''content'' v2 = Inr ct" "\<And>k. k \<noteq> ''content'' \<Longrightarrow> j_get J k v2 = j_get J k v1"
    by (rule json_set [OF assms v1(2)]) blast
  have "says J \<lparr>m_sroot = j_write J v2, m_jsroot = v2\<rparr> c ct"
    using v1 v2 json_null(3) [OF assms] json_text(1) [OF assms v2(2)]
    by (simp add: says_def msg_command_def msg_content_def)
  with v1 v2 show thesis by (intro that)
qed

text \<open>What the machine's page does with a request.\<close>

lemma page_command:
  assumes "json_ok J" and "fsm_good J f"
    and "rq ''command'' = Some c" and "rq ''content'' = Some ct" and "c \<noteq> ''NOTSET''" and "ct \<noteq> ''NOTSET''"
    and "j_object J (j_parse J ct)"
  obtains m r m' f' s' c' ct' where "says J m c (j_parse J ct)" "fsmweb_processCommand J m f s = Inr (r, m', f', s')"
    "fsm_good J f'" "says J m' c' ct'"
    "fsmProcess J f rq rsp s = Inr (rsp\<lparr>rs_json := m_jsroot m',
        rs_headers := rs_headers rsp @ [(''Access-Control-Allow-Origin'', ''*'')]\<rparr>, f', s')"
proof -
  obtain v1 v2 where v: "j_set J ''command'' (j_str J c) (j_null J) = Inr v1"
    "j_set J ''content'' (j_parse J ct) v1 = Inr v2" "j_object J v2"
    "says J \<lparr>m_sroot = j_write J v2, m_jsroot = v2\<rparr> c (j_parse J ct)"
    by (rule page_message [OF assms(1)])
  let ?m = "\<lparr>m_sroot = j_write J v2, m_jsroot = v2\<rparr>"
  from web_returns [OF assms(1,2) v(4) assms(7), of s] obtain r m' f' s' c' ct' where
    p: "fsmweb_processCommand J ?m f s = Inr (r, m', f', s')" "fsm_good J f'" "says J m' c' ct'" by blast
  have empty: "j_object J (m_jsroot (msg_empty J))"
    using json_null(1) [OF assms(1)] by (simp add: msg_empty_def)
  have "fsmProcess J f rq rsp s = Inr (rsp\<lparr>rs_json := m_jsroot m',
        rs_headers := rs_headers rsp @ [(''Access-Control-Allow-Origin'', ''*'')]\<rparr>, f', s')"
    using assms(3-6) v(1,2) setValue_written [OF assms(1) empty v(3)] p
    by (simp add: fsmProcess_def Let_def request_get_def setHeader_def says_def msg_value_def)
  with v(4) p show thesis by (rule that)
qed

text \<open>
  C27: a command sent to the web page does what it does over the RPC: the request's command and
  content make a message with which the handler leaves the same machine and application, and
  the page answers with the value of the text the handler replies; the RPC client that sends
  this message reads the same value. (The RPC passes at most 32767 characters, none of them 0.)
\<close>

theorem web_and_rpc_agree:
  assumes "json_ok J" and "fsm_good J f"
    and "rq ''command'' = Some c" and "rq ''content'' = Some ct" and "c \<noteq> ''NOTSET''" and "ct \<noteq> ''NOTSET''"
    and "j_object J (j_parse J ct)"
  shows "\<exists>m r m' f' s'. says J m c (j_parse J ct) \<and> fsmweb_processCommand J m f s = Inr (r, m', f', s') \<and>
     fsmProcess J f rq rsp s = Inr (rsp\<lparr>rs_json := m_jsroot m',
        rs_headers := rs_headers rsp @ [(''Access-Control-Allow-Origin'', ''*'')]\<rparr>, f', s') \<and>
     (length (m_sroot m) < 32768 \<and> CHR 0x00 \<notin> set (m_sroot m) \<longrightarrow>
        rpcHandler J (fsmweb_processCommand J) (client_execute m) f s = Inr (m_sroot m', f', s') \<and>
        rpcInfoHandler J (m_sroot m') (fsmClient_new J) = Inr \<lparr>fc_m = m'\<rparr>)"
proof -
  obtain m r m' f' s' c' ct' where
    p: "says J m c (j_parse J ct)" "fsmweb_processCommand J m f s = Inr (r, m', f', s')"
    "fsm_good J f'" "says J m' c' ct'"
    "fsmProcess J f rq rsp s = Inr (rsp\<lparr>rs_json := m_jsroot m',
        rs_headers := rs_headers rsp @ [(''Access-Control-Allow-Origin'', ''*'')]\<rparr>, f', s')"
    by (rule page_command [OF assms])
  have "j_object J (m_jsroot (fc_m (fsmClient_new J)))"
    using json_null(1) [OF assms(1)] by (simp add: msg_empty_def fsmClient_new_def)
  from web.exchange [OF assms(1,2) p(1) assms(7) _ _ this, of s] p(2)
  have "rpcHandler J (fsmweb_processCommand J) (client_execute m) f s = Inr (m_sroot m', f', s') \<and>
      rpcInfoHandler J (m_sroot m') (fsmClient_new J) = Inr \<lparr>fc_m = m'\<rparr>"
    if "length (m_sroot m) < 32768 \<and> CHR 0x00 \<notin> set (m_sroot m)"
    using that by (auto simp: fsmClient_new_def)
  with p(1,2,5) show ?thesis by blast
qed

text \<open>
  The query command is answered only by a machine whose web service has been started, and
  then changes nothing: the reply is the request, the result the current state, the address of
  the service is sent again. Before the start it is an ordinary command.
\<close>

theorem query_command:
  assumes "says J m ''?'' ct"
  shows "fsmweb_processCommand J m (fsmweb_start host port f) s =
       Inr (f_state f, m, (fsmweb_start host port f)\<lparr>fw_webSent := fw_webSent f @
          replicate 2 (c_str (''http://'' @ host @ '':'' @ show32 port @ ''/'' @ fw_name f))\<rparr>, s) \<and>
     (fw_webState f = None \<longrightarrow> fsmweb_processCommand J m f s = fsm_processCommand J m f s)"
  using says_command [OF assms]
  by (simp add: fsmweb_processCommand_def fsmweb_start_def Let_def numeral_2_eq_2)

text \<open>
  A page command is found by its name, the first one added under a name counts: its answer is
  the value its function leaves in a fresh response, its effect that of the function. A request
  that names no command or an unknown one calls nothing and says so in the status.
\<close>

theorem command_page:
  assumes "json_ok J" and "map_ok (fw_commands f)" and "j_object J (rs_json rsp)"
    and "c = request_get ''name'' ''NOTSET'' rq"
  shows "case (if c = ''NOTSET'' then None
      else case map_of (fw_commands f) c of Some h \<Rightarrow> Some h | None \<Rightarrow> if c = n then Some g else None) of
     None \<Rightarrow>
       \<exists>rsp'. cmdProcess J (addCommand n g f) rq rsp s = Inr (rsp', s) \<and>
         j_get J ''status'' (rs_json rsp') = Inr (j_str J
           (if c = ''NOTSET'' then ''No command or content given'' else ''Unknown Command''))
   | Some h \<Rightarrow>
       \<forall>pr s'. h rq (f_state f) (response_new J) s = Inr (pr, s') \<longrightarrow>
         (\<exists>rsp'. cmdProcess J (addCommand n g f) rq rsp s = Inr (rsp', s') \<and>
            j_get J ''answer'' (rs_json rsp') = Inr (rs_json pr) \<and>
            j_get J ''status'' (rs_json rsp') = Inr (j_str J ''OK''))"
    (is "case ?l of None \<Rightarrow> _ | Some h \<Rightarrow> _")
proof -
  let ?rsp = "setHeader ''Access-Control-Allow-Origin'' ''*'' rsp"
  have obj: "j_object J (rs_json ?rsp)" using assms(3) by (simp add: setHeader_def)
  have look: "map_of (fw_commands (addCommand n g f)) c =
      (case map_of (fw_commands f) c of Some h \<Rightarrow> Some h | None \<Rightarrow> if c = n then Some g else None)"
    using smap.find_ins [OF assms(2), of n g c] by (auto simp: addCommand_def split: option.split)
  have st: "f_state (addCommand n g f) = f_state f" by (simp add: addCommand_def)
  show ?thesis
  proof (cases ?l)
    case None
    obtain v where v: "j_set J ''status'' (j_str J (if c = ''NOTSET'' then ''No command or content given''
        else ''Unknown Command'')) (rs_json ?rsp) = Inr v"
      "j_get J ''status'' v = Inr (j_str J (if c = ''NOTSET'' then ''No command or content given''
        else ''Unknown Command''))"
      by (rule json_set [OF assms(1) obj]) blast
    with None look show ?thesis
      by (auto simp: cmdProcess_def handleRequest_def response_set_def Let_def assms(4) [symmetric] split: if_splits)
  next
    case (Some h)
    then have h: "c \<noteq> ''NOTSET''" "map_of (fw_commands (addCommand n g f)) c = Some h"
      using look by (auto split: if_splits)
    have "\<exists>rsp'. cmdProcess J (addCommand n g f) rq rsp s = Inr (rsp', s') \<and>
        j_get J ''answer'' (rs_json rsp') = Inr (rs_json pr) \<and>
        j_get J ''status'' (rs_json rsp') = Inr (j_str J ''OK'')"
      if run: "h rq (f_state f) (response_new J) s = Inr (pr, s')" for pr s'
    proof -
      obtain v1 where v1: "j_set J ''answer'' (rs_json pr) (rs_json ?rsp) = Inr v1" "j_object J v1"
        "j_get J ''answer'' v1 = Inr (rs_json pr)"
        by (rule json_set [OF assms(1) obj]) blast
      obtain v2 where v2: "j_set J ''status'' (j_str J ''OK'') v1 = Inr v2"
        "j_get J ''status'' v2 = Inr (j_str J ''OK'')" "\<And>k. k \<noteq> ''status'' \<Longrightarrow> j_get J k v2 = j_get J k v1"
        by (rule json_set [OF assms(1) v1(2)]) blast
      from h run v1 v2 show ?thesis
        by (simp add: st cmdProcess_def handleRequest_def response_set_def Let_def assms(4) [symmetric])
    qed
    then show ?thesis unfolding Some by simp
  qed
qed

section \<open>The list page\<close>

lemma response_set_ok:
  assumes "json_ok J" and "j_object J (rs_json r)"
  obtains r' where "response_set J k v r = Inr r'" "j_object J (rs_json r')" "j_get J k (rs_json r') = Inr v"
    "\<And>k'. k' \<noteq> k \<Longrightarrow> j_get J k' (rs_json r') = j_get J k' (rs_json r)"
proof -
  obtain j where j: "j_set J k v (rs_json r) = Inr j" "j_object J j" "j_get J k j = Inr v"
    "\<And>k'. k' \<noteq> k \<Longrightarrow> j_get J k' j = j_get J k' (rs_json r)"
    by (rule json_set [OF assms]) blast
  show thesis by (rule that [of "r\<lparr>rs_json := j\<rparr>"]) (use j in \<open>simp_all add: response_set_def\<close>)
qed

lemma lists_return:
  assumes "json_ok J"
  shows "\<exists>v. transitionsList J f = Inr v" "\<exists>v. allowList J f = Inr v" "\<exists>v. commandsList J f = Inr v"
proof -
  note N = json_null(4) [OF assms]
  show "\<exists>v. transitionsList J f = Inr v"
    using name_list [OF assms, of "j_null J" "\<lambda>_. True" "f_transitions f"] N by (auto simp: transitionsList_def)
  show "\<exists>v. commandsList J f = Inr v"
    using name_list [OF assms, of "j_null J" "\<lambda>_. True" "fw_commands f"] N by (auto simp: commandsList_def)
  show "\<exists>v. allowList J f = Inr v"
    using name_list [OF assms, of "j_null J" "\<lambda>vp. \<exists>t \<in> set vp. tr_istate t = f_state f" "f_transitions f"] N
    by (auto simp: allowList_def)
qed

lemma list_page_fields:
  assumes "json_ok J" and "j_object J (rs_json rsp)"
  obtains rsp' al where "list_page J pid f rsp = Inr rsp'" "j_object J (rs_json rsp')"
    "j_get J ''PREFIX'' (rs_json rsp') = Inr (j_str J (fw_name f))"
    "j_get J ''STATE'' (rs_json rsp') = Inr (j_str J (f_state f))"
    "allowList J f = Inr al" "j_get J ''ALLOWED'' (rs_json rsp') = Inr al"
proof -
  from lists_return [OF assms(1), of f] obtain tl al cl where
    l: "transitionsList J f = Inr tl" "allowList J f = Inr al" "commandsList J f = Inr cl" by blast
  note R = response_set_ok [OF assms(1)]
  obtain r1 where r1: "response_set J ''PREFIX'' (j_str J (fw_name f)) rsp = Inr r1" "j_object J (rs_json r1)"
    "j_get J ''PREFIX'' (rs_json r1) = Inr (j_str J (fw_name f))" by (rule R [OF assms(2)]) blast
  obtain r2 where r2: "response_set J ''FSM'' tl r1 = Inr r2" "j_object J (rs_json r2)"
    "\<And>k. k \<noteq> ''FSM'' \<Longrightarrow> j_get J k (rs_json r2) = j_get J k (rs_json r1)" by (rule R [OF r1(2)]) blast
  obtain r3 where r3: "response_set J ''ALLOWED'' al r2 = Inr r3" "j_object J (rs_json r3)"
    "j_get J ''ALLOWED'' (rs_json r3) = Inr al"
    "\<And>k. k \<noteq> ''ALLOWED'' \<Longrightarrow> j_get J k (rs_json r3) = j_get J k (rs_json r2)" by (rule R [OF r2(2)]) blast
  obtain r4 where r4: "response_set J ''CMD'' cl r3 = Inr r4" "j_object J (rs_json r4)"
    "\<And>k. k \<noteq> ''CMD'' \<Longrightarrow> j_get J k (rs_json r4) = j_get J k (rs_json r3)" by (rule R [OF r3(2)]) blast
  obtain r5 where r5: "response_set J ''STATE'' (j_str J (f_state f)) r4 = Inr r5" "j_object J (rs_json r5)"
    "j_get J ''STATE'' (rs_json r5) = Inr (j_str J (f_state f))"
    "\<And>k. k \<noteq> ''STATE'' \<Longrightarrow> j_get J k (rs_json r5) = j_get J k (rs_json r4)" by (rule R [OF r4(2)]) blast
  obtain r6 where r6: "response_set J ''PID'' (j_int J pid) r5 = Inr r6" "j_object J (rs_json r6)"
    "\<And>k. k \<noteq> ''PID'' \<Longrightarrow> j_get J k (rs_json r6) = j_get J k (rs_json r5)" by (rule R [OF r5(2)]) blast
  show thesis
    by (rule that [of "setHeader ''Access-Control-Allow-Origin'' ''*'' r6" al])
      (use l r1 r2 r3 r4 r5 r6 in \<open>simp_all add: list_page_def setHeader_def\<close>)
qed

section \<open>Witnesses\<close>

definition demo_web :: "(string, nat) fsmweb" where
  "demo_web = addTransition ''START''
     \<lparr>tr_istate = ''CREATED'', tr_fstate = ''RUNNING'', tr_callback = (\<lambda>m s. Inr (m, s + 1))\<rparr> (fsmweb_new ''TEST'')"

definition demo_request :: request where
  "demo_request = [''command'' \<mapsto> ''START'', ''content'' \<mapsto> ''N'']"

lemma fsm_ok_web_new: "fsm_ok (fsmweb_new n)"
  by (simp add: fsm_ok_def fsmweb_new_def fsm_new_def fsm.defs)

lemma demo_web_good: "fsm_good text_json demo_web"
proof -
  have "callbacks_ok text_json demo_web"
    by (auto simp: demo_web_def callbacks_ok_def addTransition_def fsmweb_new_def fsm_new_def fsm.defs)
  moreover have "fsm_ok demo_web" unfolding demo_web_def by (rule fsm_ok_addTransition [OF fsm_ok_web_new])
  ultimately show ?thesis by (simp add: fsm_good_def)
qed

theorem web_and_rpc_agree_witness:
  "\<exists>v f' s'. fsmProcess text_json demo_web demo_request (response_new text_json) 0 =
     Inr (\<lparr>rs_json = v, rs_headers = [(''Access-Control-Allow-Origin'', ''*'')]\<rparr>, f', s')"
proof -
  have parse: "j_parse text_json ''N'' = ''N''" by (simp add: text_json_def)
  have "j_object text_json (j_parse text_json ''N'')" unfolding parse by (rule demo_content)
  from web_and_rpc_agree [OF text_json_ok demo_web_good _ _ _ _ this, where rq = demo_request
      and c = "''START''" and rsp = "response_new text_json" and s = 0]
  obtain m' f' s' where "fsmProcess text_json demo_web demo_request (response_new text_json) 0 =
     Inr (\<lparr>rs_json = m_jsroot (m' :: string fsmmessage), rs_headers = [(''Access-Control-Allow-Origin'', ''*'')]\<rparr>, f', s')"
    by (auto simp: demo_request_def response_new_def)
  then show ?thesis by blast
qed

theorem query_command_witness:
  "fsmweb_processCommand text_json (demo_msg ''?'') (fsmweb_start ''h'' 45000 demo_web) 0 =
     Inr (f_state demo_web, demo_msg ''?'', (fsmweb_start ''h'' 45000 demo_web)\<lparr>fw_webSent := fw_webSent demo_web @
       replicate 2 (c_str (''http://'' @ ''h'' @ '':'' @ show32 45000 @ ''/'' @ fw_name demo_web))\<rparr>, 0)"
  using query_command [OF demo_says, of "''h''" 45000 demo_web 0] by blast

theorem command_page_witness:
  "\<exists>rsp'. cmdProcess text_json (addCommand ''COUNT'' (\<lambda>rq st r n. Inr (r, n + 1)) demo_web)
     [''name'' \<mapsto> ''COUNT''] (response_new text_json) 4 = Inr (rsp', 5) \<and>
     j_get text_json ''status'' (rs_json rsp') = Inr (j_str text_json ''OK'')"
proof -
  have c: "fw_commands demo_web = []"
    by (simp add: demo_web_def addTransition_def fsmweb_new_def fsm_new_def fsm.defs)
  have "j_object text_json (rs_json (response_new text_json))"
    by (simp add: response_new_def text_json_def text_object_def)
  from command_page [OF text_json_ok _ this, where f = demo_web and rq = "[''name'' \<mapsto> ''COUNT'']" and c = "''COUNT''"
      and n = "''COUNT''" and g = "\<lambda>rq st r n. Inr (r, n + 1)" and s = 4]
  show ?thesis by (auto simp: c request_get_def)
qed

end
