(* ===== verification/Url_Codec.thy ===== *)
theory Url_Codec
  imports Fsm
begin

text \<open>
  Text that travels in an HTTP request: the percent encoders of \<^verbatim>\<open>src/fsmwebCaller.cxx\<close> (with its
  tables) and \<^verbatim>\<open>src/wget.cxx\<close>, the JSON escapes of \<^verbatim>\<open>escapeJsonString\<close>, and the decoders that
  read such text back, which are the reference the encoders are proved against.
\<close>

section \<open>Tables\<close>

definition is_alnum :: "char \<Rightarrow> bool" where
  "is_alnum c \<longleftrightarrow>
     (let n = (of_char c :: nat) in 48 \<le> n \<and> n \<le> 57 \<or> 65 \<le> n \<and> n \<le> 90 \<or> 97 \<le> n \<and> n \<le> 122)"

definition rfc3986 :: "char \<Rightarrow> char" where
  "rfc3986 c = (if is_alnum c \<or> c \<in> {CHR ''~'', CHR ''-'', CHR ''.'', CHR ''_''} then c else CHR 0x00)"

definition html5 :: "char \<Rightarrow> char" where
  "html5 c =
     (if is_alnum c \<or> c \<in> {CHR ''*'', CHR ''-'', CHR ''.'', CHR ''_''} then c
      else if c = CHR '' '' then CHR ''+'' else CHR 0x00)"

definition hex_char :: "nat \<Rightarrow> char" where
  "hex_char n = (if n < 10 then char_of (48 + n) else char_of (55 + n))"

text \<open>\<^verbatim>\<open>%%%02X\<close>.\<close>

definition percent :: "char \<Rightarrow> string" where
  "percent c = [CHR ''%'', hex_char (of_char c div 16), hex_char (of_char c mod 16)]"

section \<open>Encoders\<close>

text \<open>
  \<^verbatim>\<open>url_encode\<close> of the caller stops at the first zero and prints piece after piece, each with its
  terminating zero, into the array it is given.
\<close>

fun url_encode :: "(char \<Rightarrow> char) \<Rightarrow> nat \<Rightarrow> string \<Rightarrow> string \<Rightarrow> string res" where
  "url_encode table cap [] enc = Inr enc"
| "url_encode table cap (c # s) enc =
     (if c = CHR 0x00 then Inr enc
      else
        rbind (sprintf_into (cap - length enc)
                (if table c \<noteq> CHR 0x00 then [table c] else percent c)) (\<lambda>p.
        url_encode table cap s (enc @ p)))"

text \<open>
  \<^verbatim>\<open>url_encode\<close> of \<^verbatim>\<open>wget.cxx\<close> writes to a stream and goes on to the end of the string. Its
  \<^verbatim>\<open>isalnum\<close> is given a signed character: a byte from 128 on is outside what it may be given.
\<close>

fun wget_url_encode :: "string \<Rightarrow> string res" where
  "wget_url_encode [] = Inr []"
| "wget_url_encode (c # s) =
     (if 128 \<le> (of_char c :: nat) then Inl Out_Of_Bounds
      else
        rbind (wget_url_encode s) (\<lambda>r.
        if is_alnum c \<or> c = CHR ''-'' \<or> c = CHR ''_'' \<or> c = CHR ''.'' \<or> c = CHR ''~'' then Inr (c # r)
        else Inr (percent c @ r)))"

definition json_escape :: "char \<Rightarrow> string" where
  "json_escape c =
     (if c = CHR 0x5C then [CHR 0x5C, CHR 0x5C]
      else if c = CHR 0x22 then [CHR 0x5C, CHR 0x22]
      else if c = CHR 0x2F then [CHR 0x5C, CHR 0x2F]
      else if c = CHR 0x08 then [CHR 0x5C, CHR ''b'']
      else if c = CHR 0x0C then [CHR 0x5C, CHR ''f'']
      else if c = CHR 0x0A then [CHR 0x5C, CHR ''n'']
      else if c = CHR 0x0D then [CHR 0x5C, CHR ''r'']
      else if c = CHR 0x09 then [CHR 0x5C, CHR ''t'']
      else [c])"

definition escapeJsonString :: "string \<Rightarrow> string" where
  "escapeJsonString s = concat (map json_escape s)"

section \<open>Decoders\<close>

definition hex_val :: "char \<Rightarrow> nat" where
  "hex_val c =
     (let n = (of_char c :: nat) in
      if n < 58 then n - 48 else if n < 71 then n - 55 else n - 87)"

text \<open>The decoding of a form field: \<^verbatim>\<open>+\<close> is a space, \<^verbatim>\<open>%XY\<close> the character with that code.\<close>

fun form_decode :: "string \<Rightarrow> string" where
  "form_decode [] = []"
| "form_decode (c # s) =
     (if c = CHR ''+'' then CHR '' '' # form_decode s
      else if c = CHR ''%'' then
        (case s of h # l # r \<Rightarrow> char_of (16 * hex_val h + hex_val l) # form_decode r
         | _ \<Rightarrow> c # form_decode s)
      else c # form_decode s)"

fun json_unescape :: "string \<Rightarrow> string" where
  "json_unescape [] = []"
| "json_unescape (c # s) =
     (if c = CHR 0x5C then
        (case s of e # r \<Rightarrow>
           (if e = CHR ''b'' then CHR 0x08 else if e = CHR ''f'' then CHR 0x0C
            else if e = CHR ''n'' then CHR 0x0A else if e = CHR ''r'' then CHR 0x0D
            else if e = CHR ''t'' then CHR 0x09 else e) # json_unescape r
         | [] \<Rightarrow> [c])
      else c # json_unescape s)"

section \<open>What the encoders write\<close>

definition piece :: "(char \<Rightarrow> char) \<Rightarrow> char \<Rightarrow> string" where
  "piece table c = (if table c \<noteq> CHR 0x00 then [table c] else percent c)"

definition encoding :: "(char \<Rightarrow> char) \<Rightarrow> string \<Rightarrow> string" where
  "encoding table s = concat (map (piece table) (c_str s))"

lemma encoding_Nil [simp]: "encoding table [] = []"
  by (simp add: encoding_def c_str_def)

lemma encoding_Cons:
  "encoding table (c # s) = (if c = CHR 0x00 then [] else piece table c @ encoding table s)"
  by (simp add: encoding_def c_str_def)

text \<open>The array takes the whole encoding and its terminating zero, or is overrun.\<close>

lemma url_encode_result:
  "length enc < cap \<Longrightarrow> url_encode table cap s enc =
     (if length enc + length (encoding table s) < cap then Inr (enc @ encoding table s)
      else Inl Out_Of_Bounds)"
proof (induction table cap s enc rule: url_encode.induct)
  case (1 table cap enc)
  then show ?case by simp
next
  case (2 table cap c s enc)
  show ?case
  proof (cases "c = CHR 0x00")
    case True
    with 2 show ?thesis by (simp add: encoding_Cons)
  next
    case False
    show ?thesis
    proof (cases "length enc + length (piece table c) < cap")
      case True
      then have "sprintf_into (cap - length enc) (piece table c) = Inr (piece table c)"
        by (simp add: sprintf_into_def)
      with 2(1) [OF False, of "piece table c"] True False show ?thesis
        by (simp add: piece_def [symmetric] encoding_Cons)
    next
      case small: False
      then have "sprintf_into (cap - length enc) (piece table c) = Inl Out_Of_Bounds"
        by (simp add: sprintf_into_def)
      with small False show ?thesis by (simp add: piece_def [symmetric] encoding_Cons)
    qed
  qed
qed

lemma of_char_lt [simp]: "(of_char c :: nat) < 256"
  by (cases c) simp

lemma hex_val_char: "n < 16 \<Longrightarrow> hex_val (hex_char n) = n"
  by (auto simp: hex_val_def hex_char_def Let_def)

lemma decode_percent: "form_decode (percent c @ r) = c # form_decode r"
proof -
  have d: "(of_char c :: nat) div 16 < 16" using of_char_lt [of c] by linarith
  then show ?thesis
    by (simp add: percent_def hex_val_char)
qed

lemma decode_html5: "c \<noteq> CHR 0x00 \<Longrightarrow> form_decode (piece html5 c @ r) = c # form_decode r"
proof -
  assume "c \<noteq> CHR 0x00"
  have "\<not> is_alnum (CHR ''+'')" and "\<not> is_alnum (CHR ''%'')" by (simp_all add: is_alnum_def)
  with \<open>c \<noteq> CHR 0x00\<close> show ?thesis
    by (auto simp: piece_def html5_def decode_percent)
qed

lemma decode_encoding: "form_decode (encoding html5 s) = c_str s"
proof (induction s)
  case Nil
  then show ?case by (simp add: c_str_def)
next
  case (Cons c s)
  then show ?case by (simp add: encoding_Cons decode_html5) (simp add: c_str_def)
qed

text \<open>The characters of an encoded field: none that separates fields.\<close>

definition field_char :: "char \<Rightarrow> bool" where
  "field_char c \<longleftrightarrow> is_alnum c \<or> c \<in> {CHR ''*'', CHR ''-'', CHR ''.'', CHR ''_'', CHR ''+'', CHR ''%''}"

lemma hex_alnum: "n < 16 \<Longrightarrow> is_alnum (hex_char n)"
  by (auto simp: is_alnum_def hex_char_def Let_def)

lemma encoding_chars: "c \<in> set (encoding html5 s) \<Longrightarrow> field_char c"
proof -
  have p: "x \<in> set (percent d) \<Longrightarrow> field_char x" for x d
  proof -
    have "(of_char d :: nat) div 16 < 16" using of_char_lt [of d] by linarith
    then show "x \<in> set (percent d) \<Longrightarrow> field_char x"
      using hex_alnum [of "of_char d div 16"] hex_alnum [of "of_char d mod 16"]
      by (auto simp: percent_def field_char_def)
  qed
  have "x \<in> set (piece html5 d) \<Longrightarrow> field_char x" for x d
    using p [of x d] by (auto simp: piece_def html5_def field_char_def split: if_splits)
  then show "c \<in> set (encoding html5 s) \<Longrightarrow> field_char c" by (auto simp: encoding_def)
qed

lemma piece_length: "1 \<le> length (piece table c)" "length (piece table c) \<le> 3"
  by (simp_all add: piece_def percent_def)

lemma encoding_length:
  "length (c_str s) \<le> length (encoding table s)" "length (encoding table s) \<le> 3 * length (c_str s)"
proof -
  have "length xs \<le> length (concat (map (piece table) xs)) \<and>
      length (concat (map (piece table) xs)) \<le> 3 * length xs" for xs
  proof (induction xs)
    case Nil
    then show ?case by simp
  next
    case (Cons x xs)
    with piece_length [of table x] show ?case by auto
  qed
  then show "length (c_str s) \<le> length (encoding table s)"
    and "length (encoding table s) \<le> 3 * length (c_str s)" by (simp_all add: encoding_def)
qed

text \<open>The stream encoder, on text without bytes above 127.\<close>

lemma wget_encode_result:
  assumes "\<forall>c \<in> set s. (of_char c :: nat) < 128" and "CHR 0x00 \<notin> set s"
  shows "wget_url_encode s = Inr (encoding rfc3986 s)"
  using assms
proof (induction s)
  case Nil
  then show ?case by simp
next
  case (Cons c s)
  then have "c \<noteq> CHR 0x00" "(of_char c :: nat) < 128" by auto
  with Cons show ?case by (auto simp: encoding_Cons piece_def rfc3986_def)
qed

section \<open>Properties\<close>

text \<open>
  C30: \<^verbatim>\<open>url_encode\<close> with the form table: what it leaves in the array fits there with its zero, has
  only characters that cannot end a field, and decodes to the text up to its first zero. Text of
  less than a third of the array always fits, text as long as the array overruns it.
\<close>

theorem url_encode_form:
  assumes "0 < cap"
  shows "(\<forall>e. url_encode html5 cap s [] = Inr e \<longrightarrow>
        form_decode e = c_str s \<and> length e < cap \<and> (\<forall>c \<in> set e. field_char c)) \<and>
     (3 * length (c_str s) < cap \<longrightarrow> (\<exists>e. url_encode html5 cap s [] = Inr e)) \<and>
     (cap \<le> length (c_str s) \<longrightarrow> url_encode html5 cap s [] = Inl Out_Of_Bounds)"
  using url_encode_result [of "[]" cap html5 s] assms encoding_length [where s = s and table = html5] encoding_chars [of _ s]
    decode_encoding [of s]
  by (auto split: if_splits)

text \<open>
  The two encoders of the program agree: on ASCII text without zeros the stream version of
  \<^verbatim>\<open>wget.cxx\<close> and the table version with the RFC 3986 table write the same, given room.
\<close>

theorem encoders_agree:
  assumes "\<forall>c \<in> set s. (of_char c :: nat) < 128" and "CHR 0x00 \<notin> set s" and "3 * length s < cap"
  shows "wget_url_encode s = url_encode rfc3986 cap s []"
proof -
  have "c_str s = s" using assms(2) by (simp add: c_str_def takeWhile_eq_all_conv) metis
  then have "length (encoding rfc3986 s) < cap" using encoding_length(2) [where s = s and table = rfc3986] assms(3) by simp
  then show ?thesis
    using wget_encode_result [OF assms(1,2)] url_encode_result [of "[]" cap rfc3986 s] assms(3) by simp
qed

lemma json_unescape_piece: "json_unescape (json_escape c @ r) = c # json_unescape r"
  by (simp add: json_escape_def)

text \<open>
  Text escaped for a JSON string reads back as it was, and has none of the
  control characters that have an escape.
\<close>

theorem json_escape_roundtrip:
  "json_unescape (escapeJsonString s) = s \<and>
   set (escapeJsonString s) \<inter> {CHR 0x08, CHR 0x0C, CHR 0x0A, CHR 0x0D, CHR 0x09} = {}"
proof -
  have "json_unescape (escapeJsonString s) = s"
  proof (induction s)
    case Nil
    then show ?case by (simp add: escapeJsonString_def)
  next
    case (Cons c s)
    have "escapeJsonString (c # s) = json_escape c @ escapeJsonString s" by (simp add: escapeJsonString_def)
    with Cons show ?case by (simp add: json_unescape_piece)
  qed
  moreover have "set (json_escape c) \<inter> {CHR 0x08, CHR 0x0C, CHR 0x0A, CHR 0x0D, CHR 0x09} = {}" for c
    by (simp add: json_escape_def)
  ultimately show ?thesis by (auto simp: escapeJsonString_def)
qed

section \<open>Witnesses\<close>

theorem url_encode_form_witness:
  "\<exists>e. url_encode html5 4096 ''{a: 1}'' [] = Inr e \<and> form_decode e = ''{a: 1}''"
proof -
  have pos: "0 < (4096 :: nat)" and c: "c_str ''{a: 1}'' = ''{a: 1}''" and len: "3 * length (c_str ''{a: 1}'') < 4096"
    by (simp_all add: c_str_def)
  from url_encode_form [OF pos, of "''{a: 1}''"] len obtain e where "url_encode html5 4096 ''{a: 1}'' [] = Inr e"
    by blast
  with url_encode_form [OF pos, of "''{a: 1}''"] c show ?thesis by metis
qed

theorem encoders_agree_witness:
  "wget_url_encode ''a b'' = url_encode rfc3986 4096 ''a b'' []"
  by (rule encoders_agree) simp_all

end
