(* ===== verification/Web_Caller.thy ===== *)
theory Web_Caller
  imports Fsm_Web Url_Codec
begin

text \<open>
  The HTTP clients: \<^verbatim>\<open>src/fsmwebCaller.cxx\<close>, which drives a web machine, and \<^verbatim>\<open>src/wget.cxx\<close>. The
  CURL library is the function from an address and an optional login to the pieces it delivers
  to the callback of the program. That the two ends understand each other is proved for every
  server that reads a query string the way forms are read.
\<close>

section \<open>Fetching a page\<close>

type_synonym network = "string \<Rightarrow> string option \<Rightarrow> string list"

definition write_callback :: "string \<Rightarrow> string \<Rightarrow> string" where
  "write_callback s contents = s @ contents"

definition curlQuery :: "network \<Rightarrow> string \<Rightarrow> string \<Rightarrow> string" where
  "curlQuery net url login =
     foldl write_callback [] (net (c_str url) (if login \<noteq> [] then Some (c_str login) else None))"

record curl_buffer =
  cb_buffer :: "string option"
  cb_size :: nat

definition CurlCallback :: "curl_buffer \<Rightarrow> string \<Rightarrow> curl_buffer" where
  "CurlCallback mem data =
     (let old = (case cb_buffer mem of None \<Rightarrow> [] | Some b \<Rightarrow> take (cb_size mem) b) in
      \<lparr>cb_buffer = Some (old @ data @ [CHR 0x00]), cb_size = cb_size mem + length data\<rparr>)"

text \<open>The page is copied, up to its first zero, into the array of the caller.\<close>

definition CurlQuery :: "network \<Rightarrow> nat \<Rightarrow> string \<Rightarrow> string res" where
  "CurlQuery net cap url =
     (case cb_buffer (foldl CurlCallback \<lparr>cb_buffer = None, cb_size = 0\<rparr> (net (c_str url) None)) of
        None \<Rightarrow> Inl Bad_Pointer
      | Some b \<Rightarrow> sprintf_into cap (c_str b))"

definition wget :: "network \<Rightarrow> string \<Rightarrow> string res" where
  "wget net url = CurlQuery net 500000 url"

section \<open>The caller\<close>

record 'j fsmwebCaller =
  wc_parseOk :: bool
  wc_jConfig :: 'j
  wc_url :: string
  wc_answer :: 'j

definition caller_new :: "'j jsonlib \<Rightarrow> network \<Rightarrow> string \<Rightarrow> u32 \<Rightarrow> 'j fsmwebCaller res" where
  "caller_new J net host port =
     (let s = ''http://'' @ host @ '':'' @ show32 port @ ''/'';
          rc = curlQuery net s [];
          w = \<lparr>wc_parseOk = j_parses J rc, wc_jConfig = j_parse J rc, wc_url = [], wc_answer = j_null J\<rparr> in
      if \<not> wc_parseOk w then Inr w
      else
        rbind (j_get J ''PREFIX'' (wc_jConfig w)) (\<lambda>p.
        rbind (j_asString J p) (\<lambda>n. Inr (w\<lparr>wc_url := s @ n @ ''/''\<rparr>))))"

definition queryState ::
  "'j jsonlib \<Rightarrow> network \<Rightarrow> 'j fsmwebCaller \<Rightarrow> (string \<times> 'j fsmwebCaller) res" where
  "queryState J net w =
     (let rc = curlQuery net (wc_url w) []; w' = w\<lparr>wc_parseOk := j_parses J rc\<rparr> in
      if \<not> wc_parseOk w' then Inr (''UNKOWN'', w')
      else
        rbind (j_get J ''STATE'' (j_parse J rc)) (\<lambda>v.
        rbind (j_asString J v) (\<lambda>st. Inr (st, w'))))"

definition queryWebStatus :: "'j jsonlib \<Rightarrow> network \<Rightarrow> 'j fsmwebCaller \<Rightarrow> 'j \<times> 'j fsmwebCaller" where
  "queryWebStatus J net w =
     (let rc = curlQuery net (wc_url w) []; w' = w\<lparr>wc_parseOk := j_parses J rc\<rparr> in
      (if \<not> wc_parseOk w' then j_null J else j_parse J rc, w'))"

text \<open>The array of the encoder holds nothing determinate when there is nothing to encode.\<close>

definition encoded_content :: "string \<Rightarrow> string res" where
  "encoded_content sc =
     (if c_str sc = [] then Inl Indeterminate else url_encode html5 4096 sc [])"

definition take_answer :: "'j jsonlib \<Rightarrow> 'j \<Rightarrow> 'j res" where
  "take_answer J jsta =
     rbind (j_get J ''content'' jsta) (\<lambda>ct.
     rbind (j_isMember J ''answer'' ct) (\<lambda>b.
     if b then j_get J ''answer'' ct else Inr (j_null J)))"

definition sendTransition ::
  "'j jsonlib \<Rightarrow> network \<Rightarrow> string \<Rightarrow> 'j \<Rightarrow> 'j fsmwebCaller \<Rightarrow> (string \<times> 'j fsmwebCaller) res" where
  "sendTransition J net name content w =
     rbind (if \<not> j_isNull J content
            then rbind (encoded_content (j_write J content)) (\<lambda>out. Inr (''&content='' @ out))
            else Inr ''&content={}'') (\<lambda>tail.
     (let rc = curlQuery net (wc_url w @ ''FSM?command='' @ name @ tail) [] in
      if j_parses J rc then
        rbind (take_answer J (j_parse J rc)) (\<lambda>a. Inr (rc, w\<lparr>wc_answer := a\<rparr>))
      else Inr (rc, w\<lparr>wc_answer := j_null J\<rparr>)))"

definition sendCommand ::
  "'j jsonlib \<Rightarrow> network \<Rightarrow> string \<Rightarrow> string \<Rightarrow> 'j fsmwebCaller \<Rightarrow> string \<times> 'j fsmwebCaller" where
  "sendCommand J net name params w =
     (let rc = curlQuery net (wc_url w @ ''CMD?name='' @ name @ (if 2 < length params then params else [])) [] in
      (rc, w\<lparr>wc_answer := if j_parses J rc then j_parse J rc else j_null J\<rparr>))"

section \<open>How a server reads a query\<close>

fun query_string :: "(string \<times> string) list \<Rightarrow> string" where
  "query_string [] = []"
| "query_string [(k, v)] = k @ ''='' @ v"
| "query_string ((k, v) # kvs) = k @ ''='' @ v @ ''&'' @ query_string kvs"

text \<open>
  The documented behaviour of a server's query reader: the fields are separated by \<^verbatim>\<open>&\<close>, name and
  value by \<^verbatim>\<open>=\<close>, the value is a form field, the first field of a name counts.
\<close>

definition query_law :: "(string \<Rightarrow> request) \<Rightarrow> bool" where
  "query_law rd \<longleftrightarrow> (\<forall>kvs k. kvs \<noteq> [] \<and> (\<forall>(n, v) \<in> set kvs. \<forall>c \<in> set n \<union> set v. field_char c) \<longrightarrow>
     rd (query_string kvs) k = map_option form_decode (map_of kvs k))"

fun split_on :: "char \<Rightarrow> string \<Rightarrow> string list" where
  "split_on c [] = [[]]"
| "split_on c (x # xs) =
     (if x = c then [] # split_on c xs
      else (case split_on c xs of y # ys \<Rightarrow> (x # y) # ys | [] \<Rightarrow> [[x]]))"

definition split_first :: "char \<Rightarrow> string \<Rightarrow> string \<times> string" where
  "split_first c s = (takeWhile (\<lambda>x. x \<noteq> c) s, tl (dropWhile (\<lambda>x. x \<noteq> c) s))"

definition read_query :: "string \<Rightarrow> request" where
  "read_query q k = map_option form_decode (map_of (map (split_first CHR ''='') (split_on CHR ''&'' q)) k)"

lemma split_on_none: "c \<notin> set a \<Longrightarrow> split_on c a = [a]"
  by (induction a) auto

lemma split_on_append: "c \<notin> set a \<Longrightarrow> split_on c (a @ c # b) = a # split_on c b"
  by (induction a) auto

lemma split_first_append: "c \<notin> set k \<Longrightarrow> split_first c (k @ c # v) = (k, v)"
  by (induction k) (auto simp: split_first_def)

lemma field_char_not: "field_char c \<Longrightarrow> c \<noteq> CHR ''&'' \<and> c \<noteq> CHR ''=''"
  by (auto simp: field_char_def is_alnum_def)

lemma field_separators:
  assumes "\<forall>c \<in> set n \<union> set v. field_char c"
  shows "CHR ''&'' \<notin> set (n @ ''='' @ v)" and "CHR ''='' \<notin> set n"
  using assms by (auto dest: field_char_not)

lemma read_fields:
  assumes "kvs \<noteq> []" and "\<forall>(n, v) \<in> set kvs. \<forall>c \<in> set n \<union> set v. field_char c"
  shows "map (split_first CHR ''='') (split_on CHR ''&'' (query_string kvs)) = kvs"
  using assms
proof (induction kvs rule: query_string.induct)
  case 1
  then show ?case by simp
next
  case (2 k v)
  then have f: "\<forall>c \<in> set k \<union> set v. field_char c" by simp
  have "query_string [(k, v)] = k @ ''='' @ v" by simp
  then show ?case
    using split_on_none [OF field_separators(1) [OF f]] split_first_append [OF field_separators(2) [OF f], of v]
    by (simp only: list.map append.simps)
next
  case (3 k v kv kvs)
  then have f: "\<forall>c \<in> set k \<union> set v. field_char c" by simp
  have ih: "map (split_first CHR ''='') (split_on CHR ''&'' (query_string (kv # kvs))) = kv # kvs"
    using 3 by simp
  have "query_string ((k, v) # kv # kvs) = (k @ ''='' @ v) @ CHR ''&'' # query_string (kv # kvs)" by simp
  then show ?case
    using split_on_append [OF field_separators(1) [OF f]] split_first_append [OF field_separators(2) [OF f], of v] ih
    by (simp only: list.map append.simps)
qed

lemma query_reads:
  assumes "query_law rd" and "kvs \<noteq> []" and "\<forall>(n, v) \<in> set kvs. \<forall>c \<in> set n \<union> set v. field_char c"
  shows "rd (query_string kvs) k = map_option form_decode (map_of kvs k)"
  using assms unfolding query_law_def by blast

lemma decode_alnum: "\<forall>x \<in> set c. is_alnum x \<Longrightarrow> form_decode c = c"
  by (induction c) (auto simp: is_alnum_def)

lemma read_query_law: "query_law read_query"
  unfolding query_law_def read_query_def by (simp add: read_fields)

section \<open>Fetching\<close>

lemma write_callbacks: "foldl write_callback s ps = s @ concat ps"
  by (induction ps arbitrary: s) (simp_all add: write_callback_def)

lemma curlQuery_page: "curlQuery net url [] = concat (net (c_str url) None)"
  by (simp add: curlQuery_def write_callbacks)

lemma curl_callbacks:
  "foldl CurlCallback \<lparr>cb_buffer = Some (s @ [CHR 0x00]), cb_size = length s\<rparr> ps =
     \<lparr>cb_buffer = Some (s @ concat ps @ [CHR 0x00]), cb_size = length (s @ concat ps)\<rparr>"
proof (induction ps arbitrary: s)
  case Nil
  then show ?case by simp
next
  case (Cons p ps)
  have "CurlCallback \<lparr>cb_buffer = Some (s @ [CHR 0x00]), cb_size = length s\<rparr> p =
      \<lparr>cb_buffer = Some ((s @ p) @ [CHR 0x00]), cb_size = length (s @ p)\<rparr>"
    by (simp add: CurlCallback_def Let_def)
  with Cons.IH [of "s @ p"] show ?case by simp
qed

lemma curl_buffer_page:
  "cb_buffer (foldl CurlCallback \<lparr>cb_buffer = None, cb_size = 0\<rparr> ps) =
     (if ps = [] then None else Some (concat ps @ [CHR 0x00]))"
proof (cases ps)
  case Nil
  then show ?thesis by simp
next
  case (Cons p ps')
  have "CurlCallback \<lparr>cb_buffer = None, cb_size = 0\<rparr> p = \<lparr>cb_buffer = Some (p @ [CHR 0x00]), cb_size = length p\<rparr>"
    by (simp add: CurlCallback_def Let_def)
  then show ?thesis using curl_callbacks [of p ps'] by (simp add: Cons)
qed

lemma c_str_end: "c_str (s @ [CHR 0x00]) = c_str s"
  by (induction s) (simp_all add: c_str_def)

lemma c_str_whole: "CHR 0x00 \<notin> set s \<Longrightarrow> c_str s = s"
  by (induction s) (auto simp: c_str_def)

lemma c_str_idem [simp]: "c_str (c_str s) = c_str s"
  by (rule c_str_whole) (auto simp: c_str_def dest: set_takeWhileD)

section \<open>Properties\<close>

text \<open>
  \<^verbatim>\<open>wget\<close> gives the page that \<^verbatim>\<open>curlQuery\<close> gives, up to its first zero, when the server delivers
  any piece and the page is shorter than its array of 500000 characters; a page that long
  overruns the array, and when nothing arrives the null buffer is read.
\<close>

theorem wget_page:
  "wget net url =
     (if net (c_str url) None = [] then Inl Bad_Pointer
      else if length (c_str (curlQuery net url [])) < 500000 then Inr (c_str (curlQuery net url []))
      else Inl Out_Of_Bounds)"
  by (simp add: wget_def CurlQuery_def curl_buffer_page curlQuery_page c_str_end sprintf_into_def)

lemma show_nat_no_zero: "CHR 0x00 \<notin> set (show_nat n)"
  using show_nat_digits [of n] by (auto simp: is_digit_def)

text \<open>
  C29: a caller that connects to a web machine finds its address, and asks it for its state: when
  the server answers the root and the address of the machine with the machine's list page, the
  constructor leaves the address made of host, port and name, and \<^verbatim>\<open>queryState\<close> returns the state.
\<close>

theorem caller_connects:
  assumes "json_ok J" and "list_page J pid f (response_new J) = Inr rsp"
    and "root = ''http://'' @ host @ '':'' @ show32 port @ ''/''"
    and "CHR 0x00 \<notin> set host" and "CHR 0x00 \<notin> set (fw_name f)"
    and "concat (net root None) = j_write J (rs_json rsp)"
    and "concat (net (root @ fw_name f @ ''/'') None) = j_write J (rs_json rsp)"
  shows "\<exists>w. caller_new J net host port = Inr w \<and> wc_url w = root @ fw_name f @ ''/'' \<and>
     queryState J net w = Inr (f_state f, w)"
proof -
  have "j_object J (rs_json (response_new J))" using json_null(1) [OF assms(1)] by (simp add: response_new_def)
  then obtain rsp' where "list_page J pid f (response_new J) = Inr rsp'" "j_object J (rs_json rsp')"
    "j_get J ''PREFIX'' (rs_json rsp') = Inr (j_str J (fw_name f))"
    "j_get J ''STATE'' (rs_json rsp') = Inr (j_str J (f_state f))"
    by (rule list_page_fields [OF assms(1)]) blast
  then have page: "j_object J (rs_json rsp)" "j_get J ''PREFIX'' (rs_json rsp) = Inr (j_str J (fw_name f))"
    "j_get J ''STATE'' (rs_json rsp) = Inr (j_str J (f_state f))" using assms(2) by auto
  note written = json_text(1,3) [OF assms(1) page(1)]
  have zero: "c_str root = root" "c_str (root @ fw_name f @ ''/'') = root @ fw_name f @ ''/''"
    using assms(4,5) show_nat_no_zero by (auto intro!: c_str_whole simp: assms(3) show32_def)
  let ?w = "\<lparr>wc_parseOk = True, wc_jConfig = rs_json rsp, wc_url = root @ fw_name f @ ''/'', wc_answer = j_null J\<rparr>"
  have "caller_new J net host port = Inr ?w"
    using page written zero assms(6) json_null(3) [OF assms(1)]
    by (simp add: caller_new_def Let_def curlQuery_page assms(3) [symmetric])
      (simp add: assms(3))
  moreover have "queryState J net ?w = Inr (f_state f, ?w)"
    using page written zero(2) assms(7) json_null(3) [OF assms(1)]
    by (simp add: queryState_def Let_def curlQuery_page)
  ultimately show ?thesis by fastforce
qed


section \<open>Witnesses\<close>

definition demo_list_net :: network where
  "demo_list_net url login =
     (case list_page text_json 7 demo_web (response_new text_json) of
        Inr rsp \<Rightarrow> [j_write text_json (rs_json rsp)] | Inl _ \<Rightarrow> [])"

lemma demo_web_fields: "fw_name demo_web = ''TEST''" "f_state demo_web = ''CREATED''"
  by (simp_all add: demo_web_def addTransition_def fsmweb_new_def fsm_new_def fsm.defs)

theorem caller_connects_witness:
  "\<exists>w. caller_new text_json demo_list_net ''lyon'' 45000 = Inr w \<and>
     queryState text_json demo_list_net w = Inr (''CREATED'', w)"
proof -
  have "j_object text_json (rs_json (response_new text_json))"
    using json_null(1) [OF text_json_ok] by (simp add: response_new_def)
  then obtain rsp where rsp: "list_page text_json 7 demo_web (response_new text_json) = Inr rsp"
    by (rule list_page_fields [OF text_json_ok]) blast
  then have net: "concat (demo_list_net u l) = j_write text_json (rs_json rsp)" for u l
    by (simp add: demo_list_net_def)
  from caller_connects [OF text_json_ok rsp refl, where net = demo_list_net and host = "''lyon''" and port = 45000]
  show ?thesis by (auto simp: net demo_web_fields)
qed

definition demo_query :: string where
  "demo_query = ''command='' @ ''START'' @ ''&content='' @ encoding html5 (j_write text_json ''O1k01N0'')"

definition demo_page_net :: network where
  "demo_page_net url login =
     (case fsmProcess text_json demo_web (read_query demo_query) (response_new text_json) 0 of
        Inr (rsp, _, _) \<Rightarrow> [j_write text_json (rs_json rsp)] | Inl _ \<Rightarrow> [])"

definition demo_caller :: "string fsmwebCaller" where
  "demo_caller =
     \<lparr>wc_parseOk = True, wc_jConfig = ''N'', wc_url = ''http://lyon:45000/TEST/'', wc_answer = ''N''\<rparr>"


end
