(* ===== verification/Fsm_Job.thy ===== *)
theory Fsm_Job
  imports Job_Process Web_Caller
begin

text \<open>
  \<^verbatim>\<open>src/fsmjob.cxx\<close>: the job control of a host, a web machine whose transitions read the
  configuration of the host's jobs, start them and kill them, and whose page commands act on
  single jobs. The host's name, name service and network are parameters.
\<close>

section \<open>State\<close>

record host =
  hn_name :: string
  hn_resolve :: "string \<Rightarrow> string list option"
  hn_net :: network

record 'j fsmjob =
  jb_jfile :: 'j
  jb_jconf :: 'j
  jb_hostname :: string
  jb_port :: u32
  jb_processMap :: "(int, 'j processData) smap"
  jb_login :: string
  jb_envConf :: "string list"
  jb_os :: os

type_synonym 'j job_transition = "'j fsmmessage \<Rightarrow> 'j fsmjob \<Rightarrow> ('j fsmmessage \<times> 'j fsmjob) res"
type_synonym 'j job_page = "('j, 'j fsmjob) page_function"

section \<open>Configuration\<close>

text \<open>A host is this one when the addresses of the two names meet.\<close>

definition checkIP :: "host \<Rightarrow> string \<Rightarrow> bool res" where
  "checkIP H name =
     (case hn_resolve H (c_str name) of
        None \<Rightarrow> Inr False
      | Some hostips \<Rightarrow>
          (case hn_resolve H (hn_name H) of
             None \<Rightarrow> Inl Bad_Pointer
           | Some localips \<Rightarrow> Inr (\<exists>hi \<in> set hostips. hi \<in> set localips)))"

fun first_here :: "host \<Rightarrow> string list \<Rightarrow> string option res" where
  "first_here H [] = Inr None"
| "first_here H (x # xs) = rbind (checkIP H x) (\<lambda>b. if b then Inr (Some x) else first_here H xs)"

definition buildJobConfig :: "'j jsonlib \<Rightarrow> host \<Rightarrow> 'j fsmjob \<Rightarrow> 'j fsmjob res" where
  "buildJobConfig J H j =
     rbind (j_get J ''HOSTS'' (jb_jfile j)) (\<lambda>hs.
     rbind (j_names J hs) (\<lambda>names.
     rbind (first_here H names) (\<lambda>x.
     case x of
       None \<Rightarrow> Inr j
     | Some x \<Rightarrow> rbind (j_get J x hs) (\<lambda>c. Inr (j\<lparr>jb_jconf := c\<rparr>)))))"

definition file_text :: "os \<Rightarrow> string \<Rightarrow> string" where
  "file_text w name = (case os_file w (c_str name) of None \<Rightarrow> [] | Some cs \<Rightarrow> cs)"

definition job_clear :: "'j jsonlib \<Rightarrow> 'j fsmjob \<Rightarrow> 'j fsmjob res" where
  "job_clear J j =
     rbind (j_clear J (jb_jfile j)) (\<lambda>f. rbind (j_clear J (jb_jconf j)) (\<lambda>c.
     Inr (j\<lparr>jb_jfile := f, jb_jconf := c\<rparr>)))"

definition job_registration :: "'j jsonlib \<Rightarrow> 'j job_transition" where
  "job_registration J m j =
     rbind (msg_command J m) (\<lambda>_. rbind (job_clear J j) (\<lambda>j'. Inr (m, j')))"

definition job_endregistration :: "'j jsonlib \<Rightarrow> 'j job_transition" where
  "job_endregistration J m j =
     rbind (msg_command J m) (\<lambda>_. rbind (msg_setAnswer J (jb_jconf j) m) (\<lambda>m'. Inr (m', j)))"

definition job_login :: "'j jsonlib \<Rightarrow> 'j \<Rightarrow> 'j fsmjob \<Rightarrow> 'j fsmjob res" where
  "job_login J jc j =
     rbind (j_isMember J ''login'' jc) (\<lambda>b.
     if b then rbind (j_get J ''login'' jc) (\<lambda>v. rbind (j_asString J v) (\<lambda>l. Inr (j\<lparr>jb_login := l\<rparr>)))
     else Inr j)"

text \<open>The configuration named by the content: a file, or a page whose content member counts.\<close>

definition load_file :: "'j jsonlib \<Rightarrow> host \<Rightarrow> 'j \<Rightarrow> 'j fsmjob \<Rightarrow> 'j fsmjob res" where
  "load_file J H jc j =
     rbind (j_get J ''file'' jc) (\<lambda>v. rbind (j_asString J v) (\<lambda>fileName.
     (let cs = file_text (jb_os j) fileName; j' = j\<lparr>jb_jfile := j_parse J cs\<rparr> in
      if j_parses J cs then buildJobConfig J H j' else Inr j')))"

definition load_url :: "'j jsonlib \<Rightarrow> host \<Rightarrow> 'j \<Rightarrow> 'j fsmjob \<Rightarrow> 'j fsmjob res" where
  "load_url J H jc j =
     rbind (j_get J ''url'' jc) (\<lambda>v. rbind (j_asString J v) (\<lambda>url.
     (let jsconf = curlQuery (hn_net H) url (jb_login j); jcc = j_parse J jsconf in
      rbind (j_isMember J ''content'' jcc) (\<lambda>b.
      rbind (if b then j_get J ''content'' jcc else Inr jcc) (\<lambda>jf.
      (let j' = j\<lparr>jb_jfile := jf\<rparr> in if j_parses J jsconf then buildJobConfig J H j' else Inr j'))))))"

definition job_initialise :: "'j jsonlib \<Rightarrow> host \<Rightarrow> 'j job_transition" where
  "job_initialise J H m j =
     rbind (msg_command J m) (\<lambda>_.
     rbind (job_clear J j) (\<lambda>j1.
     rbind (msg_content J m) (\<lambda>jc.
     rbind (job_login J jc (j1\<lparr>jb_processMap := []\<rparr>)) (\<lambda>j2.
     rbind (j_isMember J ''file'' jc) (\<lambda>isfile.
     rbind (if isfile then load_file J H jc j2
            else rbind (j_isMember J ''url'' jc) (\<lambda>isurl. if isurl then load_url J H jc j2 else Inr j2)) (\<lambda>j3.
     rbind (msg_setAnswer J (jb_jconf j3) m) (\<lambda>m'. Inr (m', j3))))))))"

section \<open>Running the jobs\<close>

definition job_info :: "'j jsonlib \<Rightarrow> 'j fsmjob \<Rightarrow> int \<times> 'j processData \<Rightarrow> 'j res" where
  "job_info J j e =
     (case e of (k, pd) \<Rightarrow>
        rbind (j_set J ''HOST'' (j_str J (jb_hostname j)) (j_null J)) (\<lambda>p1.
        rbind (j_set J ''PID'' (j_int J k) p1) (\<lambda>p2.
        rbind (j_get J ''NAME'' (pd_info pd)) (\<lambda>n.
        rbind (j_set J ''NAME'' n p2) (\<lambda>p3.
        rbind (processStatus (jb_os j) (as_u32 k)) (\<lambda>st.
        j_set J ''STATUS'' (j_str J st) p3))))))"

definition jsonStatus :: "'j jsonlib \<Rightarrow> 'j fsmjob \<Rightarrow> 'j res" where
  "jsonStatus J j =
     rfold (\<lambda>e array. rbind (job_info J j e) (\<lambda>pinf. j_append J array pinf)) (jb_processMap j) (j_null J)"

text \<open>One job: described by a text, started, entered under its number.\<close>

definition start_one :: "'j jsonlib \<Rightarrow> string \<Rightarrow> 'j fsmjob \<Rightarrow> 'j fsmjob res" where
  "start_one J jsonString j =
     rbind (startProcess J (jb_envConf j) (processData_new J jsonString) (jb_os j)) (\<lambda>(pd, w).
     Inr (j\<lparr>jb_processMap := map_insert (pd_childPid pd) pd (jb_processMap j), jb_os := w\<rparr>))"

definition job_start :: "'j jsonlib \<Rightarrow> 'j job_transition" where
  "job_start J m j =
     rbind (rfold (\<lambda>book. start_one J (j_write J book)) (j_elems J (jb_jconf j)) j) (\<lambda>j'.
     rbind (jsonStatus J j') (\<lambda>st. rbind (msg_setAnswer J st m) (\<lambda>m'. Inr (m', j'))))"

definition job_killProcess :: "u32 \<Rightarrow> u32 \<Rightarrow> 'j fsmjob \<Rightarrow> 'j fsmjob" where
  "job_killProcess pid sig j =
     (let (pm, w) = killProcess pid sig (jb_processMap j) (jb_os j) in j\<lparr>jb_processMap := pm, jb_os := w\<rparr>)"

definition kill_book :: "'j jsonlib \<Rightarrow> 'j \<Rightarrow> 'j fsmjob \<Rightarrow> 'j fsmjob res" where
  "kill_book J book j =
     rbind (j_get J ''PID'' book) (\<lambda>v. rbind (j_asUInt J v) (\<lambda>pid. Inr (job_killProcess pid 9 j)))"

definition job_kill :: "'j jsonlib \<Rightarrow> 'j job_transition" where
  "job_kill J m j =
     rbind (jsonStatus J j) (\<lambda>books.
     rbind (rfold (kill_book J) (j_elems J books) j) (\<lambda>j'.
     rbind (jsonStatus J j') (\<lambda>st. rbind (msg_setAnswer J st m) (\<lambda>m'. Inr (m', j')))))"

definition job_destroy :: "'j job_transition" where
  "job_destroy m j = Inr (m, j)"

section \<open>Registering a job\<close>

definition job_name :: "'j jsonlib \<Rightarrow> 'j \<Rightarrow> string res" where
  "job_name J b = rbind (j_get J ''NAME'' b) (j_asString J)"

fun has_name :: "'j jsonlib \<Rightarrow> string \<Rightarrow> 'j list \<Rightarrow> bool res" where
  "has_name J n [] = Inr False"
| "has_name J n (b # bs) = rbind (job_name J b) (\<lambda>x. if x = n then Inr True else has_name J n bs)"

definition job_description :: "'j jsonlib \<Rightarrow> string \<Rightarrow> string \<Rightarrow> string \<Rightarrow> string \<Rightarrow> 'j res" where
  "job_description J pname pargs penv pbin =
     rbind (j_set J ''NAME'' (j_str J pname) (j_null J)) (\<lambda>d1.
     rbind (j_set J ''ARGS'' (j_parse J pargs) d1) (\<lambda>d2.
     rbind (j_set J ''ENV'' (j_parse J penv) d2) (\<lambda>d3.
     j_set J ''PROGRAM'' (j_parse J pbin) d3)))"

definition job_registerjob :: "'j jsonlib \<Rightarrow> 'j job_transition" where
  "job_registerjob J m j =
     rbind (msg_content J m) (\<lambda>jcr.
     rbind (content_string J ''processname'' jcr) (\<lambda>pname.
     rbind (content_string J ''processargs'' jcr) (\<lambda>pargs.
     rbind (content_string J ''processenv'' jcr) (\<lambda>penv.
     rbind (content_string J ''processbin'' jcr) (\<lambda>pbin.
     rbind (job_description J pname pargs penv pbin) (\<lambda>jc.
     rbind (has_name J pname (j_elems J (jb_jconf j))) (\<lambda>found.
     if found then Inr (m, j)
     else
       rbind (j_append J (jb_jconf j) jc) (\<lambda>conf.
       rbind (msg_setAnswer J conf m) (\<lambda>m'. Inr (m', j\<lparr>jb_jconf := conf\<rparr>))))))))))"

section \<open>Page commands\<close>

text \<open>The status text and, first, the list of jobs in a response.\<close>

definition say :: "'j jsonlib \<Rightarrow> string \<Rightarrow> 'j response \<Rightarrow> 'j response res" where
  "say J s rsp = response_set J ''STATUS'' (j_str J s) rsp"

definition say_jobs :: "'j jsonlib \<Rightarrow> string \<Rightarrow> 'j fsmjob \<Rightarrow> 'j response \<Rightarrow> ('j response \<times> 'j fsmjob) res" where
  "say_jobs J s j rsp =
     rbind (jsonStatus J j) (\<lambda>st. rbind (response_set J ''JOBS'' st rsp) (\<lambda>r1.
     rbind (say J s r1) (\<lambda>r2. Inr (r2, j))))"

definition job_status :: "'j jsonlib \<Rightarrow> 'j job_page" where
  "job_status J rq st rsp j = say_jobs J ''DONE'' j rsp"

fun find_name :: "'j jsonlib \<Rightarrow> (string \<Rightarrow> u32 \<Rightarrow> bool) \<Rightarrow> (int, 'j processData) smap
     \<Rightarrow> (u32 \<times> string) option res" where
  "find_name J P [] = Inr None"
| "find_name J P ((k, pd) # m) =
     rbind (job_name J (pd_info pd)) (\<lambda>n.
     if P n (as_u32 k) then Inr (Some (as_u32 k, pd_string pd)) else find_name J P m)"

definition job_killjob :: "'j jsonlib \<Rightarrow> 'j job_page" where
  "job_killjob J rq st rsp j =
     (let name = request_get ''processname'' ''NONE'' rq;
          pid = atol32 (request_get ''pid'' ''0'' rq);
          sig = atol32 (request_get ''signal'' ''9'' rq) in
      if pid = 0 \<and> name = ''NONE'' then
        rbind (say J ''No pid or name given'' rsp) (\<lambda>r. Inr (r, j))
      else if pid \<noteq> 0 then say_jobs J ''DONE'' (job_killProcess pid sig j) rsp
      else
        rbind (find_name J (\<lambda>n k. n = name) (jb_processMap j)) (\<lambda>found.
        (let pid = (case found of None \<Rightarrow> 0 | Some (k, _) \<Rightarrow> k) in
         if pid \<noteq> 0 then say_jobs J ''DONE'' (job_killProcess pid sig j) rsp
         else say_jobs J ''name not found in pid list'' j rsp)))"

definition job_restartjob :: "'j jsonlib \<Rightarrow> 'j job_page" where
  "job_restartjob J rq st rsp j =
     (let name = request_get ''processname'' ''NONE'' rq;
          pid = atol32 (request_get ''pid'' ''0'' rq);
          sig = atol32 (request_get ''signal'' ''9'' rq) in
      if pid = 0 \<and> name = ''NONE'' then
        rbind (say J ''No pid or name given'' rsp) (\<lambda>r. Inr (r, j))
      else
        rbind (find_name J (\<lambda>n k. n = name \<or> pid = k) (jb_processMap j)) (\<lambda>found.
        (let (pid, jss) = (case found of None \<Rightarrow> (pid, ''NONE'') | Some (k, s) \<Rightarrow> (k, s)) in
         if pid \<noteq> 0 \<and> jss \<noteq> ''NONE'' then
           rbind (start_one J jss (job_killProcess pid sig j)) (\<lambda>j'. say_jobs J ''DONE'' j' rsp)
         else say_jobs J ''pid or name not found in pid list'' j rsp)))"

text \<open>The array the tail is written to is printed even when nothing was written.\<close>

definition job_joblog :: "'j jsonlib \<Rightarrow> 'j job_page" where
  "job_joblog J rq st rsp j =
     (let name = request_get ''processname'' ''NONE'' rq;
          pid0 = atol32 (request_get ''pid'' ''0'' rq);
          nlines = atol32 (request_get ''lines'' ''100'' rq) in
      if pid0 = 0 \<and> name = ''NONE'' then
        rbind (say J ''No pid or name given'' rsp) (\<lambda>r. Inr (r, j))
      else
        rbind (if pid0 = 0 then find_name J (\<lambda>n k. n = name) (jb_processMap j) else Inr (Some (pid0, []))) (\<lambda>found.
        (let pid = (case found of None \<Rightarrow> 0 | Some (k, _) \<Rightarrow> k) in
         if pid \<noteq> 0 then
           (let s = ''/tmp/fsmjobPID'' @ show32 pid @ ''.log'' in
            rbind (tail_file (1024 * 512) (unat nlines) (os_file (jb_os j) s) (1024 * 512)) (\<lambda>buf.
            case buf of
              None \<Rightarrow> Inl Indeterminate
            | Some so \<Rightarrow>
                rbind (say J ''DONE'' rsp) (\<lambda>r1.
                rbind (response_set J ''FILE'' (j_str J s) r1) (\<lambda>r2.
                rbind (response_set J ''LINES'' (j_str J so) r2) (\<lambda>r3. Inr (r3, j))))))
         else say_jobs J ''name not found in pid list'' j rsp)))"

definition job_registerfile :: "'j jsonlib \<Rightarrow> 'j job_page" where
  "job_registerfile J rq st rsp j =
     (if st \<noteq> ''INITIALISED'' then
        rbind (say J ''cannot register jobs if not initialised'' rsp) (\<lambda>r. Inr (r, j))
      else
        rbind (job_clear J j) (\<lambda>j1.
        (let j2 = j1\<lparr>jb_processMap := []\<rparr>; fileName = request_get ''file'' ''NONE'' rq in
         if fileName = ''NONE'' then rbind (say J ''No file  given'' rsp) (\<lambda>r. Inr (r, j2))
         else
           (let cs = file_text (jb_os j2) fileName; j3 = j2\<lparr>jb_jfile := j_parse J cs\<rparr> in
            rbind (if j_parses J cs then
                     rbind (j_get J ''HOSTS'' (jb_jfile j3)) (\<lambda>hs. rbind (j_get J (jb_hostname j3) hs) (\<lambda>c.
                     Inr (j3\<lparr>jb_jconf := c\<rparr>)))
                   else Inr j3) (\<lambda>j4.
            rbind (response_set J ''JOBS'' (jb_jconf j4) rsp) (\<lambda>r1.
            rbind (say J ''DONE'' r1) (\<lambda>r2. Inr (r2, j4))))))))"

section \<open>The job control\<close>

text \<open>A line of the configuration file sets a variable when it has an equals sign.\<close>

definition conf_line :: "string \<Rightarrow> os \<Rightarrow> os" where
  "conf_line line w =
     (if CHR ''='' \<in> set line then
        (let (n, v) = split_first CHR ''='' line in
         if c_str n = [] then w else w\<lparr>os_env := (os_env w)(c_str n \<mapsto> c_str v)\<rparr>)
      else w)"

definition job_table :: "'j jsonlib \<Rightarrow> host \<Rightarrow> ('j, 'j fsmjob) fsmweb \<Rightarrow> ('j, 'j fsmjob) fsmweb" where
  "job_table J H f0 =
     (let T = (\<lambda>cmd i e g. addTransition cmd \<lparr>tr_istate = i, tr_fstate = e, tr_callback = g\<rparr>);
          f1 = foldl (\<lambda>f n. addState n f) f0 [''CREATED'', ''REGISTERING'', ''INITIALISED'', ''RUNNING''];
          f2 = T ''INITIALISE'' ''CREATED'' ''INITIALISED'' (job_initialise J H) f1;
          f3 = T ''REGISTRATION'' ''CREATED'' ''REGISTERING'' (job_registration J) f2;
          f4 = T ''REGISTERJOB'' ''REGISTERING'' ''REGISTERING'' (job_registerjob J) f3;
          f5 = T ''ENDREGISTRATION'' ''REGISTERING'' ''INITIALISED'' (job_endregistration J) f4;
          f6 = T ''START'' ''INITIALISED'' ''RUNNING'' (job_start J) f5;
          f7 = T ''KILL'' ''RUNNING'' ''INITIALISED'' (job_kill J) f6;
          f8 = T ''DESTROY'' ''INITIALISED'' ''CREATED'' job_destroy f7 in
      addCommand ''REGISTERFILE'' (job_registerfile J) (addCommand ''RESTARTJOB'' (job_restartjob J)
        (addCommand ''KILLJOB'' (job_killjob J) (addCommand ''JOBLOG'' (job_joblog J)
          (addCommand ''STATUS'' (job_status J) f8)))))"

definition fsmjob_new ::
  "'j jsonlib \<Rightarrow> host \<Rightarrow> string \<Rightarrow> u32 \<Rightarrow> os \<Rightarrow> ('j, 'j fsmjob) fsmweb \<times> 'j fsmjob" where
  "fsmjob_new J H name port w0 =
     (let lines = getlines (file_text w0 ''/etc/ljc.conf'');
          w = foldl (\<lambda>w l. conf_line l w) w0 lines;
          login = (case os_env w ''WEBLOGIN'' of None \<Rightarrow> [] | Some l \<Rightarrow> l) in
      (fsmweb_start (hn_name H) port (job_table J H (fsmweb_new name)),
       \<lparr>jb_jfile = j_null J, jb_jconf = j_null J, jb_hostname = hn_name H, jb_port = port,
        jb_processMap = [], jb_login = login, jb_envConf = lines, jb_os = w\<rparr>))"

end
