(* ===== verification/Job_Table.thy ===== *)
theory Job_Table
  imports Fsm_Job
begin

text \<open>
  The table of processes of the job control and the operations on it: what is kept of it by
  starting and killing, and which operations leave the processes alone.
\<close>

section \<open>The table and the system\<close>

text \<open>What the documentation says of \<^verbatim>\<open>fork\<close> in the parent: a process number, or -1, never 0.\<close>

definition fork_ok :: "os \<Rightarrow> bool" where
  "fork_ok w \<longleftrightarrow> (\<forall>i. os_fork w i \<noteq> 0 \<and> - 1 \<le> os_fork w i \<and> os_fork w i < 2 ^ 31)"

text \<open>A number that \<^verbatim>\<open>kill\<close> may be given: of a child, or the -1 of a fork that failed.\<close>

definition known :: "os \<Rightarrow> int \<Rightarrow> bool" where
  "known w p \<longleftrightarrow> p \<in> fst ` set (os_children w) \<or> p = - 1 \<and> (\<exists>i < os_forks w. os_fork w i = - 1)"

definition table_ok :: "(int, 'j processData) smap \<Rightarrow> os \<Rightarrow> bool" where
  "table_ok m w \<longleftrightarrow> map_ok m \<and> fork_ok w \<and>
     (\<forall>(k, pd) \<in> set m. pd_childPid pd = k \<and> pd_status pd = RUNNING \<and> known w k \<and>
        - 1 \<le> k \<and> k < 2 ^ 31) \<and>
     (\<forall>p \<in> fst ` set (os_signals w). known w p) \<and>
     (\<forall>p \<in> fst ` set (os_children w). p \<in> fst ` set m \<or> p \<in> fst ` set (os_signals w))"

lemma table_entry:
  assumes "table_ok m w" and "(k, pd) \<in> set m"
  shows "pd_childPid pd = k" "pd_status pd = RUNNING" "known w k" "- 1 \<le> k" "k < 2 ^ 31"
  using assms by (auto simp: table_ok_def)

lemma as_u32_inject:
  assumes "- 1 \<le> a" "a < 2 ^ 31" "- 1 \<le> b" "b < 2 ^ 31"
  shows "as_u32 a = as_u32 b \<longleftrightarrow> a = b"
proof
  assume "as_u32 a = as_u32 b"
  then have "a mod 2 ^ 32 = b mod 2 ^ 32"
    by (simp add: as_u32_def word_of_int_eq_iff take_bit_eq_mod)
  moreover have "x mod 2 ^ 32 = (if x = - 1 then 2 ^ 32 - 1 else x)" if "- 1 \<le> x" "x < 2 ^ 31" for x :: int
    using that by (cases "x = - 1") simp_all
  ultimately show "a = b" using assms by (simp split: if_splits)
qed simp

lemma find_SomeD: "find P xs = Some x \<Longrightarrow> x \<in> set xs \<and> P x"
  by (induction xs) (auto split: if_splits)

subsection \<open>Killing\<close>

lemma killProcess_cases:
  assumes "table_ok m w" and "- 1 \<le> p" and "p < 2 ^ 31"
  shows "killProcess (as_u32 p) sig m w =
     (if p \<in> fst ` set m then (map_erase p m, w\<lparr>os_signals := os_signals w @ [(p, sig)]\<rparr>) else (m, w))"
proof -
  have match: "(pd_status pd = RUNNING \<and> as_u32 p = as_u32 k) \<longleftrightarrow> k = p" if "(k, pd) \<in> set m" for k pd
    using table_entry [OF assms(1) that] as_u32_inject [OF assms(2,3), of k] by auto
  show ?thesis
  proof (cases "p \<in> fst ` set m")
    case False
    then have "find (\<lambda>(k, pd). pd_status pd = RUNNING \<and> as_u32 p = as_u32 k) m = None"
      using match by (force simp: find_None_iff)
    with False show ?thesis by (simp add: killProcess_def)
  next
    case True
    then obtain e where e: "(p, e) \<in> set m" by auto
    then have "find (\<lambda>(k, pd). pd_status pd = RUNNING \<and> as_u32 p = as_u32 k) m \<noteq> None"
      using match [OF e] unfolding find_None_iff by auto
    then obtain k pd where f: "find (\<lambda>(k, pd). pd_status pd = RUNNING \<and> as_u32 p = as_u32 k) m = Some (k, pd)"
      by auto
    then have "(k, pd) \<in> set m" "as_u32 p = as_u32 k" "pd_status pd = RUNNING" by (auto dest: find_SomeD)
    with match have "k = p" by blast
    with f True show ?thesis by (simp add: killProcess_def)
  qed
qed

lemma killProcess_other:
  assumes "\<forall>k \<in> fst ` set m. as_u32 k \<noteq> pid"
  shows "killProcess pid sig m w = (m, w)"
proof -
  have "find (\<lambda>(k, pd). pd_status pd = RUNNING \<and> pid = as_u32 k) m = None"
    using assms by (force simp: find_None_iff)
  then show ?thesis by (simp add: killProcess_def)
qed

lemma keys_erase: "fst ` set (map_erase k m) = fst ` set m - {k}"
  by (auto simp: map_erase_def)

lemma table_ok_parts:
  assumes "table_ok m w"
  shows "map_ok m" "fork_ok w" "\<forall>p \<in> fst ` set (os_signals w). known w p"
    "\<forall>p \<in> fst ` set (os_children w). p \<in> fst ` set m \<or> p \<in> fst ` set (os_signals w)"
  using assms unfolding table_ok_def by blast+

lemma table_okI:
  assumes "map_ok m" "fork_ok w" "\<forall>p \<in> fst ` set (os_signals w). known w p"
    "\<forall>p \<in> fst ` set (os_children w). p \<in> fst ` set m \<or> p \<in> fst ` set (os_signals w)"
    "\<And>k pd. (k, pd) \<in> set m \<Longrightarrow>
       pd_childPid pd = k \<and> pd_status pd = RUNNING \<and> known w k \<and> - 1 \<le> k \<and> k < 2 ^ 31"
  shows "table_ok m w"
  unfolding table_ok_def using assms by blast

lemma table_ok_erase:
  assumes "table_ok m w" and "p \<in> fst ` set m"
  shows "table_ok (map_erase p m) (w\<lparr>os_signals := os_signals w @ [(p, sig)]\<rparr>)"
proof (rule table_okI)
  note T = table_ok_parts [OF assms(1)]
  have known: "known (w\<lparr>os_signals := s\<rparr>) = known w" for s by (intro ext) (simp add: known_def)
  have p: "known w p" using assms table_entry(3) [OF assms(1)] by auto
  show "map_ok (map_erase p m)" using T(1) by (rule map_ok_erase)
  show "fork_ok (w\<lparr>os_signals := os_signals w @ [(p, sig)]\<rparr>)" using T(2) by (simp add: fork_ok_def)
  show "\<forall>x \<in> fst ` set (os_signals (w\<lparr>os_signals := os_signals w @ [(p, sig)]\<rparr>)).
      known (w\<lparr>os_signals := os_signals w @ [(p, sig)]\<rparr>) x"
    unfolding known using T(3) p by simp
  have keys: "fst ` set (map_erase p m) = fst ` set m - {p}" by (auto simp: map_erase_def)
  have sigs: "fst ` set (os_signals (w\<lparr>os_signals := os_signals w @ [(p, sig)]\<rparr>)) = insert p (fst ` set (os_signals w))"
    and chs: "os_children (w\<lparr>os_signals := os_signals w @ [(p, sig)]\<rparr>) = os_children w" by simp_all
  show "\<forall>x \<in> fst ` set (os_children (w\<lparr>os_signals := os_signals w @ [(p, sig)]\<rparr>)).
      x \<in> fst ` set (map_erase p m) \<or> x \<in> fst ` set (os_signals (w\<lparr>os_signals := os_signals w @ [(p, sig)]\<rparr>))"
    using T(4) unfolding keys sigs chs by blast
  show "pd_childPid pd = k \<and> pd_status pd = RUNNING \<and> known (w\<lparr>os_signals := os_signals w @ [(p, sig)]\<rparr>) k \<and>
      - 1 \<le> k \<and> k < 2 ^ 31" if "(k, pd) \<in> set (map_erase p m)" for k pd
  proof -
    have "(k, pd) \<in> set m" using that by (simp add: map_erase_def)
    note E = table_entry [OF assms(1) this]
    show ?thesis unfolding known by (intro conjI E)
  qed
qed

lemma table_ok_kill:
  assumes "table_ok m w" and "killProcess pid sig m w = (m', w')"
  shows "table_ok m' w'" and "fst ` set m' = fst ` set m - {k. as_u32 k = pid}"
proof -
  have "table_ok m' w' \<and> fst ` set m' = fst ` set m - {k. as_u32 k = pid}"
  proof (cases "\<exists>k \<in> fst ` set m. as_u32 k = pid")
    case False
    with assms killProcess_other [of m pid sig w] show ?thesis by auto
  next
    case True
    then obtain p where p: "p \<in> fst ` set m" "as_u32 p = pid" by blast
    then have r: "- 1 \<le> p" "p < 2 ^ 31" using table_entry [OF assms(1)] by auto
    from killProcess_cases [OF assms(1) r, of sig] p assms(2)
    have res: "m' = map_erase p m" "w' = w\<lparr>os_signals := os_signals w @ [(p, sig)]\<rparr>" by auto
    have "k = p" if "k \<in> fst ` set m" "as_u32 k = pid" for k
      using that p as_u32_inject [OF r, of k] table_entry [OF assms(1)] by auto
    then have "fst ` set m' = fst ` set m - {k. as_u32 k = pid}"
      using p(2) by (auto simp: res map_erase_def)
    with table_ok_erase [OF assms(1) p(1), of sig] show ?thesis by (simp add: res)
  qed
  then show "table_ok m' w'" and "fst ` set m' = fst ` set m - {k. as_u32 k = pid}" by blast+
qed

subsection \<open>Starting\<close>

lemma startProcess_new:
  assumes "startProcess J conf (processData_new J s) w = Inr (pd, w')"
  shows "pd = (processData_new J s)\<lparr>pd_childPid := os_fork w (os_forks w), pd_status := RUNNING\<rparr> \<and>
     os_fork w' = os_fork w \<and> os_forks w' = os_forks w + 1 \<and> os_signals w' = os_signals w \<and>
     os_file w' = os_file w \<and>
     (if os_fork w (os_forks w) = - 1 then os_children w' = os_children w
      else \<exists>im. os_children w' = os_children w @ [(os_fork w (os_forks w), im)])"
proof -
  have st: "pd_status (processData_new J s) = NOT_CREATED" by (simp add: processData_new_def)
  from assms show ?thesis unfolding startProcess_def st by (auto simp: Let_def)
qed

lemma known_mono:
  assumes "known w p" and "os_fork w' = os_fork w" and "os_forks w \<le> os_forks w'"
    and "fst ` set (os_children w) \<subseteq> fst ` set (os_children w')"
  shows "known w' p"
proof (cases "p \<in> fst ` set (os_children w)")
  case True
  with assms(4) show ?thesis unfolding known_def by blast
next
  case False
  with assms(1) obtain i where "p = - 1" "i < os_forks w" "os_fork w i = - 1" unfolding known_def by blast
  with assms(2,3) have "\<exists>i < os_forks w'. os_fork w' i = - 1" by (intro exI [of _ i]) simp
  with \<open>p = - 1\<close> show ?thesis unfolding known_def by blast
qed

lemma table_ok_start:
  assumes "table_ok m w" and "startProcess J conf (processData_new J s) w = Inr (pd, w')"
  shows "table_ok (map_insert (pd_childPid pd) pd m) w'"
proof -
  let ?p = "os_fork w (os_forks w)"
  note S = startProcess_new [OF assms(2)]
  have fk: "fork_ok w" using assms(1) by (simp add: table_ok_def)
  then have p: "- 1 \<le> ?p" "?p < 2 ^ 31" by (simp_all add: fork_ok_def)
  have sub: "fst ` set (os_children w) \<subseteq> fst ` set (os_children w')" using S by (auto split: if_splits)
  have mono: "known w x \<Longrightarrow> known w' x" for x by (rule known_mono) (use S sub in auto)
  have kn: "known w' ?p" using S by (auto simp: known_def split: if_splits)
  have pd: "pd_childPid pd = ?p" "pd_status pd = RUNNING" using S by simp_all
  have ent: "e \<in> set (map_insert ?p pd m) \<Longrightarrow> e = (?p, pd) \<or> e \<in> set m" for e
    using set_insert_subset [of ?p pd m] by auto
  have keys: "fst ` set (map_insert ?p pd m) = insert ?p (fst ` set m)" by (rule set_map_insert)
  have ch: "fst ` set (os_children w') \<subseteq> insert ?p (fst ` set (os_children w))" using S by (auto split: if_splits)
  show ?thesis unfolding pd(1)
  proof (rule table_okI)
    show "map_ok (map_insert ?p pd m)" using table_ok_parts(1) [OF assms(1)] by (rule map_ok_insert)
    show "fork_ok w'" using fk S by (simp add: fork_ok_def)
    have "os_signals w' = os_signals w" using S by blast
    then show "\<forall>x \<in> fst ` set (os_signals w'). known w' x" using table_ok_parts(3) [OF assms(1)] mono by simp
    from table_ok_parts(4) [OF assms(1)] ch \<open>os_signals w' = os_signals w\<close>
    show "\<forall>x \<in> fst ` set (os_children w'). x \<in> fst ` set (map_insert ?p pd m) \<or> x \<in> fst ` set (os_signals w')"
      unfolding keys \<open>os_signals w' = os_signals w\<close> by blast
    show "pd_childPid e = k \<and> pd_status e = RUNNING \<and> known w' k \<and> - 1 \<le> k \<and> k < 2 ^ 31"
      if "(k, e) \<in> set (map_insert ?p pd m)" for k e
      using ent [OF that] table_entry [OF assms(1), of k e] p pd kn mono [of k] by auto
  qed
qed

section \<open>Operations that leave the processes alone\<close>

abbreviation same_processes :: "'j fsmjob \<Rightarrow> 'j fsmjob \<Rightarrow> bool" where
  "same_processes j j' \<equiv> jb_processMap j' = jb_processMap j \<and> jb_os j' = jb_os j"

lemma clear_same: "job_clear J j = Inr j' \<Longrightarrow> same_processes j j'"
  by (auto simp: job_clear_def)

lemma login_same: "job_login J jc j = Inr j' \<Longrightarrow> same_processes j j'"
  by (auto simp: job_login_def split: if_splits)

lemma build_same: "buildJobConfig J H j = Inr j' \<Longrightarrow> same_processes j j'"
  by (auto simp: buildJobConfig_def split: option.splits)

lemma load_file_same: "load_file J H jc j = Inr j' \<Longrightarrow> same_processes j j'"
  by (auto simp: load_file_def Let_def split: if_splits dest!: build_same)

lemma load_url_same: "load_url J H jc j = Inr j' \<Longrightarrow> same_processes j j'"
  by (auto simp: load_url_def Let_def split: if_splits dest!: build_same)

lemma registration_same: "job_registration J m j = Inr (m', j') \<Longrightarrow> same_processes j j'"
  by (auto simp: job_registration_def dest!: clear_same)

lemma endregistration_same: "job_endregistration J m j = Inr (m', j') \<Longrightarrow> same_processes j j'"
  by (auto simp: job_endregistration_def)

lemma registerjob_same: "job_registerjob J m j = Inr (m', j') \<Longrightarrow> same_processes j j'"
  by (auto simp: job_registerjob_def split: if_splits)

lemma initialise_clears:
  assumes "job_initialise J H m j = Inr (m', j')"
  shows "jb_processMap j' = [] \<and> jb_os j' = jb_os j"
proof -
  from assms obtain j1 jc j2 where j1: "job_clear J j = Inr j1"
    and j2: "job_login J jc (j1\<lparr>jb_processMap := []\<rparr>) = Inr j2"
    and j3: "load_file J H jc j2 = Inr j' \<or> load_url J H jc j2 = Inr j' \<or> j2 = j'"
    unfolding job_initialise_def by (auto split: if_splits)
  from clear_same [OF j1] login_same [OF j2] j3 load_file_same [of J H jc j2 j'] load_url_same [of J H jc j2 j']
  show ?thesis by auto
qed

section \<open>Starting, listing and killing the jobs\<close>

lemma start_one_ok:
  assumes "start_one J s j = Inr j'" and "table_ok (jb_processMap j) (jb_os j)"
  shows "table_ok (jb_processMap j') (jb_os j')"
proof -
  from assms(1) obtain pd w where "startProcess J (jb_envConf j) (processData_new J s) (jb_os j) = Inr (pd, w)"
    and "j' = j\<lparr>jb_processMap := map_insert (pd_childPid pd) pd (jb_processMap j), jb_os := w\<rparr>"
    unfolding start_one_def by auto
  with table_ok_start [OF assms(2)] show ?thesis by simp
qed

lemma start_ok:
  assumes "job_start J m j = Inr (m', j')" and "table_ok (jb_processMap j) (jb_os j)"
  shows "table_ok (jb_processMap j') (jb_os j')"
proof -
  from assms(1) have "rfold (\<lambda>book. start_one J (j_write J book)) (j_elems J (jb_jconf j)) j = Inr j'"
    unfolding job_start_def by auto
  then show ?thesis
    by (rule rfold_invariant [where P = "\<lambda>j. table_ok (jb_processMap j) (jb_os j)"])
      (use assms(2) start_one_ok in auto)
qed

lemma job_info_pid:
  assumes "json_ok J" and "job_info J j (k, pd) = Inr v"
  shows "j_get J ''PID'' v = Inr (j_int J k)"
proof -
  obtain p1 where p1: "j_set J ''HOST'' (j_str J (jb_hostname j)) (j_null J) = Inr p1" "j_object J p1"
    by (rule json_set [OF assms(1) json_null(1) [OF assms(1)]]) blast
  obtain p2 where p2: "j_set J ''PID'' (j_int J k) p1 = Inr p2" "j_object J p2" "j_get J ''PID'' p2 = Inr (j_int J k)"
    by (rule json_set [OF assms(1) p1(2)]) blast
  from assms(2) p1(1) p2(1) obtain n p3 st where "j_set J ''NAME'' n p2 = Inr p3"
    and v: "j_set J ''STATUS'' (j_str J st) p3 = Inr v"
    by (auto simp: job_info_def)
  then have p3: "j_object J p3" "j_get J ''PID'' p3 = Inr (j_int J k)"
    using p2(3) by (auto intro: json_set [OF assms(1) p2(2), of "''NAME''" n])
  show ?thesis using v p3 by (auto intro: json_set [OF assms(1) p3(1), of "''STATUS''" "j_str J st"])
qed

definition pid_of :: "'j jsonlib \<Rightarrow> 'j \<Rightarrow> int \<Rightarrow> bool" where
  "pid_of J b k \<longleftrightarrow> j_get J ''PID'' b = Inr (j_int J k)"

lemma jsonStatus_pids:
  assumes "json_ok J" and "jsonStatus J j = Inr v"
  shows "list_all2 (pid_of J) (j_elems J v) (map fst (jb_processMap j))"
proof -
  have "a = j_null J \<or> j_elems J a \<noteq> [] \<Longrightarrow>
      rfold (\<lambda>e array. rbind (job_info J j e) (\<lambda>pinf. j_append J array pinf)) es a = Inr v \<Longrightarrow>
      \<exists>bs. j_elems J v = j_elems J a @ bs \<and> list_all2 (pid_of J) bs (map fst es)" for es a
  proof (induction es arbitrary: a)
    case Nil
    then show ?case by auto
  next
    case (Cons e es)
    obtain k pd where e: "e = (k, pd)" by (cases e)
    from Cons.prems(2) obtain b a1 where b: "job_info J j (k, pd) = Inr b" "j_append J a b = Inr a1"
      "rfold (\<lambda>e array. rbind (job_info J j e) (\<lambda>pinf. j_append J array pinf)) es a1 = Inr v" by (auto simp: e)
    from json_append [OF assms(1) Cons.prems(1), of b] b(2) have "j_elems J a1 = j_elems J a @ [b]" by auto
    with Cons.IH [OF _ b(3)] job_info_pid [OF assms(1) b(1)] show ?case by (auto simp: e pid_of_def)
  qed
  from this [of "j_null J" "jb_processMap j"] assms show ?thesis
    by (simp add: jsonStatus_def json_null(4))
qed

lemma kill_books:
  assumes "json_ok J"
  shows "rfold (kill_book J) bs j = Inr j' \<Longrightarrow> list_all2 (pid_of J) bs ks \<Longrightarrow>
     table_ok (jb_processMap j) (jb_os j) \<Longrightarrow> \<forall>k \<in> set ks. - 1 \<le> k \<and> k < 2 ^ 31 \<Longrightarrow>
     table_ok (jb_processMap j') (jb_os j') \<and> fst ` set (jb_processMap j') = fst ` set (jb_processMap j) - set ks"
proof (induction bs arbitrary: j ks)
  case Nil
  then show ?case by simp
next
  case (Cons b bs)
  from Cons.prems(2) obtain k ks' where ks: "ks = k # ks'" "pid_of J b k" "list_all2 (pid_of J) bs ks'"
    by (auto simp: list_all2_Cons1)
  from Cons.prems(1) obtain j1 where j1: "kill_book J b j = Inr j1" "rfold (kill_book J) bs j1 = Inr j'" by auto
  from j1(1) ks(2) obtain pid where pid: "j_asUInt J (j_int J k) = Inr pid" "j1 = job_killProcess pid 9 j"
    by (auto simp: kill_book_def pid_of_def)
  have r: "- 1 \<le> k" "k < 2 ^ 31" using Cons.prems(4) ks(1) by auto
  have "0 \<le> k" using pid(1) json_int(3) [OF assms, of k] by (cases "k < 0") auto
  then have p: "pid = as_u32 k" using pid(1) json_int(2) [OF assms, of k] r by (simp add: as_u32_def)
  obtain m' w' where k: "killProcess pid 9 (jb_processMap j) (jb_os j) = (m', w')" by fastforce
  note T = table_ok_kill [OF Cons.prems(3) k]
  have core: "jb_processMap j1 = m'" "jb_os j1 = w'" by (simp_all add: pid(2) job_killProcess_def k)
  have "fst ` set m' = fst ` set (jb_processMap j) - {k}"
    unfolding T(2) p using as_u32_inject [OF r] table_entry(4,5) [OF Cons.prems(3)] by force
  with Cons.IH [OF j1(2) ks(3)] T(1) Cons.prems(4) show ?case by (auto simp: core ks(1))
qed

lemma kill_ok:
  assumes "json_ok J" and "job_kill J m j = Inr (m', j')" and "table_ok (jb_processMap j) (jb_os j)"
  shows "table_ok (jb_processMap j') (jb_os j')" and "jb_processMap j' = []"
proof -
  from assms(2) obtain books where b: "jsonStatus J j = Inr books" "rfold (kill_book J) (j_elems J books) j = Inr j'"
    unfolding job_kill_def by auto
  have r: "\<forall>k \<in> set (map fst (jb_processMap j)). - 1 \<le> k \<and> k < 2 ^ 31"
    using table_entry(4,5) [OF assms(3)] by fastforce
  from kill_books [OF assms(1) b(2) jsonStatus_pids [OF assms(1) b(1)] assms(3) r]
  show "table_ok (jb_processMap j') (jb_os j')" and "jb_processMap j' = []" by auto
qed

section \<open>What killing sends\<close>

lemma killProcess_present:
  assumes "table_ok m w" and "k \<in> fst ` set m"
  shows "killProcess (as_u32 k) sig m w = (map_erase k m, w\<lparr>os_signals := os_signals w @ [(k, sig)]\<rparr>)"
proof -
  have "- 1 \<le> k" "k < 2 ^ 31" using assms(2) table_entry(4,5) [OF assms(1)] by auto
  from killProcess_cases [OF assms(1) this] assms(2) show ?thesis by simp
qed

lemma kill_books_signals:
  assumes "json_ok J"
  shows "list_all2 (pid_of J) bs ks \<Longrightarrow> table_ok (jb_processMap j) (jb_os j) \<Longrightarrow> distinct ks \<Longrightarrow>
     \<forall>k \<in> set ks. 0 \<le> k \<and> k \<in> fst ` set (jb_processMap j) \<Longrightarrow>
     \<exists>j'. rfold (kill_book J) bs j = Inr j' \<and>
       os_signals (jb_os j') = os_signals (jb_os j) @ map (\<lambda>k. (k, 9)) ks"
proof (induction bs arbitrary: j ks)
  case Nil
  then show ?case by simp
next
  case (Cons b bs)
  from Cons.prems(1) obtain k ks' where ks: "ks = k # ks'" "pid_of J b k" "list_all2 (pid_of J) bs ks'"
    by (auto simp: list_all2_Cons1)
  have k: "0 \<le> k" "k \<in> fst ` set (jb_processMap j)" using Cons.prems(4) ks(1) by auto
  have "k < 2 ^ 32" using k(2) table_entry(5) [OF Cons.prems(2)] by fastforce
  with json_int(2) [OF assms k(1)] ks(2)
  have b: "kill_book J b j = Inr (job_killProcess (as_u32 k) 9 j)"
    by (simp add: kill_book_def pid_of_def as_u32_def)
  let ?j = "job_killProcess (as_u32 k) 9 j"
  have core: "jb_processMap ?j = map_erase k (jb_processMap j)"
    "jb_os ?j = (jb_os j)\<lparr>os_signals := os_signals (jb_os j) @ [(k, 9)]\<rparr>"
    using killProcess_present [OF Cons.prems(2) k(2), of 9] by (simp_all add: job_killProcess_def)
  have t: "table_ok (jb_processMap ?j) (jb_os ?j)" unfolding core by (rule table_ok_erase [OF Cons.prems(2) k(2)])
  have "\<forall>x \<in> set ks'. 0 \<le> x \<and> x \<in> fst ` set (jb_processMap ?j)"
    using Cons.prems(3,4) unfolding ks(1) core keys_erase by auto
  from Cons.IH [OF ks(3) t _ this] Cons.prems(3) b show ?case by (auto simp: ks(1) core)
qed

lemma kill_books_nonneg:
  assumes "json_ok J"
  shows "rfold (kill_book J) bs j = Inr j' \<Longrightarrow> list_all2 (pid_of J) bs ks \<Longrightarrow> \<forall>k \<in> set ks. 0 \<le> k"
proof (induction bs arbitrary: j ks)
  case Nil
  then show ?case by simp
next
  case (Cons b bs)
  from Cons.prems(2) obtain k ks' where ks: "ks = k # ks'" "pid_of J b k" "list_all2 (pid_of J) bs ks'"
    by (auto simp: list_all2_Cons1)
  from Cons.prems(1) obtain j1 where j1: "kill_book J b j = Inr j1" "rfold (kill_book J) bs j1 = Inr j'" by auto
  then obtain pid where "j_asUInt J (j_int J k) = Inr pid" using ks(2) by (auto simp: kill_book_def pid_of_def)
  with json_int(3) [OF assms, of k] have "0 \<le> k" by (cases "k < 0") auto
  with Cons.IH [OF j1(2) ks(3)] show ?case by (simp add: ks(1))
qed

lemma job_info_returns:
  assumes "json_ok J" and "j_object J (pd_info pd)" and "\<exists>s. processStatus (jb_os j) (as_u32 k) = Inr s"
  shows "\<exists>v. job_info J j (k, pd) = Inr v"
proof -
  obtain p1 where p1: "j_set J ''HOST'' (j_str J (jb_hostname j)) (j_null J) = Inr p1" "j_object J p1"
    by (rule json_set [OF assms(1) json_null(1) [OF assms(1)]]) blast
  obtain p2 where p2: "j_set J ''PID'' (j_int J k) p1 = Inr p2" "j_object J p2"
    by (rule json_set [OF assms(1) p1(2)]) blast
  obtain n where n: "j_get J ''NAME'' (pd_info pd) = Inr n" using json_get [OF assms(1)] assms(2) by blast
  obtain p3 where p3: "j_set J ''NAME'' n p2 = Inr p3" "j_object J p3" by (rule json_set [OF assms(1) p2(2)]) blast
  obtain s where s: "processStatus (jb_os j) (as_u32 k) = Inr s" using assms(3) by blast
  obtain p4 where "j_set J ''STATUS'' (j_str J s) p3 = Inr p4" by (rule json_set [OF assms(1) p3(2)]) blast
  with p1(1) p2(1) n p3(1) s show ?thesis by (simp add: job_info_def)
qed

lemma jsonStatus_returns:
  assumes "json_ok J" and "\<forall>(k, pd) \<in> set (jb_processMap j). j_object J (pd_info pd)"
    and "\<forall>p. \<exists>s. processStatus (jb_os j) p = Inr s"
  shows "\<exists>v. jsonStatus J j = Inr v"
proof -
  have "\<exists>v. rfold (\<lambda>e array. rbind (job_info J j e) (\<lambda>pinf. j_append J array pinf)) (jb_processMap j) (j_null J) = Inr v
      \<and> (v = j_null J \<or> j_elems J v \<noteq> [])"
  proof (rule rfold_total)
    fix e a
    assume e: "e \<in> set (jb_processMap j)" and a: "a = j_null J \<or> j_elems J a \<noteq> []"
    obtain k pd where ek: "e = (k, pd)" by (cases e)
    have "j_object J (pd_info pd)" using e assms(2) by (auto simp: ek)
    moreover have "\<exists>s. processStatus (jb_os j) (as_u32 k) = Inr s" using assms(3) by blast
    ultimately obtain v where v: "job_info J j e = Inr v" using job_info_returns [OF assms(1)] ek by blast
    from json_append [OF assms(1) a, of v] v
    show "\<exists>t. rbind (job_info J j e) (\<lambda>pinf. j_append J a pinf) = Inr t \<and> (t = j_null J \<or> j_elems J t \<noteq> [])" by auto
  qed simp
  then show ?thesis unfolding jsonStatus_def by blast
qed

end
