(* ===== verification/Machine.thy ===== *)
theory Machine
  imports Fsm_Web
begin

text \<open>
  An application behind a web machine: its transition table and its page commands are given as
  sets, and the locale states what they have to keep. Whatever commands and page requests come,
  in whatever order, and whatever else happens to the application in between (the relation \<open>R\<close>),
  the invariant of the state the machine is in then holds.
\<close>

section \<open>Tables\<close>

type_synonym ('j, 's) callback = "'j fsmmessage \<Rightarrow> 's \<Rightarrow> ('j fsmmessage \<times> 's) res"
type_synonym ('j, 's) transition_set = "(string \<times> string \<times> string \<times> ('j, 's) callback) set"

definition table_from :: "('j, 's) fsmweb \<Rightarrow> ('j, 's) transition_set \<Rightarrow> bool" where
  "table_from f T \<longleftrightarrow> fsm_ok f \<and> (\<forall>c st t. transition f c st = Some t \<longrightarrow> (c, st, tr_fstate t, tr_callback t) \<in> T)"

lemma transition_add_cases:
  assumes "transition (addTransition cmd t f) c st = Some u" and "fsm_ok f"
  shows "(c = cmd \<and> st = tr_istate t \<and> u = t) \<or> transition f c st = Some u"
  using assms transition_addTransition [OF assms(2), of cmd t c st] by (auto split: if_splits)

lemma table_from_add:
  assumes "table_from f T"
  shows "table_from (addTransition cmd \<lparr>tr_istate = i, tr_fstate = e, tr_callback = g\<rparr> f) (insert (cmd, i, e, g) T)"
  using assms fsm_ok_addTransition transition_add_cases unfolding table_from_def by fastforce

lemma table_from_state: "table_from f T \<Longrightarrow> table_from (addState n f) T"
  by (simp add: table_from_def addState_def fsm_ok_def transition_def)

lemma table_from_command: "table_from f T \<Longrightarrow> table_from (addCommand n g f) T"
  by (simp add: table_from_def addCommand_def fsm_ok_def transition_def)

lemma table_from_new: "table_from (fsmweb_new n) {}"
  by (simp add: table_from_def fsm_ok_web_new) (simp add: transition_def fsmweb_new_def fsm_new_def fsm.defs)

lemmas table_from_intros = table_from_command table_from_add table_from_state table_from_new

text \<open>Looking a transition up in a table built by a list of declarations.\<close>

lemma fsm_ok_other:
  "fsm_ok (addState n f) = fsm_ok f" "fsm_ok (addCommand n g w) = fsm_ok w"
  by (simp_all add: fsm_ok_def addState_def addCommand_def)

lemma transition_declared:
  "transition (addState n f) c st = transition f c st" "transition (addCommand n g w) c st = transition w c st"
  "transition (fsmweb_new n) c st = None" "f_state (addState n f) = f_state f"
  "f_state (addCommand n g w) = f_state w" "f_state (fsmweb_new n) = ''CREATED''"
  by (simp_all add: transition_def addState_def addCommand_def fsmweb_new_def fsm_new_def fsm.defs)

lemmas table_lookup = transition_addTransition transition_declared fsm_ok_other fsm_ok_addTransition
  fsm_ok_web_new addTransition_state

definition pages_from :: "('j, 's) fsmweb \<Rightarrow> ('j, 's) page_function set \<Rightarrow> bool" where
  "pages_from f P \<longleftrightarrow> map_ok (fw_commands f) \<and> (\<forall>n g. map_of (fw_commands f) n = Some g \<longrightarrow> g \<in> P)"

lemma map_insert_entries: "map_ok m \<Longrightarrow> map_of (map_insert n g m) k = Some h \<Longrightarrow> h = g \<or> map_of m k = Some h"
  by (simp add: find_insert split: if_splits)

lemma pages_from_command: "pages_from f P \<Longrightarrow> g \<in> P \<Longrightarrow> pages_from (addCommand n g f) P"
  using map_insert_entries [of "fw_commands f" n g] unfolding pages_from_def addCommand_def
  by (auto simp: map_ok_insert)

lemma pages_from_transition: "pages_from f P \<Longrightarrow> pages_from (addTransition c t f) P"
  by (simp add: pages_from_def addTransition_def split: option.split)

lemma pages_from_state: "pages_from f P \<Longrightarrow> pages_from (addState n f) P"
  by (simp add: pages_from_def addState_def)

lemma pages_from_new: "pages_from (fsmweb_new n) P"
  by (simp add: pages_from_def fsmweb_new_def fsm.defs)

lemmas pages_from_intros = pages_from_command pages_from_transition pages_from_state pages_from_new

text \<open>Starting the server and the state in force touch neither table.\<close>

lemma tables_start:
  "table_from (fsmweb_start h p f) T = table_from f T" "pages_from (fsmweb_start h p f) P = pages_from f P"
  "f_state (fsmweb_start h p f) = f_state f"
  by (simp_all add: fsmweb_start_def Let_def table_from_def pages_from_def fsm_ok_def transition_def)

lemma tables_setState:
  "table_from (setState s f) T = table_from f T" "pages_from (setState s f) P = pages_from f P"
  by (simp_all add: setState_def table_from_def pages_from_def fsm_ok_def transition_def)

lemma tables_publish:
  "table_from (publishState (f\<lparr>f_state := s\<rparr>)) T = table_from f T"
  "pages_from (publishState (f\<lparr>f_state := s\<rparr>)) P = pages_from f P"
  by (simp_all add: publishState_def table_from_def pages_from_def fsm_ok_def transition_def)

section \<open>Steps\<close>

inductive web_step ::
  "'j jsonlib \<Rightarrow> ('s \<Rightarrow> 's \<Rightarrow> bool) \<Rightarrow> ('j, 's) fsmweb \<times> 's \<Rightarrow> ('j, 's) fsmweb \<times> 's \<Rightarrow> bool" for J R where
  command: "fsmweb_processCommand J m f s = Inr (r, m', f', s') \<Longrightarrow> web_step J R (f, s) (f', s')"
| page: "cmdProcess J f rq rsp s = Inr (rsp', s') \<Longrightarrow> web_step J R (f, s) (f, s')"
| other: "R s s' \<Longrightarrow> web_step J R (f, s) (f, s')"

inductive_cases web_stepE: "web_step J R (f, s) c"

text \<open>A command runs one callback of the table, or none.\<close>

lemma web_command_cases:
  assumes "fsmweb_processCommand J m f s = Inr (r, m', f', s')"
  obtains "s' = s" "f_state f' = f_state f" "\<And>T. table_from f' T = table_from f T" "\<And>P. pages_from f' P = pages_from f P"
  | c t m1 where "transition f c (f_state f) = Some t" "tr_callback t m s = Inr (m1, s')"
      "f' = publishState (f\<lparr>f_state := tr_fstate t\<rparr>)"
proof (cases "fsm_processCommand J m f s = Inr (r, m', f', s')")
  case False
  with assms have "s' = s" "\<exists>x. f' = f\<lparr>fw_webSent := x\<rparr>"
    by (auto simp: fsmweb_processCommand_def split: option.splits if_splits)
  then show ?thesis by (intro that(1)) (auto simp: table_from_def pages_from_def fsm_ok_def transition_def)
next
  case True
  then obtain c where c: "msg_command J m = Inr c" by (auto simp: fsm_processCommand_def)
  show ?thesis
  proof (cases "transition f c (f_state f)")
    case None
    with True processCommand_transition [OF c, of f s] have "s' = s" "f' = f" by auto
    then show ?thesis by (intro that(1)) auto
  next
    case (Some t)
    with True processCommand_transition [OF c, of f s] that(2) [OF Some] show ?thesis by auto
  qed
qed

text \<open>The commands of a client, one after the other.\<close>

definition web_commands ::
  "'j jsonlib \<Rightarrow> 'j fsmmessage list \<Rightarrow> ('j, 's) fsmweb \<times> 's \<Rightarrow> (('j, 's) fsmweb \<times> 's) res" where
  "web_commands J ms c =
     rfold (\<lambda>m (f, s). rbind (fsmweb_processCommand J m f s) (\<lambda>(_, _, f', s'). Inr (f', s'))) ms c"

lemma web_commands_Nil [simp]: "web_commands J [] c = Inr c"
  by (simp add: web_commands_def)

lemma web_commands_append: "web_commands J (ms @ ms') c = rbind (web_commands J ms c) (web_commands J ms')"
  unfolding web_commands_def rfold_append ..

lemma web_command_runs:
  assumes "json_ok J" and "says J m c ct" and "c \<noteq> ''?''" and "transition f c (f_state f) = Some t"
    and "tr_callback t m s = Inr (m1, s')" and "says J m1 c1 ct1"
  shows "\<exists>m2. fsmweb_processCommand J m f s =
     Inr (tr_fstate t, m2, publishState (f\<lparr>f_state := tr_fstate t\<rparr>), s') \<and> replies J m2 c1 ''DONE'' ct1"
proof -
  from fsm_done_replies [OF assms(1,6)] obtain m2 where m2: "fsm_done J m1 = Inr m2" "replies J m2 c1 ''DONE'' ct1"
    by blast
  have "fsm_processCommand J m f s = Inr (tr_fstate t, m2, publishState (f\<lparr>f_state := tr_fstate t\<rparr>), s')"
    using processCommand_transition [OF says_command [OF assms(2)], of f s] assms(4,5) m2(1) by simp
  with m2(2) assms(3) says_command [OF assms(2)] show ?thesis
    by (auto simp: fsmweb_processCommand_def split: option.split)
qed

lemma transition_other [simp]:
  "transition (publishState f) = transition f" "transition (f\<lparr>f_state := st\<rparr>) = transition f"
  "transition (fsmweb_start h p w) = transition w" "f_state (publishState f) = f_state f"
  by (auto simp: fun_eq_iff transition_def publishState_def fsmweb_start_def Let_def)

lemma web_commands_step:
  assumes "json_ok J" and "says J m c ct" and "c \<noteq> ''?''"
    and "transition f c (f_state f) = Some \<lparr>tr_istate = i, tr_fstate = e, tr_callback = g\<rparr>"
    and "g m s = Inr (m1, s')" and "says J m1 c1 ct1"
  shows "\<exists>f'. web_commands J (m # ms) (f, s) = web_commands J ms (f', s') \<and> f_state f' = e \<and>
     transition f' = transition f"
  using web_command_runs [OF assms(1-4) _ assms(6), of s s'] assms(5)
  by (intro exI [of _ "publishState (f\<lparr>f_state := e\<rparr>)"]) (auto simp: web_commands_def)

text \<open>Commands are steps.\<close>

lemma web_commands_reach:
  "web_commands J ms c = Inr c' \<Longrightarrow> (web_step J R)\<^sup>*\<^sup>* c c'"
proof (induction ms arbitrary: c)
  case Nil
  then show ?case by simp
next
  case (Cons m ms)
  obtain f s where c: "c = (f, s)" by (cases c)
  from Cons.prems obtain r m' f' s' where r: "fsmweb_processCommand J m f s = Inr (r, m', f', s')"
    "web_commands J ms (f', s') = Inr c'"
    by (auto simp: web_commands_def c)
  from web_step.command [OF r(1), of R] Cons.IH [OF r(2)] show ?case unfolding c by (rule converse_rtranclp_into_rtranclp)
qed

section \<open>What an application keeps\<close>

locale application =
  fixes J :: "'j jsonlib" and T :: "('j, 's) transition_set" and P :: "('j, 's) page_function set"
    and R :: "'s \<Rightarrow> 's \<Rightarrow> bool" and I :: "string \<Rightarrow> 's \<Rightarrow> bool"
  assumes transition_keeps: "json_ok J \<Longrightarrow> (c, st, e, g) \<in> T \<Longrightarrow> g m s = Inr (m', s') \<Longrightarrow> I st s \<Longrightarrow> I e s'"
    and page_keeps: "json_ok J \<Longrightarrow> h \<in> P \<Longrightarrow> h rq st rsp s = Inr (r, s') \<Longrightarrow> I st s \<Longrightarrow> I st s'"
    and other_keeps: "R s s' \<Longrightarrow> I st s \<Longrightarrow> I st s'"
begin

definition served :: "('j, 's) fsmweb \<times> 's \<Rightarrow> bool" where
  "served c \<longleftrightarrow> table_from (fst c) T \<and> pages_from (fst c) P \<and> I (f_state (fst c)) (snd c)"

lemma step_keeps:
  assumes "json_ok J" and "web_step J R c c'" and "served c"
  shows "served c'"
  using assms(2,3)
proof (induction rule: web_step.induct)
  case (command m f s r m' f' s')
  from command.hyps show ?case
  proof (cases rule: web_command_cases)
    case 1
    with command.prems show ?thesis by (simp add: served_def)
  next
    case (2 c t m1)
    with command.prems have "(c, f_state f, tr_fstate t, tr_callback t) \<in> T"
      by (simp add: served_def table_from_def)
    from transition_keeps [OF assms(1) this 2(2)] command.prems have "I (tr_fstate t) s'"
      by (simp add: served_def)
    with command.prems 2(3) show ?thesis by (simp add: served_def tables_publish)
  qed
next
  case (page f rq rsp s rsp' s')
  then have "s' = s \<or> (\<exists>n g r. map_of (fw_commands f) n = Some g \<and>
      g rq (f_state f) (response_new J) s = Inr (r, s'))"
    by (auto simp: cmdProcess_def handleRequest_def Let_def split: if_splits option.splits)
  with page.prems page_keeps [OF assms(1)] show ?case
    unfolding served_def pages_from_def fst_conv snd_conv by metis
next
  case (other s s' f)
  with other_keeps show ?case by (simp add: served_def)
qed

lemma reachable:
  assumes "json_ok J" and "(web_step J R)\<^sup>*\<^sup>* c c'" and "served c"
  shows "served c'"
  using assms(2,3) by (induction rule: rtranclp_induct) (auto intro: step_keeps [OF assms(1)])

end

end
