(* ===== verification/Job_Spec.thy ===== *)
theory Job_Spec
  imports Job_Table Machine
begin

text \<open>
  The properties of the job control: its table of processes holds running processes under their
  own numbers, signals go only to processes it has started, and none is left without one when
  the machine is not in its running state.
\<close>

section \<open>The invariant of the running machine\<close>

text \<open>The table is in order, and holds nothing unless the machine runs.\<close>

definition job_ok :: "string \<Rightarrow> 'j fsmjob \<Rightarrow> bool" where
  "job_ok st j \<longleftrightarrow> table_ok (jb_processMap j) (jb_os j) \<and> (st \<noteq> ''RUNNING'' \<longrightarrow> jb_processMap j = [])"

lemma job_ok_same: "job_ok st j \<Longrightarrow> same_processes j j' \<Longrightarrow> job_ok st j'"
  by (simp add: job_ok_def)

lemma job_ok_idle:
  "job_ok st j \<Longrightarrow> st \<noteq> ''RUNNING'' \<Longrightarrow> jb_processMap j' = [] \<Longrightarrow> jb_os j' = jb_os j \<Longrightarrow> job_ok st' j'"
  for j j' :: "'j fsmjob"
  by (auto simp: job_ok_def)

lemma job_ok_killProcess:
  assumes "job_ok st j"
  shows "job_ok st (job_killProcess pid sig j)"
proof -
  obtain m' w' where k: "killProcess pid sig (jb_processMap j) (jb_os j) = (m', w')" by fastforce
  have t: "table_ok (jb_processMap j) (jb_os j)" using assms by (simp add: job_ok_def)
  from table_ok_kill [OF t k] assms show ?thesis
    by (auto simp: job_ok_def job_killProcess_def k)
qed

lemma say_jobs_same: "say_jobs J s j rsp = Inr (r, j') \<Longrightarrow> j' = j"
  by (auto simp: say_jobs_def)

lemma status_page_ok: "job_status J rq st rsp j = Inr (r, j') \<Longrightarrow> job_ok st j \<Longrightarrow> job_ok st j'"
  by (auto simp: job_status_def dest: say_jobs_same)

lemma joblog_page_ok: "job_joblog J rq st rsp j = Inr (r, j') \<Longrightarrow> job_ok st j \<Longrightarrow> job_ok st j'"
  by (auto simp: job_joblog_def Let_def dest!: say_jobs_same split: if_splits option.splits)

lemma killjob_page_ok: "job_killjob J rq st rsp j = Inr (r, j') \<Longrightarrow> job_ok st j \<Longrightarrow> job_ok st j'"
  by (auto simp: job_killjob_def Let_def dest!: say_jobs_same split: if_splits option.splits
      intro: job_ok_killProcess)

lemma registerfile_page_ok:
  assumes "job_registerfile J rq st rsp j = Inr (r, j')" and "job_ok st j"
  shows "job_ok st j'"
proof (cases "st = ''INITIALISED''")
  case False
  with assms show ?thesis by (auto simp: job_registerfile_def)
next
  case True
  with assms(1) obtain j1 where j1: "job_clear J j = Inr j1"
    and j': "jb_processMap j' = [] \<and> jb_os j' = jb_os j1"
    by (auto simp: job_registerfile_def Let_def split: if_splits)
  from clear_same [OF j1] j' assms(2) True show ?thesis by (auto intro: job_ok_idle)
qed

lemma restartjob_page_ok:
  assumes "job_restartjob J rq st rsp j = Inr (r, j')" and "job_ok st j"
  shows "job_ok st j'"
proof (cases "jb_processMap j = []")
  case True
  with assms show ?thesis
    by (auto simp: job_restartjob_def Let_def dest!: say_jobs_same split: if_splits)
next
  case False
  with assms(2) have st: "st = ''RUNNING''" by (auto simp: job_ok_def)
  have "\<exists>pid sig jss j1. j' = j \<or> start_one J jss (job_killProcess pid sig j) = Inr j'"
    using assms(1) by (auto simp: job_restartjob_def Let_def split: if_splits prod.splits dest!: say_jobs_same)
  then show ?thesis
    using assms(2) st start_one_ok job_ok_killProcess [OF assms(2)] unfolding job_ok_def by metis
qed

section \<open>The machine\<close>

definition job_transitions :: "'j jsonlib \<Rightarrow> host \<Rightarrow> ('j, 'j fsmjob) transition_set" where
  "job_transitions J H =
     {(''INITIALISE'', ''CREATED'', ''INITIALISED'', job_initialise J H),
      (''REGISTRATION'', ''CREATED'', ''REGISTERING'', job_registration J),
      (''REGISTERJOB'', ''REGISTERING'', ''REGISTERING'', job_registerjob J),
      (''ENDREGISTRATION'', ''REGISTERING'', ''INITIALISED'', job_endregistration J),
      (''START'', ''INITIALISED'', ''RUNNING'', job_start J),
      (''KILL'', ''RUNNING'', ''INITIALISED'', job_kill J),
      (''DESTROY'', ''INITIALISED'', ''CREATED'', job_destroy)}"

lemma job_table_from: "table_from (job_table J H (fsmweb_new n)) (job_transitions J H)"
proof -
  have "table_from (job_table J H (fsmweb_new n))
     {(''DESTROY'', ''INITIALISED'', ''CREATED'', job_destroy),
      (''KILL'', ''RUNNING'', ''INITIALISED'', job_kill J),
      (''START'', ''INITIALISED'', ''RUNNING'', job_start J),
      (''ENDREGISTRATION'', ''REGISTERING'', ''INITIALISED'', job_endregistration J),
      (''REGISTERJOB'', ''REGISTERING'', ''REGISTERING'', job_registerjob J),
      (''REGISTRATION'', ''CREATED'', ''REGISTERING'', job_registration J),
      (''INITIALISE'', ''CREATED'', ''INITIALISED'', job_initialise J H)}"
    unfolding job_table_def Let_def foldl.simps
    by (intro table_from_intros)
  moreover have "{(''DESTROY'', ''INITIALISED'', ''CREATED'', job_destroy),
      (''KILL'', ''RUNNING'', ''INITIALISED'', job_kill J),
      (''START'', ''INITIALISED'', ''RUNNING'', job_start J),
      (''ENDREGISTRATION'', ''REGISTERING'', ''INITIALISED'', job_endregistration J),
      (''REGISTERJOB'', ''REGISTERING'', ''REGISTERING'', job_registerjob J),
      (''REGISTRATION'', ''CREATED'', ''REGISTERING'', job_registration J),
      (''INITIALISE'', ''CREATED'', ''INITIALISED'', job_initialise J H)} = job_transitions J H"
    unfolding job_transitions_def by (simp only: insert_commute)
  ultimately show ?thesis by simp
qed

lemma transition_keeps_job_ok:
  assumes "json_ok J" and "(c, st, e, g) \<in> job_transitions J H" and "g m j = Inr (m', j')" and "job_ok st j"
  shows "job_ok e j'"
proof -
  have t: "table_ok (jb_processMap j) (jb_os j)" using assms(4) by (simp add: job_ok_def)
  from assms(2) consider "st = ''CREATED''" "g = job_initialise J H" | "st \<noteq> ''RUNNING''" "g = job_registration J"
    | "st \<noteq> ''RUNNING''" "g = job_registerjob J" | "st \<noteq> ''RUNNING''" "g = job_endregistration J"
    | "e = ''RUNNING''" "g = job_start J" | "g = job_kill J" | "st \<noteq> ''RUNNING''" "g = job_destroy"
    by (auto simp: job_transitions_def)
  then show ?thesis
  proof cases
    case 1
    with initialise_clears [of J H m j m' j'] assms(3,4) show ?thesis by (auto simp: job_ok_def)
  next
    case 2
    with assms(3,4) registration_same show ?thesis by (force simp: job_ok_def)
  next
    case 3
    with assms(3,4) registerjob_same show ?thesis by (force simp: job_ok_def)
  next
    case 4
    with assms(3,4) endregistration_same show ?thesis by (force simp: job_ok_def)
  next
    case 5
    with start_ok [OF _ t, of J m m' j'] assms(3) show ?thesis by (simp add: job_ok_def)
  next
    case 6
    with kill_ok [OF assms(1) _ t, of m m' j'] assms(3) show ?thesis by (simp add: job_ok_def)
  next
    case 7
    with assms(3,4) show ?thesis by (auto simp: job_destroy_def job_ok_def)
  qed
qed

definition job_pages :: "'j jsonlib \<Rightarrow> 'j job_page set" where
  "job_pages J = {job_status J, job_joblog J, job_killjob J, job_restartjob J, job_registerfile J}"

lemma page_keeps_job_ok:
  assumes "g \<in> job_pages J" and "g rq st rsp j = Inr (r, j')" and "job_ok st j"
  shows "job_ok st j'"
  using assms status_page_ok joblog_page_ok killjob_page_ok restartjob_page_ok registerfile_page_ok
  unfolding job_pages_def by fast

lemma job_table_pages: "pages_from (job_table J H (fsmweb_new n)) (job_pages J)"
  unfolding job_table_def Let_def foldl.simps
  by (intro pages_from_intros) (simp_all add: job_pages_def)

section \<open>Reachable job controls\<close>

text \<open>Commands and page requests in any order, while the files of the system change.\<close>

definition files_change :: "'j fsmjob \<Rightarrow> 'j fsmjob \<Rightarrow> bool" where
  "files_change j j' \<longleftrightarrow> (\<exists>F. j' = j\<lparr>jb_os := (jb_os j)\<lparr>os_file := F\<rparr>\<rparr>)"

abbreviation job_step :: "'j jsonlib \<Rightarrow> ('j, 'j fsmjob) fsmweb \<times> 'j fsmjob \<Rightarrow> ('j, 'j fsmjob) fsmweb \<times> 'j fsmjob \<Rightarrow> bool" where
  "job_step J \<equiv> web_step J files_change"

lemma table_ok_files: "table_ok m (w\<lparr>os_file := F\<rparr>) = table_ok m w"
proof -
  have "known (w\<lparr>os_file := F\<rparr>) = known w" by (intro ext) (simp add: known_def)
  then show ?thesis by (simp add: table_ok_def fork_ok_def)
qed

interpretation jobs: application J "job_transitions J H" "job_pages J" files_change job_ok for J H
  by unfold_locales
    (auto simp: files_change_def job_ok_def table_ok_files dest: transition_keeps_job_ok [unfolded job_ok_def]
      page_keeps_job_ok [unfolded job_ok_def])

lemma conf_lines_os:
  "os_signals (foldl (\<lambda>w l. conf_line l w) w ls) = os_signals w \<and>
   os_children (foldl (\<lambda>w l. conf_line l w) w ls) = os_children w \<and>
   os_fork (foldl (\<lambda>w l. conf_line l w) w ls) = os_fork w \<and> os_forks (foldl (\<lambda>w l. conf_line l w) w ls) = os_forks w"
  by (induction ls arbitrary: w) (simp_all add: conf_line_def Let_def split: prod.split)

lemma job_served_new:
  assumes "fork_ok w" and "os_signals w = []" and "os_children w = []"
  shows "jobs.served J H (fsmjob_new J H n port w)"
proof -
  have f: "fst (fsmjob_new J H n port w) = fsmweb_start (hn_name H) port (job_table J H (fsmweb_new n))"
    by (simp add: fsmjob_new_def Let_def)
  have j: "job_ok st (snd (fsmjob_new J H n port w))" for st
    using assms conf_lines_os [of w] by (simp add: fsmjob_new_def Let_def job_ok_def table_ok_def fork_ok_def)
  then show ?thesis
    unfolding jobs.served_def f tables_start by (simp add: job_table_from job_table_pages)
qed

section \<open>Properties\<close>


text \<open>
  C14: the kill transition kills all jobs: when the table is in order and every fork succeeded, the
  status of the processes can be read and the request can be answered, it sends signal 9 to every
  process of the table, once and in the order of their numbers, and leaves the table empty.
\<close>

theorem kill_all:
  assumes "json_ok J" and "table_ok (jb_processMap j) (jb_os j)" and "\<forall>k \<in> fst ` set (jb_processMap j). k \<noteq> - 1"
    and "\<forall>(k, pd) \<in> set (jb_processMap j). j_object J (pd_info pd)"
    and "\<forall>p. \<exists>s. processStatus (jb_os j) p = Inr s" and "says J m c ct" and "j_object J ct"
  shows "\<exists>m' j'. job_kill J m j = Inr (m', j') \<and> jb_processMap j' = [] \<and>
     os_signals (jb_os j') = os_signals (jb_os j) @ map (\<lambda>k. (k, 9)) (map fst (jb_processMap j))"
proof -
  from jsonStatus_returns [OF assms(1,4,5)] obtain books where b: "jsonStatus J j = Inr books" by blast
  have d: "distinct (map fst (jb_processMap j))" using table_ok_parts(1) [OF assms(2)] by (rule map_ok_distinct)
  have "\<forall>k \<in> set (map fst (jb_processMap j)). 0 \<le> k \<and> k \<in> fst ` set (jb_processMap j)"
    using assms(3) table_entry(4) [OF assms(2)] by force
  from kill_books_signals [OF assms(1) jsonStatus_pids [OF assms(1) b] assms(2) d this] obtain j' where
    j': "rfold (kill_book J) (j_elems J books) j = Inr j'"
    "os_signals (jb_os j') = os_signals (jb_os j) @ map (\<lambda>k. (k, 9)) (map fst (jb_processMap j))" by blast
  have r: "\<forall>k \<in> set (map fst (jb_processMap j)). - 1 \<le> k \<and> k < 2 ^ 31"
    using table_entry(4,5) [OF assms(2)] by fastforce
  from kill_books [OF assms(1) j'(1) jsonStatus_pids [OF assms(1) b] assms(2) r]
  have empty: "jb_processMap j' = []" by auto
  then have "jsonStatus J j' = Inr (j_null J)" by (simp add: jsonStatus_def)
  moreover obtain m' where "msg_setAnswer J (j_null J) m = Inr m'"
    using setAnswer_says [OF assms(1,6), of "j_null J"] assms(7) by auto
  ultimately have "job_kill J m j = Inr (m', j')" using b j'(1) by (simp add: job_kill_def)
  with empty j'(2) show ?thesis by blast
qed


text \<open>Looking a name up in the configured jobs.\<close>

lemma has_name_result:
  assumes "\<forall>x \<in> set bs. \<exists>n. job_name J x = Inr n"
  shows "has_name J p bs = Inr (\<exists>x \<in> set bs. job_name J x = Inr p)"
  using assms
proof (induction bs)
  case Nil
  then show ?case by simp
next
  case (Cons b bs)
  then obtain n where "job_name J b = Inr n" by auto
  with Cons show ?case by auto
qed

lemma job_description_fields:
  assumes "json_ok J"
  obtains d where "job_description J p a e b = Inr d" "job_name J d = Inr p" "j_get J ''ARGS'' d = Inr (j_parse J a)"
    "j_get J ''ENV'' d = Inr (j_parse J e)" "j_get J ''PROGRAM'' d = Inr (j_parse J b)"
proof -
  obtain d1 where d1: "j_set J ''NAME'' (j_str J p) (j_null J) = Inr d1" "j_object J d1"
    "j_get J ''NAME'' d1 = Inr (j_str J p)" by (rule json_set [OF assms json_null(1) [OF assms]]) blast
  obtain d2 where d2: "j_set J ''ARGS'' (j_parse J a) d1 = Inr d2" "j_object J d2"
    "j_get J ''ARGS'' d2 = Inr (j_parse J a)" "\<And>k. k \<noteq> ''ARGS'' \<Longrightarrow> j_get J k d2 = j_get J k d1"
    by (rule json_set [OF assms d1(2)]) blast
  obtain d3 where d3: "j_set J ''ENV'' (j_parse J e) d2 = Inr d3" "j_object J d3"
    "j_get J ''ENV'' d3 = Inr (j_parse J e)" "\<And>k. k \<noteq> ''ENV'' \<Longrightarrow> j_get J k d3 = j_get J k d2"
    by (rule json_set [OF assms d2(2)]) blast
  obtain d4 where d4: "j_set J ''PROGRAM'' (j_parse J b) d3 = Inr d4" "j_object J d4"
    "j_get J ''PROGRAM'' d4 = Inr (j_parse J b)" "\<And>k. k \<noteq> ''PROGRAM'' \<Longrightarrow> j_get J k d4 = j_get J k d3"
    by (rule json_set [OF assms d3(2)]) blast
  show thesis
    by (rule that [of d4]) (use d1 d2 d3 d4 json_null(3) [OF assms] in \<open>simp_all add: job_description_def job_name_def\<close>)
qed

text \<open>
  Registering a job adds it once: when a configured job has the name already, the request
  changes nothing and is not answered; otherwise exactly one description is appended, with that
  name and the arguments, environment and program that the three texts read as.
\<close>

theorem registerjob_spec:
  assumes "json_ok J" and "says J m c ct" and "j_object J ct"
    and "content_string J ''processname'' ct = Inr p" and "content_string J ''processargs'' ct = Inr a"
    and "content_string J ''processenv'' ct = Inr e" and "content_string J ''processbin'' ct = Inr b"
    and "jb_jconf j = j_null J \<or> j_elems J (jb_jconf j) \<noteq> []"
    and "\<forall>x \<in> set (j_elems J (jb_jconf j)). \<exists>n. job_name J x = Inr n"
  shows "if \<exists>x \<in> set (j_elems J (jb_jconf j)). job_name J x = Inr p
     then job_registerjob J m j = Inr (m, j)
     else \<exists>m' conf d. job_registerjob J m j = Inr (m', j\<lparr>jb_jconf := conf\<rparr>) \<and>
       j_elems J conf = j_elems J (jb_jconf j) @ [d] \<and> job_name J d = Inr p \<and>
       j_get J ''ARGS'' d = Inr (j_parse J a) \<and> j_get J ''ENV'' d = Inr (j_parse J e) \<and>
       j_get J ''PROGRAM'' d = Inr (j_parse J b)"
proof -
  obtain d where d: "job_description J p a e b = Inr d" "job_name J d = Inr p" "j_get J ''ARGS'' d = Inr (j_parse J a)"
    "j_get J ''ENV'' d = Inr (j_parse J e)" "j_get J ''PROGRAM'' d = Inr (j_parse J b)"
    by (rule job_description_fields [OF assms(1)])
  have run: "job_registerjob J m j =
     (if \<exists>x \<in> set (j_elems J (jb_jconf j)). job_name J x = Inr p then Inr (m, j)
      else rbind (j_append J (jb_jconf j) d) (\<lambda>conf.
        rbind (msg_setAnswer J conf m) (\<lambda>m'. Inr (m', j\<lparr>jb_jconf := conf\<rparr>))))"
    using says_content [OF assms(2)] assms(4-7) d(1) has_name_result [OF assms(9), of p]
    by (simp add: job_registerjob_def)
  obtain conf where conf: "j_append J (jb_jconf j) d = Inr conf" "j_elems J conf = j_elems J (jb_jconf j) @ [d]"
    using json_append [OF assms(1,8), of d] by blast
  obtain m' where "msg_setAnswer J conf m = Inr m'" using setAnswer_says [OF assms(1,2), of conf] assms(3) by auto
  with run conf d show ?thesis by auto
qed

section \<open>Witnesses\<close>

definition demo_host :: host where
  "demo_host = \<lparr>hn_name = ''lyon'', hn_resolve = (\<lambda>_. None), hn_net = (\<lambda>_ _. [])\<rparr>"

definition demo_os :: "(nat \<Rightarrow> int) \<Rightarrow> os" where
  "demo_os pids = \<lparr>os_file = (\<lambda>_. None), os_env = (\<lambda>_. None), os_fork = pids, os_forks = 0,
     os_children = [], os_signals = []\<rparr>"

definition demo_job :: "string fsmjob" where
  "demo_job = \<lparr>jb_jfile = ''N'', jb_jconf = ''N'', jb_hostname = ''lyon'', jb_port = 45000,
     jb_processMap = [(4711, \<lparr>pd_info = ''N'', pd_childPid = 4711, pd_status = RUNNING, pd_string = ''N''\<rparr>)],
     jb_login = [], jb_envConf = [],
     jb_os = (demo_os (\<lambda>_. 4711))\<lparr>os_forks := 1, os_children := [(4711, Inl Out_Of_Bounds)]\<rparr>\<rparr>"

lemma demo_job_ok: "table_ok (jb_processMap demo_job) (jb_os demo_job)"
  by (simp add: table_ok_def demo_job_def demo_os_def fork_ok_def known_def map_ok_def)


theorem kill_all_witness:
  "\<exists>m' j'. job_kill text_json (demo_msg ''KILL'') demo_job = Inr (m', j') \<and> jb_processMap j' = [] \<and>
     os_signals (jb_os j') = [(4711, 9)]"
proof -
  have "\<forall>k \<in> fst ` set (jb_processMap demo_job). k \<noteq> - 1"
    and "\<forall>(k, pd) \<in> set (jb_processMap demo_job). j_object text_json (pd_info pd)"
    and "\<forall>p. \<exists>s. processStatus (jb_os demo_job) p = Inr s"
    by (simp_all add: demo_job_def demo_content processStatus_def demo_os_def)
  from kill_all [OF text_json_ok demo_job_ok this demo_says demo_content] show ?thesis
    by (simp add: demo_job_def demo_os_def)
qed


definition demo_register :: "string fsmmessage" where
  "demo_register =
     (let v = object [(''command'', ''SREGISTERJOB''), (''content'', object [(''processname'', ''SW1''),
        (''processargs'', ''SN''), (''processenv'', ''SN''), (''processbin'', ''SS/bin/w'')])] in
      \<lparr>m_sroot = v, m_jsroot = v\<rparr>)"

theorem registerjob_spec_witness:
  "\<exists>m' conf d. job_registerjob text_json demo_register demo_job = Inr (m', demo_job\<lparr>jb_jconf := conf\<rparr>) \<and>
     j_elems text_json conf = [d] \<and> job_name text_json d = Inr ''W1''"
proof -
  let ?ct = "object [(''processname'', ''SW1''), (''processargs'', ''SN''), (''processenv'', ''SN''), (''processbin'', ''SS/bin/w'')]"
  have get: "j_get text_json k (object kvs) = Inr (case map_of kvs k of Some x \<Rightarrow> x | None \<Rightarrow> ''N'')" for k kvs
    by (simp add: text_json_def text_object_object)
  have str: "j_asString text_json (CHR ''S'' # s) = Inr s" for s by (simp add: text_json_def)
  have obj: "j_object text_json (object kvs)" for kvs by (simp add: text_json_def text_object_object)
  have s: "says text_json demo_register ''REGISTERJOB'' ?ct"
    by (simp add: says_def demo_register_def Let_def msg_command_def msg_content_def get str obj)
      (simp add: text_json_def)
  have c: "content_string text_json ''processname'' ?ct = Inr ''W1''" "content_string text_json ''processargs'' ?ct = Inr ''N''"
    "content_string text_json ''processenv'' ?ct = Inr ''N''" "content_string text_json ''processbin'' ?ct = Inr ''S/bin/w''"
    by (simp_all add: content_string_def get str)
  have n: "jb_jconf demo_job = j_null text_json" "j_elems text_json (jb_jconf demo_job) = []"
    by (simp_all add: demo_job_def text_json_def text_elems_def)
  from registerjob_spec [OF text_json_ok s obj c, of demo_job] n show ?thesis by auto
qed

end
