(* ===== verification/Mdb_Reader.thy ===== *)
theory Mdb_Reader
  imports Stdio "HOL-Library.Multiset"
begin

text \<open>
  \<^verbatim>\<open>src/mdbReader.cxx\<close>: configurations and parameter sets kept in a MongoDB server. The client
  library is not part of the repository: it is a record of the operations the code calls, with
  \<open>'b\<close> the type of its documents and \<open>'d\<close> what the servers hold; \<open>mongo_ok\<close> is what the code
  relies on. Console output is left out, but the values it is made of are computed.
\<close>

section \<open>The client library\<close>

type_synonym place = "string \<times> u32"

record ('b, 'd) mongo =
  mg_query :: "place \<Rightarrow> string \<Rightarrow> 'b \<Rightarrow> 'd \<Rightarrow> 'b list res"
  mg_insert :: "place \<Rightarrow> string \<Rightarrow> 'b \<Rightarrow> 'd \<Rightarrow> 'd res"
  bs_empty :: 'b
  bs_by_id :: "string \<Rightarrow> 'b"
  bs_string :: "string \<Rightarrow> string \<Rightarrow> 'b \<Rightarrow> 'b"
  bs_number :: "string \<Rightarrow> u32 \<Rightarrow> 'b \<Rightarrow> 'b"
  bs_object :: "string \<Rightarrow> 'b \<Rightarrow> 'b \<Rightarrow> 'b"
  bs_oid :: "string \<Rightarrow> 'b \<Rightarrow> string res"
  bs_toString :: "string \<Rightarrow> 'b \<Rightarrow> string"
  bs_Int :: "string \<Rightarrow> 'b \<Rightarrow> int res"
  bs_jsonString :: "string \<Rightarrow> 'b \<Rightarrow> string"
  mg_fromjson :: "string \<Rightarrow> 'b res"

section \<open>The reader\<close>

text \<open>The connection is the server it was made to last.\<close>

record mdbReader =
  md_db :: string
  md_host :: string
  md_port :: u32
  md_cl :: "place option"

definition mdbReader_new :: "string \<Rightarrow> string \<Rightarrow> u32 \<Rightarrow> mdbReader" where
  "mdbReader_new dbname host port = \<lparr>md_db = dbname, md_host = host, md_port = port, md_cl = None\<rparr>"

definition mdb_connect :: "mdbReader \<Rightarrow> mdbReader" where
  "mdb_connect r = r\<lparr>md_cl := Some (md_host r, md_port r)\<rparr>"

text \<open>A query or an insertion over the connection; without one the library throws.\<close>

definition cl_query :: "('b, 'd) mongo \<Rightarrow> string \<Rightarrow> 'b \<Rightarrow> mdbReader \<Rightarrow> 'd \<Rightarrow> 'b list res" where
  "cl_query M ns q r d = (case md_cl r of None \<Rightarrow> Inl Thrown | Some p \<Rightarrow> mg_query M p ns q d)"

definition cl_insert :: "('b, 'd) mongo \<Rightarrow> string \<Rightarrow> 'b \<Rightarrow> mdbReader \<Rightarrow> 'd \<Rightarrow> 'd res" where
  "cl_insert M ns b r d = (case md_cl r of None \<Rightarrow> Inl Thrown | Some p \<Rightarrow> mg_insert M p ns b d)"

definition name_and_version :: "('b, 'd) mongo \<Rightarrow> string \<Rightarrow> u32 \<Rightarrow> 'b" where
  "name_and_version M name version = bs_number M ''version'' version (bs_string M ''name'' name (bs_empty M))"

section \<open>Listing\<close>

text \<open>
  The counter in the last three bytes of an object id, read from its text two characters at a
  time: \<^verbatim>\<open>substr\<close> throws behind the end, and \<^verbatim>\<open>sscanf\<close> leaves \<^verbatim>\<open>val\<close> indeterminate when there is
  no hexadecimal digit.
\<close>

definition hex_val :: "char \<Rightarrow> nat option" where
  "hex_val c =
     (let n = of_char c :: nat in
      if 48 \<le> n \<and> n \<le> 57 then Some (n - 48)
      else if 65 \<le> n \<and> n \<le> 70 then Some (n - 55)
      else if 97 \<le> n \<and> n \<le> 102 then Some (n - 87)
      else None)"

definition scan_hex :: "string \<Rightarrow> u32 res" where
  "scan_hex s =
     (let t = dropWhile is_space s;
          neg = (t \<noteq> [] \<and> hd t = CHR ''-'');
          u = (if t \<noteq> [] \<and> hd t \<in> {CHR ''-'', CHR ''+''} then tl t else t);
          ds = takeWhile (\<lambda>c. hex_val c \<noteq> None) u;
          v = word_of_nat (foldl (\<lambda>a c. 16 * a + the (hex_val c)) 0 ds) in
      if ds = [] then Inl Indeterminate else Inr (if neg then - v else v))"

fun oid_bytes :: "string \<Rightarrow> nat \<Rightarrow> nat \<Rightarrow> byte list res" where
  "oid_bytes s i 0 = Inr []"
| "oid_bytes s i (Suc n) =
     (if length s < i * 2 then Inl Thrown
      else
        rbind (scan_hex (take 2 (drop (i * 2) s))) (\<lambda>v.
        rbind (oid_bytes s (i + 1) n) (\<lambda>bs. Inr (ucast (v AND 0xFF) # bs))))"

definition oid_counter :: "string \<Rightarrow> u32 res" where
  "oid_counter s =
     rbind (oid_bytes s 0 12) (\<lambda>bb.
     Inr (ucast (bb ! 11) OR push_bit 8 (ucast (bb ! 10)) OR push_bit 16 (ucast (bb ! 9))))"

text \<open>One turn of the loop: what is printed, and the pair that joins the list.\<close>

definition list_entry :: "('b, 'd) mongo \<Rightarrow> 'b \<Rightarrow> (string \<times> u32 \<times> string \<times> u32) res" where
  "list_entry M b =
     rbind (bs_oid M ''_id'' b) (\<lambda>theid.
     rbind (oid_counter theid) (\<lambda>cnt.
     rbind (bs_Int M ''version'' b) (\<lambda>ver. Inr (theid, cnt, bs_toString M ''name'' b, word_of_int ver))))"

definition list_next ::
  "('b, 'd) mongo \<Rightarrow> 'b \<Rightarrow> (string \<times> u32) list \<Rightarrow> (string \<times> u32) list res" where
  "list_next M b l = rbind (list_entry M b) (\<lambda>(_, _, sn, ver). Inr (l @ [(sn, ver)]))"

text \<open>The second query of \<^verbatim>\<open>listDaqConfig\<close>, for one fixed document, is only printed.\<close>

definition mdb_listDaqConfig ::
  "('b, 'd) mongo \<Rightarrow> string \<Rightarrow> mdbReader \<Rightarrow> 'd \<Rightarrow> (mdbReader \<times> (string \<times> u32) list) res" where
  "mdb_listDaqConfig M coll r d =
     (let r' = mdb_connect r; s = md_db r @ ''.'' @ coll in
      rbind (cl_query M s (bs_empty M) r' d) (\<lambda>bs.
      rbind (rfold (list_next M) bs []) (\<lambda>l.
      rbind (cl_query M s (bs_by_id M ''58c8fc686dc98a2aa86832b0'') r' d) (\<lambda>_. Inr (r', l)))))"

definition mdb_listDaqParam ::
  "('b, 'd) mongo \<Rightarrow> mdbReader \<Rightarrow> 'd \<Rightarrow> (mdbReader \<times> (string \<times> u32) list) res" where
  "mdb_listDaqParam M r d =
     (let r' = mdb_connect r in
      rbind (cl_query M (md_db r @ ''.daqparam'') (bs_empty M) r' d) (\<lambda>bs.
      rbind (rfold (list_next M) bs []) (\<lambda>l. Inr (r', l))))"

section \<open>Querying and inserting\<close>

text \<open>The first configuration whose text has more than three characters.\<close>

fun first_configuration :: "('b, 'd) mongo \<Rightarrow> 'b list \<Rightarrow> string" where
  "first_configuration M [] = ''{}''"
| "first_configuration M (b # bs) =
     (let sc = bs_jsonString M ''configuration'' b in
      if length sc \<le> 3 then first_configuration M bs else sc)"

definition query_configuration ::
  "('b, 'd) mongo \<Rightarrow> string \<Rightarrow> string \<Rightarrow> u32 \<Rightarrow> mdbReader \<Rightarrow> 'd \<Rightarrow> (mdbReader \<times> string) res" where
  "query_configuration M ns name version r d =
     (let r' = mdb_connect r in
      rbind (cl_query M ns (name_and_version M name version) r' d) (\<lambda>bs.
      Inr (r', first_configuration M bs)))"

definition mdb_queryDaqConfig ::
  "('b, 'd) mongo \<Rightarrow> string \<Rightarrow> string \<Rightarrow> u32 \<Rightarrow> mdbReader \<Rightarrow> 'd \<Rightarrow> (mdbReader \<times> string) res" where
  "mdb_queryDaqConfig M coll name version r d = query_configuration M (md_db r @ ''.'' @ coll) name version r d"

definition mdb_queryDaqParam ::
  "('b, 'd) mongo \<Rightarrow> string \<Rightarrow> u32 \<Rightarrow> mdbReader \<Rightarrow> 'd \<Rightarrow> (mdbReader \<times> string) res" where
  "mdb_queryDaqParam M name version r d = query_configuration M (md_db r @ ''.daqparam'') name version r d"

text \<open>A file that cannot be read gives the empty text.\<close>

definition insert_configuration ::
  "('b, 'd) mongo \<Rightarrow> (string \<Rightarrow> string option) \<Rightarrow> string \<Rightarrow> string \<Rightarrow> u32 \<Rightarrow> string \<Rightarrow> mdbReader \<Rightarrow> 'd
     \<Rightarrow> (mdbReader \<times> 'd) res" where
  "insert_configuration M file ns name version fname r d =
     (let r' = mdb_connect r; str = (case file fname of None \<Rightarrow> [] | Some s \<Rightarrow> s) in
      rbind (mg_fromjson M str) (\<lambda>c.
      rbind (cl_insert M ns (bs_object M ''configuration'' c (name_and_version M name version)) r' d) (\<lambda>d'.
      Inr (r', d'))))"

definition mdb_insertDaqConfig ::
  "('b, 'd) mongo \<Rightarrow> (string \<Rightarrow> string option) \<Rightarrow> string \<Rightarrow> string \<Rightarrow> u32 \<Rightarrow> string \<Rightarrow> mdbReader \<Rightarrow> 'd
     \<Rightarrow> (mdbReader \<times> 'd) res" where
  "mdb_insertDaqConfig M file coll name version fname r d =
     insert_configuration M file (md_db r @ ''.'' @ coll) name version fname r d"

definition mdb_insertDaqParam ::
  "('b, 'd) mongo \<Rightarrow> (string \<Rightarrow> string option) \<Rightarrow> string \<Rightarrow> u32 \<Rightarrow> string \<Rightarrow> mdbReader \<Rightarrow> 'd
     \<Rightarrow> (mdbReader \<times> 'd) res" where
  "mdb_insertDaqParam M file name version fname r d =
     insert_configuration M file (md_db r @ ''.daqparam'') name version fname r d"

section \<open>What the code relies on\<close>

text \<open>
  A query gives the documents of the collection that have its fields; an inserted document joins
  them (the server adds its \<^verbatim>\<open>_id\<close>), somewhere among the others, and changes no other answer; a
  field appended last is the one read.
\<close>

definition entry_document :: "('b, 'd) mongo \<Rightarrow> string \<Rightarrow> u32 \<Rightarrow> 'b \<Rightarrow> 'b" where
  "entry_document M name version c = bs_object M ''configuration'' c (name_and_version M name version)"

definition insert_kept :: "('b, 'd) mongo \<Rightarrow> bool" where
  "insert_kept M \<longleftrightarrow>
     (\<forall>p ns n v c d d' p' ns' n' v'. mg_insert M p ns (entry_document M n v c) d = Inr d' \<longrightarrow>
        (p', ns', n', v') \<noteq> (p, ns, n, v) \<longrightarrow>
        mg_query M p' ns' (name_and_version M n' v') d' = mg_query M p' ns' (name_and_version M n' v') d)"

definition insert_found :: "('b, 'd) mongo \<Rightarrow> ('b \<Rightarrow> string) \<Rightarrow> bool" where
  "insert_found M render \<longleftrightarrow>
     (\<forall>p ns n v c d d' ds. mg_insert M p ns (entry_document M n v c) d = Inr d' \<longrightarrow>
        mg_query M p ns (name_and_version M n v) d = Inr ds \<longrightarrow>
        (\<exists>xs b ys. ds = xs @ ys \<and> mg_query M p ns (name_and_version M n v) d' = Inr (xs @ b # ys) \<and>
           bs_jsonString M ''configuration'' b = render c))"

definition mongo_ok :: "('b, 'd) mongo \<Rightarrow> ('b \<Rightarrow> string) \<Rightarrow> bool" where
  "mongo_ok M render \<longleftrightarrow> insert_kept M \<and> insert_found M render"

lemma mongo_other:
  assumes "mongo_ok M render" and "mg_insert M p ns (entry_document M n v c) d = Inr d'"
    and "(p', ns', n', v') \<noteq> (p, ns, n, v)"
  shows "mg_query M p' ns' (name_and_version M n' v') d' = mg_query M p' ns' (name_and_version M n' v') d"
  using assms(1) unfolding mongo_ok_def insert_kept_def using assms(2,3) by fast

lemma mongo_same:
  assumes "mongo_ok M render" and "mg_insert M p ns (entry_document M n v c) d = Inr d'"
    and "mg_query M p ns (name_and_version M n v) d = Inr ds"
  shows "\<exists>xs b ys. ds = xs @ ys \<and> mg_query M p ns (name_and_version M n v) d' = Inr (xs @ b # ys) \<and>
     bs_jsonString M ''configuration'' b = render c"
  using assms(1) unfolding mongo_ok_def insert_found_def using assms(2,3) by fast

lemma first_configuration_insert:
  "first_configuration M (xs @ b # ys) =
     (if length (bs_jsonString M ''configuration'' b) \<le> 3 then first_configuration M (xs @ ys)
      else if \<exists>x \<in> set xs. 3 < length (bs_jsonString M ''configuration'' x) then first_configuration M (xs @ ys)
      else bs_jsonString M ''configuration'' b)"
  by (induction xs) (auto simp: Let_def)

lemma first_configuration_none:
  "\<forall>b \<in> set bs. length (bs_jsonString M ''configuration'' b) \<le> 3 \<Longrightarrow> first_configuration M bs = ''{}''"
  by (induction bs) auto

section \<open>Properties\<close>

text \<open>
  C37: a configuration inserted under a name and a version that has none is the one a query of that
  name and version then returns (as the client library writes it, and only when that takes more
  than three characters: otherwise the empty object); every other collection, name and version is
  answered as before.
\<close>

theorem inserted_configuration_found:
  assumes "mongo_ok M render" and "mdb_insertDaqConfig M file coll n v fname r d = Inr (r', d')"
    and "mg_query M (md_host r, md_port r) (md_db r @ ''.'' @ coll) (name_and_version M n v) d = Inr []"
  shows "\<exists>c. mg_fromjson M (case file fname of None \<Rightarrow> [] | Some s \<Rightarrow> s) = Inr c \<and>
     mdb_queryDaqConfig M coll n v r' d' = Inr (r', if length (render c) \<le> 3 then ''{}'' else render c) \<and>
     (\<forall>coll' n' v'. (coll', n', v') \<noteq> (coll, n, v) \<longrightarrow>
        mdb_queryDaqConfig M coll' n' v' r' d' = mdb_queryDaqConfig M coll' n' v' r d)"
proof -
  let ?p = "(md_host r, md_port r)" and ?ns = "md_db r @ ''.'' @ coll"
  from assms(2) obtain c where c: "mg_fromjson M (case file fname of None \<Rightarrow> [] | Some s \<Rightarrow> s) = Inr c"
    "r' = mdb_connect r" "mg_insert M ?p ?ns (entry_document M n v c) d = Inr d'"
    by (auto simp: mdb_insertDaqConfig_def insert_configuration_def Let_def cl_insert_def mdb_connect_def
        entry_document_def)
  from mongo_same [OF assms(1) c(3) assms(3)] obtain b where
    b: "mg_query M ?p ?ns (name_and_version M n v) d' = Inr [b]" "bs_jsonString M ''configuration'' b = render c"
    by auto
  note q = mdb_queryDaqConfig_def query_configuration_def cl_query_def mdb_connect_def Let_def
  have same: "mdb_queryDaqConfig M coll n v r' d' = Inr (r', if length (render c) \<le> 3 then ''{}'' else render c)"
    using b by (simp add: q c(2))
  have "mdb_queryDaqConfig M coll' n' v' r' d' = mdb_queryDaqConfig M coll' n' v' r d"
    if "(coll', n', v') \<noteq> (coll, n, v)" for coll' n' v'
  proof -
    have "mg_query M ?p (md_db r @ ''.'' @ coll') (name_and_version M n' v') d' =
        mg_query M ?p (md_db r @ ''.'' @ coll') (name_and_version M n' v') d"
      by (rule mongo_other [OF assms(1) c(3)]) (use that in simp)
    then show ?thesis by (simp add: q c(2))
  qed
  with c(1) same show ?thesis by blast
qed

section \<open>A small server\<close>

text \<open>Documents are association lists, a server keeps them per place and collection.\<close>

datatype bson = Bs_String string | Bs_Number u32 | Bs_Text string

type_synonym document = "(string \<times> bson) list"
type_synonym servers = "((place \<times> string) \<times> document) list"

definition small_text :: "string \<Rightarrow> document \<Rightarrow> string" where
  "small_text k b = (case map_of b k of Some (Bs_Text s) \<Rightarrow> s | Some (Bs_String s) \<Rightarrow> s | _ \<Rightarrow> [])"

definition small_mongo :: "(document, servers) mongo" where
  "small_mongo =
     \<lparr>mg_query = (\<lambda>p ns q d. Inr (map snd (filter (\<lambda>(pn, b). pn = (p, ns) \<and>
         (\<forall>kv \<in> set q. map_of b (fst kv) = Some (snd kv))) d))),
      mg_insert = (\<lambda>p ns b d. Inr (d @ [((p, ns), b)])),
      bs_empty = [], bs_by_id = (\<lambda>s. [(''_id'', Bs_String s)]),
      bs_string = (\<lambda>k v b. b @ [(k, Bs_String v)]), bs_number = (\<lambda>k v b. b @ [(k, Bs_Number v)]),
      bs_object = (\<lambda>k c b. b @ [(k, Bs_Text (small_text ''text'' c))]),
      bs_oid = (\<lambda>k b. Inr ''58c8fc686dc98a2aa86832b0''), bs_toString = small_text,
      bs_Int = (\<lambda>k b. case map_of b k of Some (Bs_Number n) \<Rightarrow> Inr (sint n) | _ \<Rightarrow> Inl Thrown),
      bs_jsonString = small_text, mg_fromjson = (\<lambda>s. Inr [(''text'', Bs_Text s)])\<rparr>"

lemma small_mongo_ok: "mongo_ok small_mongo (small_text ''text'')"
proof -
  have ins: "mg_insert small_mongo p ns (entry_document small_mongo n v c) d = Inr d' \<longleftrightarrow>
      d' = d @ [((p, ns), [(''name'', Bs_String n), (''version'', Bs_Number v),
                  (''configuration'', Bs_Text (small_text ''text'' c))])]" for p ns n v c d d'
    by (auto simp: small_mongo_def entry_document_def name_and_version_def)
  have q: "mg_query small_mongo p ns (name_and_version small_mongo n v) d = Inr (map snd (filter (\<lambda>(pn, b).
      pn = (p, ns) \<and> map_of b ''name'' = Some (Bs_String n) \<and> map_of b ''version'' = Some (Bs_Number v)) d))" for p ns n v d
    by (simp add: small_mongo_def name_and_version_def)
  have js: "bs_jsonString small_mongo = small_text" by (simp add: small_mongo_def)
  have "insert_kept small_mongo" unfolding insert_kept_def ins q by auto
  moreover have "insert_found small_mongo (small_text ''text'')"
    unfolding insert_found_def ins q js
  proof (intro allI impI)
    fix p :: place and ns n :: string and v :: u32 and c :: document and d d' :: servers and ds :: "document list"
    let ?b = "[(''name'', Bs_String n), (''version'', Bs_Number v), (''configuration'', Bs_Text (small_text ''text'' c))]"
    let ?f = "\<lambda>d. map snd (filter (\<lambda>(pn, b). pn = (p, ns) \<and> map_of b ''name'' = Some (Bs_String n) \<and>
        map_of b ''version'' = Some (Bs_Number v)) d)"
    assume "d' = d @ [((p, ns), ?b)]" and "Inr (?f d) = (Inr ds :: document list res)"
    then have "ds = ds @ [] \<and> (Inr (?f d') :: document list res) = Inr (ds @ ?b # []) \<and>
        small_text ''configuration'' ?b = small_text ''text'' c"
      by (auto simp: small_text_def)
    then show "\<exists>xs b ys. ds = xs @ ys \<and> (Inr (?f d') :: document list res) = Inr (xs @ b # ys) \<and>
        small_text ''configuration'' b = small_text ''text'' c"
      by blast
  qed
  ultimately show ?thesis by (simp add: mongo_ok_def)
qed

theorem inserted_configuration_found_witness:
  "\<exists>r d. mdb_insertDaqConfig small_mongo (\<lambda>_. Some ''{A:1}'') ''C'' ''TB'' 7 ''F'' (mdbReader_new ''LYON'' ''pc'' 27017) []
       = Inr (r, d) \<and>
     mdb_queryDaqConfig small_mongo ''C'' ''TB'' 7 r d = Inr (r, ''{A:1}'')"
proof -
  let ?r = "mdbReader_new ''LYON'' ''pc'' 27017"
  obtain r d where i: "mdb_insertDaqConfig small_mongo (\<lambda>_. Some ''{A:1}'') ''C'' ''TB'' 7 ''F'' ?r [] = Inr (r, d)"
    by (simp add: mdb_insertDaqConfig_def insert_configuration_def small_mongo_def cl_insert_def mdb_connect_def Let_def)
  have "mg_query small_mongo (md_host ?r, md_port ?r) (md_db ?r @ ''.'' @ ''C'') (name_and_version small_mongo ''TB'' 7) [] = Inr []"
    by (simp add: small_mongo_def)
  from inserted_configuration_found [OF small_mongo_ok i this] i show ?thesis
    by (auto simp: small_mongo_def small_text_def)
qed

end
