(* ===== verification/Base_App.thy ===== *)
theory Base_App
  imports Fsm_Job Mdb_Reader
begin

text \<open>
  \<^verbatim>\<open>src/baseApplication.cxx\<close>: a web machine with the states VOID and CREATED whose CREATE transition
  loads a configuration (from a file, a page or a database) and finds in it the parameters of this
  process. The virtual \<^verbatim>\<open>userCreate\<close> is a parameter.
\<close>

section \<open>State\<close>

record 'j baseApplication =
  ba_hostname :: string
  ba_login :: string
  ba_processName :: string
  ba_jConfig :: 'j
  ba_jParam :: 'j
  ba_instance :: u32
  ba_port :: u32

type_synonym 'j base_transition = "'j fsmmessage \<Rightarrow> 'j baseApplication \<Rightarrow> ('j fsmmessage \<times> 'j baseApplication) res"
type_synonym 'j base_page = "('j, 'j baseApplication) page_function"

text \<open>What surrounds the application: its host, its files, the MongoDB client and what the servers hold.\<close>

record ('b, 'd) surroundings =
  sr_host :: host
  sr_file :: "string \<Rightarrow> string option"
  sr_mongo :: "('b, 'd) mongo"
  sr_servers :: 'd

section \<open>Loading the configuration\<close>

definition base_login :: "'j jsonlib \<Rightarrow> 'j \<Rightarrow> 'j baseApplication \<Rightarrow> 'j baseApplication res" where
  "base_login J jc a =
     rbind (j_isMember J ''login'' jc) (\<lambda>b.
     if b then rbind (content_string J ''login'' jc) (\<lambda>l. Inr (a\<lparr>ba_login := l\<rparr>)) else Inr a)"

definition base_file :: "'j jsonlib \<Rightarrow> ('b, 'd) surroundings \<Rightarrow> 'j \<Rightarrow> 'j baseApplication \<Rightarrow> 'j baseApplication res" where
  "base_file J S jc a =
     rbind (content_string J ''file'' jc) (\<lambda>fileName.
     Inr (a\<lparr>ba_jConfig := j_parse J (case sr_file S (c_str fileName) of None \<Rightarrow> [] | Some cs \<Rightarrow> cs)\<rparr>))"

definition base_url :: "'j jsonlib \<Rightarrow> ('b, 'd) surroundings \<Rightarrow> 'j \<Rightarrow> 'j baseApplication \<Rightarrow> 'j baseApplication res" where
  "base_url J S jc a =
     rbind (content_string J ''url'' jc) (\<lambda>url.
     (let jcc = j_parse J (curlQuery (hn_net (sr_host S)) url (ba_login a)) in
      rbind (j_isMember J ''content'' jcc) (\<lambda>b.
      rbind (if b then j_get J ''content'' jcc else Inr jcc) (\<lambda>c. Inr (a\<lparr>ba_jConfig := c\<rparr>)))))"

definition base_mongo :: "'j jsonlib \<Rightarrow> ('b, 'd) surroundings \<Rightarrow> 'j \<Rightarrow> 'j baseApplication \<Rightarrow> 'j baseApplication res" where
  "base_mongo J S jc a =
     rbind (j_get J ''mongo'' jc) (\<lambda>dbp.
     rbind (content_string J ''dbname'' dbp) (\<lambda>db. rbind (content_string J ''host'' dbp) (\<lambda>h.
     rbind (content_int J ''port'' dbp) (\<lambda>p.
     rbind (content_string J ''collection'' dbp) (\<lambda>col. rbind (content_string J ''name'' dbp) (\<lambda>n.
     rbind (content_int J ''version'' dbp) (\<lambda>v.
     rbind (mdb_queryDaqConfig (sr_mongo S) col n (word_of_int v) (mdbReader_new db h (word_of_int p)) (sr_servers S))
       (\<lambda>(_, jsconf). Inr (a\<lparr>ba_jConfig := j_parse J jsconf\<rparr>)))))))))"

definition base_load :: "'j jsonlib \<Rightarrow> ('b, 'd) surroundings \<Rightarrow> 'j \<Rightarrow> 'j baseApplication \<Rightarrow> 'j baseApplication res" where
  "base_load J S jc a0 =
     rbind (base_login J jc a0) (\<lambda>a.
     rbind (j_isMember J ''file'' jc) (\<lambda>isfile.
     if isfile then base_file J S jc a
     else
       rbind (j_isMember J ''url'' jc) (\<lambda>isurl.
       if isurl then base_url J S jc a
       else
         rbind (j_isMember J ''mongo'' jc) (\<lambda>ismongo.
         if ismongo then base_mongo J S jc a else Inr a))))"

section \<open>The parameters of this process\<close>

text \<open>
  The value of an environment text with a given name: the name is compared, the separator is
  passed over unseen; a text that ends with the name makes \<^verbatim>\<open>substr\<close> throw.
\<close>

definition env_value :: "string \<Rightarrow> string \<Rightarrow> u32 option res" where
  "env_value key envp =
     (if take (length key) envp = key then
        (if length envp < length key + 1 then Inl Thrown else Inr (Some (atol32 (drop (length key + 1) envp))))
      else Inr None)"

definition env_step :: "'j jsonlib \<Rightarrow> 'j \<Rightarrow> u32 \<times> u32 \<Rightarrow> (u32 \<times> u32) res" where
  "env_step J e pi =
     rbind (j_asString J e) (\<lambda>envp.
     rbind (env_value ''WEBPORT'' envp) (\<lambda>p.
     rbind (env_value ''INSTANCE'' envp) (\<lambda>i.
     Inr (case p of None \<Rightarrow> fst pi | Some p \<Rightarrow> p, case i of None \<Rightarrow> snd pi | Some i \<Rightarrow> i))))"

definition port_instance :: "'j jsonlib \<Rightarrow> 'j \<Rightarrow> (u32 \<times> u32) res" where
  "port_instance J b =
     rbind (j_isMember J ''ENV'' b) (\<lambda>has.
     if has then rbind (j_get J ''ENV'' b) (\<lambda>jenv. rfold (env_step J) (j_elems J jenv) (0, 0))
     else Inr (0, 0))"

text \<open>Whether an entry of the list is the one of this process.\<close>

definition is_mine :: "'j jsonlib \<Rightarrow> 'j baseApplication \<Rightarrow> 'j \<Rightarrow> bool res" where
  "is_mine J a b =
     rbind (j_isMember J ''NAME'' b) (\<lambda>named.
     if \<not> named then Inr False
     else
       rbind (content_string J ''NAME'' b) (\<lambda>n.
       if n \<noteq> ba_processName a then Inr False
       else rbind (port_instance J b) (\<lambda>(p, i). Inr (p = ba_port a \<and> i = ba_instance a))))"

fun find_parameters :: "'j jsonlib \<Rightarrow> 'j list \<Rightarrow> 'j baseApplication \<Rightarrow> 'j baseApplication res" where
  "find_parameters J [] a = Inr a"
| "find_parameters J (b # bs) a =
     rbind (is_mine J a b) (\<lambda>mine.
     if \<not> mine then find_parameters J bs a
     else
       rbind (j_isMember J ''PARAMETER'' b) (\<lambda>has.
       if has then rbind (j_get J ''PARAMETER'' b) (\<lambda>p. Inr (a\<lparr>ba_jParam := p\<rparr>))
       else find_parameters J bs a))"

definition base_error :: "'j jsonlib \<Rightarrow> string \<Rightarrow> 'j res" where
  "base_error J s = j_set J ''error'' (j_str J s) (j_null J)"

definition base_create :: "'j jsonlib \<Rightarrow> ('b, 'd) surroundings \<Rightarrow> 'j base_transition \<Rightarrow> 'j base_transition" where
  "base_create J S userCreate m a0 =
     rbind (msg_content J m) (\<lambda>jc.
     rbind (base_load J S jc a0) (\<lambda>a.
     if j_isNull J (ba_jConfig a) then
       rbind (base_error J ''Missing configuration'') (\<lambda>rep. rbind (msg_setAnswer J rep m) (\<lambda>m'. Inr (m', a)))
     else
       rbind (j_isMember J ''HOSTS'' (ba_jConfig a)) (\<lambda>hosts.
       if \<not> hosts then
         rbind (base_error J ''Missing HOSTS tag'') (\<lambda>rep. rbind (msg_setAnswer J rep m) (\<lambda>m'. Inr (m', a)))
       else
         rbind (j_get J ''HOSTS'' (ba_jConfig a)) (\<lambda>hs.
         rbind (j_isMember J (ba_hostname a) hs) (\<lambda>here.
         if \<not> here then
           rbind (base_error J ''Missing hostname in list'') (\<lambda>rep0.
           rbind (j_set J ''config'' (ba_jConfig a) rep0) (\<lambda>rep.
           rbind (msg_setAnswer J rep m) (\<lambda>m'. Inr (m', a))))
         else
           rbind (j_get J (ba_hostname a) hs) (\<lambda>jconf.
           rbind (find_parameters J (j_elems J jconf) a) (\<lambda>a1.
           rbind (j_set J ''param'' (ba_jParam a1) (j_null J)) (\<lambda>rep0.
           rbind (j_set J ''config'' (ba_jConfig a1) rep0) (\<lambda>rep.
           rbind (msg_setAnswer J rep m) (\<lambda>m'. userCreate m' a1))))))))))"

section \<open>Page commands\<close>

definition base_getconfiguration :: "'j jsonlib \<Rightarrow> 'j base_page" where
  "base_getconfiguration J rq st rsp a =
     (if j_isNull J (ba_jConfig a) then rbind (say J ''NO Configuration yet'' rsp) (\<lambda>r. Inr (r, a))
      else
        rbind (say J ''DONE'' rsp) (\<lambda>r1. rbind (response_set J ''configuration'' (ba_jConfig a) r1) (\<lambda>r2. Inr (r2, a))))"

definition base_getparameter :: "'j jsonlib \<Rightarrow> 'j base_page" where
  "base_getparameter J rq st rsp a =
     (if j_isNull J (ba_jParam a) then rbind (say J ''No Parameters yet'' rsp) (\<lambda>r. Inr (r, a))
      else
        rbind (say J ''DONE'' rsp) (\<lambda>r1. rbind (response_set J ''PARAMETER'' (ba_jParam a) r1) (\<lambda>r2. Inr (r2, a))))"

definition base_setparameter :: "'j jsonlib \<Rightarrow> 'j base_page" where
  "base_setparameter J rq st rsp a =
     (let str = request_get ''PARAMETER'' ''NONE'' rq in
      if str = ''NONE'' then rbind (say J ''No PARAMETER tag found'' rsp) (\<lambda>r. Inr (r, a))
      else if j_parses J str then
        rbind (say J ''DONE'' rsp) (\<lambda>r1.
        rbind (response_set J ''PARAMETER'' (j_parse J str) r1) (\<lambda>r2. Inr (r2, a\<lparr>ba_jParam := j_parse J str\<rparr>)))
      else rbind (say J ''Invalid parsing of PARAMETER'' rsp) (\<lambda>r. Inr (r, a)))"

section \<open>The application\<close>

definition base_table :: "'j jsonlib \<Rightarrow> ('b, 'd) surroundings \<Rightarrow> 'j base_transition \<Rightarrow> string \<Rightarrow> ('j, 'j baseApplication) fsmweb" where
  "base_table J S userCreate name =
     (let f1 = addState ''CREATED'' (addState ''VOID'' (fsmweb_new name));
          f2 = addTransition ''CREATE''
                 \<lparr>tr_istate = ''VOID'', tr_fstate = ''CREATED'', tr_callback = base_create J S userCreate\<rparr> f1;
          f3 = addCommand ''SETPARAM'' (base_setparameter J) (addCommand ''GETPARAM'' (base_getparameter J)
                 (addCommand ''GETCONFIG'' (base_getconfiguration J) f2)) in
      setState ''VOID'' f3)"

definition base_env_number :: "string option \<Rightarrow> u32" where
  "base_env_number v = (case v of None \<Rightarrow> 0 | Some s \<Rightarrow> atol32 s)"

definition base_new ::
  "'j jsonlib \<Rightarrow> ('b, 'd) surroundings \<Rightarrow> 'j base_transition \<Rightarrow> string \<Rightarrow> (string \<Rightarrow> string option)
     \<Rightarrow> ('j, 'j baseApplication) fsmweb \<times> 'j baseApplication" where
  "base_new J S userCreate name env =
     (base_table J S userCreate name,
      \<lparr>ba_hostname = hn_name (sr_host S),
       ba_login = (case env ''WEBLOGIN'' of None \<Rightarrow> [] | Some l \<Rightarrow> l),
       ba_processName = (case env ''PROCESSNAME'' of None \<Rightarrow> ''UNKNOWN'' | Some n \<Rightarrow> n),
       ba_jConfig = j_null J, ba_jParam = j_null J,
       ba_instance = base_env_number (env ''INSTANCE''), ba_port = base_env_number (env ''WEBPORT'')\<rparr>)"

definition base_userCreate :: "'j base_transition" where
  "base_userCreate m a = Inr (m, a)"

section \<open>Which entry counts\<close>

text \<open>
  The entry the search is to find: the first that has this process's name, its port and instance
  among its environment, and parameters.
\<close>

definition entry_readable :: "'j jsonlib \<Rightarrow> 'j baseApplication \<Rightarrow> 'j \<Rightarrow> bool" where
  "entry_readable J a b \<longleftrightarrow> (\<exists>x. is_mine J a b = Inr x) \<and> j_object J b"

definition my_entry :: "'j jsonlib \<Rightarrow> 'j baseApplication \<Rightarrow> 'j \<Rightarrow> bool" where
  "my_entry J a b \<longleftrightarrow> is_mine J a b = Inr True \<and> j_isMember J ''PARAMETER'' b = Inr True"

lemma find_parameters_result:
  assumes "json_ok J" and "\<forall>b \<in> set bs. entry_readable J a b"
  shows "find_parameters J bs a =
     (case find (my_entry J a) bs of
        None \<Rightarrow> Inr a
      | Some b \<Rightarrow> rbind (j_get J ''PARAMETER'' b) (\<lambda>p. Inr (a\<lparr>ba_jParam := p\<rparr>)))"
  using assms(2)
proof (induction bs)
  case Nil
  then show ?case by simp
next
  case (Cons b bs)
  then obtain x where x: "is_mine J a b = Inr x" and obj: "j_object J b" by (auto simp: entry_readable_def)
  from json_member(4) [OF assms(1) obj] obtain h where h: "j_isMember J ''PARAMETER'' b = Inr h" by blast
  from Cons x h show ?case by (cases x; cases h) (simp_all add: my_entry_def)
qed

section \<open>Properties\<close>


text \<open>
  C36: an application starts in VOID while the state it has published is CREATED: \<^verbatim>\<open>setState\<close> does not
  publish. Its only transition is CREATE, from VOID, and it leads to CREATED even when there is
  no configuration: then the reply is DONE with an error in the answer.
\<close>

theorem create_without_configuration:
  assumes "json_ok J" and "says J m ''CREATE'' ct" and "j_object J ct"
    and "base_load J S ct a0 = Inr a" and "ba_jConfig a = j_null J"
  shows "f_state (base_table J S u n) = ''VOID'' \<and> f_published (base_table J S u n) = [''CREATED''] \<and>
     (\<exists>f' m' ct' rep. fsm_processCommand J m (base_table J S u n) a0 = Inr (''CREATED'', m', f', a) \<and>
        f_state f' = ''CREATED'' \<and> replies J m' ''CREATE'' ''DONE'' ct' \<and> answered J ct rep ct' \<and>
        j_get J ''error'' rep = Inr (j_str J ''Missing configuration''))"
proof -
  let ?f = "base_table J S u n"
  obtain rep where rep: "base_error J ''Missing configuration'' = Inr rep"
    "j_get J ''error'' rep = Inr (j_str J ''Missing configuration'')"
    unfolding base_error_def by (rule json_set [OF assms(1) json_null(1) [OF assms(1)]]) blast
  obtain m1 ct' where m1: "msg_setAnswer J rep m = Inr m1" "says J m1 ''CREATE'' ct'" "answered J ct rep ct'"
    using setAnswer_says [OF assms(1,2), of rep] assms(3) by auto
  have cb: "base_create J S u m a0 = Inr (m1, a)"
    using says_content [OF assms(2)] assms(4,5) rep(1) m1(1) json_null(5) [OF assms(1)]
    by (simp add: base_create_def)
  have st: "f_state ?f = ''VOID''" "f_published ?f = [''CREATED'']"
    "transition ?f ''CREATE'' ''VOID'' =
      Some \<lparr>tr_istate = ''VOID'', tr_fstate = ''CREATED'', tr_callback = base_create J S u\<rparr>"
    by (simp_all add: base_table_def Let_def setState_def addCommand_def addTransition_def addState_def transition_def
        fsmweb_new_def fsm_new_def fsm.defs c_str_def)
  obtain m2 where "fsm_done J m1 = Inr m2" "replies J m2 ''CREATE'' ''DONE'' ct'"
    using fsm_done_replies [OF assms(1) m1(2)] by blast
  with processCommand_transition [OF says_command [OF assms(2)], of ?f a0] st cb m1(3) rep(2)
  show ?thesis by (auto simp: publishState_def)
qed

section \<open>Witnesses\<close>

definition demo_surroundings :: "(document, servers) surroundings" where
  "demo_surroundings =
     \<lparr>sr_host = \<lparr>hn_name = ''lyon'', hn_resolve = (\<lambda>_. None), hn_net = (\<lambda>_ _. [])\<rparr>,
      sr_file = (\<lambda>_. None), sr_mongo = small_mongo, sr_servers = []\<rparr>"

definition demo_application :: "string \<Rightarrow> string baseApplication" where
  "demo_application conf =
     \<lparr>ba_hostname = ''lyon'', ba_login = [], ba_processName = ''W1'', ba_jConfig = conf, ba_jParam = ''N'',
      ba_instance = 0, ba_port = 0\<rparr>"

definition demo_entry :: string where
  "demo_entry = object [(''NAME'', ''SW1''), (''PARAMETER'', ''SP'')]"

definition demo_configuration :: string where
  "demo_configuration = object [(''HOSTS'', object [(''lyon'', CHR ''A'' # put_texts [demo_entry])])]"

lemma demo_load: "base_load text_json demo_surroundings ''N'' (demo_application conf) = Inr (demo_application conf)"
  by (simp add: base_load_def base_login_def text_members)


theorem create_without_configuration_witness:
  "\<exists>f' m'. fsm_processCommand text_json (demo_msg ''CREATE'') (base_table text_json demo_surroundings base_userCreate ''APP'')
     (demo_application ''N'') = Inr (''CREATED'', m', f', demo_application ''N'')"
proof -
  have "ba_jConfig (demo_application ''N'') = j_null text_json" by (simp add: demo_application_def text_json_def)
  from create_without_configuration [OF text_json_ok demo_says demo_content demo_load this] show ?thesis by blast
qed

end
