(* ===== verification/Ex_Builder.thy ===== *)
theory Ex_Builder
  imports Daq Machine
begin

text \<open>
  \<^verbatim>\<open>example/src/exBuilder.cxx\<close>: a process that puts the components together. A web machine creates
  the driver, the writer and the data sockets and starts and stops runs. The driver and the
  writer are behind pointers that the constructor leaves uninitialised; the writer lives in the
  heap of the processors. DIM and the console are left out.
\<close>

section \<open>State\<close>

datatype 'a pointer = Wild | Null | To 'a

definition follow :: "'a pointer \<Rightarrow> 'a res" where
  "follow p = (case p of To a \<Rightarrow> Inr a | _ \<Rightarrow> Inl Bad_Pointer)"

lemma follow_simps [simp]: "follow (To a) = Inr a" "follow Null = Inl Bad_Pointer" "follow Wild = Inl Bad_Pointer"
  by (simp_all add: follow_def)

record exBuilder =
  xb_sources :: "datasocket list"
  xb_evb :: "shmdriver pointer"
  xb_writer :: "nat pointer"
  xb_memdir :: string
  xb_env :: "processor env"

type_synonym 'j xb_transition = "('j, exBuilder) callback"
type_synonym 'j xb_page = "('j, exBuilder) page_function"

section \<open>Transitions\<close>

text \<open>The transitions print the command they received, so the message must have one.\<close>

definition xb_configure :: "'j jsonlib \<Rightarrow> 'j xb_transition" where
  "xb_configure J m x =
     rbind (msg_command J m) (\<lambda>_.
     rbind (msg_content J m) (\<lambda>jc.
     rbind (content_string J ''memdir'' jc) (\<lambda>memdir.
     (let D = shmdriver_new memdir True;
          env1 = (xb_env x)\<lparr>e_world := create_directories memdir (e_world (xb_env x))\<rparr> in
      rbind (cleanShm D env1) (\<lambda>env2.
      rbind (content_string J ''datadir'' jc) (\<lambda>datadir.
      (let writer = length (e_objs env2);
           env3 = env2\<lparr>e_objs := e_objs env2 @ [Some (Basic_Writer (basicwriter_new datadir))]\<rparr> in
       Inr (m, x\<lparr>xb_sources := [], xb_evb := To (registerProcessor writer D), xb_writer := To writer,
                 xb_memdir := memdir, xb_env := env3\<rparr>))))))))"

text \<open>One turn of the loop over the source numbers.\<close>

definition add_source ::
  "'j jsonlib \<Rightarrow> (nat \<Rightarrow> byte) \<Rightarrow> int \<Rightarrow> 'j \<Rightarrow> exBuilder \<Rightarrow> exBuilder res" where
  "add_source J junk det book x =
     rbind (j_asInt J book) (\<lambda>sid.
     rbind (datasocket_new (word_of_int det) (word_of_int sid) 0x20000 junk) (\<lambda>ds.
     rbind (follow (xb_evb x)) (\<lambda>D.
     Inr (x\<lparr>xb_sources := xb_sources x @ [save2disk (xb_memdir x) ds],
            xb_evb := To (registerDataSource (word_of_int det) (word_of_int sid) D)\<rparr>))))"

definition nsources_answer :: "'j jsonlib \<Rightarrow> exBuilder \<Rightarrow> 'j res" where
  "nsources_answer J x =
     j_set J ''nsources'' (j_int J (uint (word_of_nat (length (xb_sources x)) :: u32))) (j_null J)"

definition xb_addsources :: "'j jsonlib \<Rightarrow> (nat \<Rightarrow> byte) \<Rightarrow> 'j xb_transition" where
  "xb_addsources J junk m x =
     rbind (msg_command J m) (\<lambda>_.
     rbind (msg_content J m) (\<lambda>jc.
     rbind (content_int J ''detid'' jc) (\<lambda>det.
     rbind (j_get J ''sourceid'' jc) (\<lambda>books.
     rbind (rfold (add_source J junk det) (j_elems J books) x) (\<lambda>x'.
     rbind (nsources_answer J x') (\<lambda>js.
     rbind (msg_setAnswer J js m) (\<lambda>m'. Inr (m', x'))))))))"

definition xb_registerDone :: "'j jsonlib \<Rightarrow> 'j xb_transition" where
  "xb_registerDone J m x =
     rbind (msg_command J m) (\<lambda>_.
     rbind (nsources_answer J x) (\<lambda>js.
     rbind (msg_setAnswer J js m) (\<lambda>m'. Inr (m', x))))"

definition xb_start :: "'j jsonlib \<Rightarrow> processor shmprocessor \<Rightarrow> 'j xb_transition" where
  "xb_start J P m x =
     rbind (msg_command J m) (\<lambda>_.
     rbind (msg_content J m) (\<lambda>jc.
     rbind (content_int J ''run'' jc) (\<lambda>run.
     rbind (follow (xb_evb x)) (\<lambda>D.
     rbind (shm_start P (word_of_int run) D (xb_env x)) (\<lambda>(D', env').
     Inr (m, x\<lparr>xb_evb := To D', xb_env := env'\<rparr>))))))"

definition xb_stop :: "'j jsonlib \<Rightarrow> processor shmprocessor \<Rightarrow> 'j xb_transition" where
  "xb_stop J P m x =
     rbind (msg_command J m) (\<lambda>_.
     rbind (follow (xb_evb x)) (\<lambda>D.
     rbind (shm_stop P D (xb_env x)) (\<lambda>(D', env').
     Inr (m, x\<lparr>xb_evb := To D', xb_env := env'\<rparr>))))"

definition xb_halt :: "'j jsonlib \<Rightarrow> processor shmprocessor \<Rightarrow> 'j xb_transition" where
  "xb_halt J P m x =
     rbind (msg_command J m) (\<lambda>_.
     rbind (xb_stop J P m x) (\<lambda>(m', x'). Inr (m', x'\<lparr>xb_sources := []\<rparr>)))"

text \<open>Deleting a null pointer does nothing, deleting a wild one is undefined.\<close>

definition xb_destroy :: "'j xb_transition" where
  "xb_destroy m x =
     (case (xb_writer x, xb_evb x) of
        (Wild, _) \<Rightarrow> Inl Bad_Pointer
      | (_, Wild) \<Rightarrow> Inl Bad_Pointer
      | (Null, _) \<Rightarrow> Inr (m, x\<lparr>xb_writer := Null, xb_evb := Null\<rparr>)
      | (To i, _) \<Rightarrow>
          Inr (m, x\<lparr>xb_writer := Null, xb_evb := Null,
                    xb_env := (xb_env x)\<lparr>e_objs := (e_objs (xb_env x))[i := None]\<rparr>\<rparr>))"

section \<open>The page command and the machine\<close>

definition xb_list :: "'j jsonlib \<Rightarrow> 'j xb_page" where
  "xb_list J rq st rsp x =
     rbind (follow (xb_evb x)) (\<lambda>D.
     rbind (j_set J ''run'' (j_int J (uint (d_run D))) (j_null J)) (\<lambda>js1.
     rbind (j_set J ''event'' (j_int J (uint (d_evt D))) js1) (\<lambda>js.
     rbind (response_set J ''answer'' js rsp) (\<lambda>r. Inr (r, x)))))"

definition xb_table ::
  "'j jsonlib \<Rightarrow> (nat \<Rightarrow> byte) \<Rightarrow> processor shmprocessor \<Rightarrow> ('j, exBuilder) fsmweb \<Rightarrow> ('j, exBuilder) fsmweb" where
  "xb_table J junk P f0 =
     (let f1 = foldl (\<lambda>f s. addState s f) f0 [''CREATED'', ''CONFIGURED'', ''REGISTERED'', ''RUNNING''];
          f2 = addTransition ''CONFIGURE''
                 \<lparr>tr_istate = ''CREATED'', tr_fstate = ''CONFIGURED'', tr_callback = xb_configure J\<rparr> f1;
          f3 = addTransition ''ADDSOURCES''
                 \<lparr>tr_istate = ''CONFIGURED'', tr_fstate = ''CONFIGURED'', tr_callback = xb_addsources J junk\<rparr> f2;
          f4 = addTransition ''REGISTER''
                 \<lparr>tr_istate = ''CONFIGURED'', tr_fstate = ''REGISTERED'', tr_callback = xb_registerDone J\<rparr> f3;
          f5 = addTransition ''START''
                 \<lparr>tr_istate = ''REGISTERED'', tr_fstate = ''RUNNING'', tr_callback = xb_start J P\<rparr> f4;
          f6 = addTransition ''STOP''
                 \<lparr>tr_istate = ''RUNNING'', tr_fstate = ''REGISTERED'', tr_callback = xb_stop J P\<rparr> f5;
          f7 = addTransition ''HALT''
                 \<lparr>tr_istate = ''RUNNING'', tr_fstate = ''CONFIGURED'', tr_callback = xb_halt J P\<rparr> f6;
          f8 = addTransition ''DESTROY''
                 \<lparr>tr_istate = ''CONFIGURED'', tr_fstate = ''CREATED'', tr_callback = xb_destroy\<rparr> f7 in
      addCommand ''LIST'' (xb_list J) f8)"

definition exBuilder_new ::
  "'j jsonlib \<Rightarrow> (nat \<Rightarrow> byte) \<Rightarrow> processor shmprocessor \<Rightarrow> string \<Rightarrow> string \<Rightarrow> u32 \<Rightarrow> processor env
     \<Rightarrow> ('j, exBuilder) fsmweb \<times> exBuilder" where
  "exBuilder_new J junk P hostname name port env =
     (fsmweb_start hostname port (xb_table J junk P (fsmweb_new name)),
      \<lparr>xb_sources = [], xb_evb = Wild, xb_writer = Wild, xb_memdir = ''/dev/shm/levbdim'', xb_env = env\<rparr>)"

end
