(* ===== verification/Ex_Builder_Spec.thy ===== *)
theory Ex_Builder_Spec
  imports Ex_Builder
begin

text \<open>
  What the example builder does: a configured and started builder is a DAQ process in the sense
  of \<^verbatim>\<open>Daq\<close>, so only whole events reach its writer; its pointers are valid exactly outside the
  state CREATED; and what HALT leaves behind.
\<close>

section \<open>The machine\<close>

lemma xb_transition_table:
  fixes f :: "('j, exBuilder) fsmweb"
  assumes "f = xb_table J junk P (fsmweb_new n)"
  shows "transition f ''CONFIGURE'' ''CREATED'' =
      Some \<lparr>tr_istate = ''CREATED'', tr_fstate = ''CONFIGURED'', tr_callback = xb_configure J\<rparr>"
    and "transition f ''ADDSOURCES'' ''CONFIGURED'' =
      Some \<lparr>tr_istate = ''CONFIGURED'', tr_fstate = ''CONFIGURED'', tr_callback = xb_addsources J junk\<rparr>"
    and "transition f ''REGISTER'' ''CONFIGURED'' =
      Some \<lparr>tr_istate = ''CONFIGURED'', tr_fstate = ''REGISTERED'', tr_callback = xb_registerDone J\<rparr>"
    and "transition f ''START'' ''REGISTERED'' =
      Some \<lparr>tr_istate = ''REGISTERED'', tr_fstate = ''RUNNING'', tr_callback = xb_start J P\<rparr>"
    and "transition f ''HALT'' ''RUNNING'' =
      Some \<lparr>tr_istate = ''RUNNING'', tr_fstate = ''CONFIGURED'', tr_callback = xb_halt J P\<rparr>"
    and "f_state f = ''CREATED''"
  unfolding assms xb_table_def Let_def foldl.simps
  by (simp_all add: table_lookup)


section \<open>The transitions succeed\<close>

lemma create_directories_frame [simp]:
  "w_fds (create_directories d w) = w_fds w" "w_date (create_directories d w) = w_date w"
  "w_wmax (create_directories d w) = w_wmax w"
  by (simp_all add: create_directories_def sys_mkdir_def Let_def put_node_def)

lemma configure_ok:
  assumes "says J m c ct" and "content_string J ''memdir'' ct = Inr memdir" and "content_string J ''datadir'' ct = Inr datadir"
    and "spool_ok memdir (create_directories memdir (e_world (xb_env x)))"
  obtains w' where
    "xb_configure J m x = Inr (m, x\<lparr>xb_sources := [],
        xb_evb := To (registerProcessor (length (e_objs (xb_env x))) (shmdriver_new memdir True)),
        xb_writer := To (length (e_objs (xb_env x))), xb_memdir := memdir,
        xb_env := (xb_env x)\<lparr>e_objs := e_objs (xb_env x) @ [Some (Basic_Writer (basicwriter_new datadir))],
                              e_world := w'\<rparr>\<rparr>)"
    "spool_ok memdir w'" "spool_frame memdir (create_directories memdir (e_world (xb_env x))) w'"
    "spool_kept memdir (create_directories memdir (e_world (xb_env x))) w'" "spool_view memdir w' = Map.empty"
    "\<forall>q. content w' q = [] \<or> content w' q = content (create_directories memdir (e_world (xb_env x))) q"
proof -
  from purgeShm_view [OF assms(4)] obtain w' where
    w': "purgeShm memdir (create_directories memdir (e_world (xb_env x))) = Inr w'" "spool_ok memdir w'"
    "spool_frame memdir (create_directories memdir (e_world (xb_env x))) w'"
    "spool_kept memdir (create_directories memdir (e_world (xb_env x))) w'" "spool_view memdir w' = Map.empty"
    by blast
  have "d_memdir (shmdriver_new memdir True) = memdir" by (simp add: shmdriver_new_def)
  with w' assms(1-3) show thesis
    by (intro that [OF _ w'(2-5)] allI purgeShm_content [OF assms(4) w'(1)])
      (simp add: xb_configure_def says_command says_content cleanShm_def Let_def)
qed

definition more_sources :: "u32 list \<Rightarrow> shmdriver \<Rightarrow> shmdriver" where
  "more_sources ks D = D\<lparr>d_datasources := d_datasources D @ ks\<rparr>"

text \<open>What every socket of the builder is: set to the directory, with a buffer of 128 kB.\<close>

definition builder_socket :: "string \<Rightarrow> datasocket \<Rightarrow> bool" where
  "builder_socket memdir sk \<longleftrightarrow> sk_memdir sk = memdir \<and> length (b_mem (sk_buffer sk)) = 0x20000"

lemma new_socket:
  "\<exists>ds. datasocket_new det sid 0x20000 junk = Inr ds \<and> builder_socket memdir (save2disk memdir ds) \<and>
     sk_info (save2disk memdir ds) = ds_service_name det sid"
proof -
  have "20 \<le> unat (0x20000 :: u32)" by simp
  from socket_of_service_name [OF this, of det sid junk] obtain sk where
    sk: "datasocket_of_name (ds_service_name det sid) 0x20000 junk = Inr sk" by blast
  then obtain ds where ds: "datasocket_new det sid 0x20000 junk = Inr ds" by (auto simp: socket_of_name)
  then have "length (b_mem (sk_buffer ds)) = 0x20000" "sk_info ds = ds_service_name det sid"
    by (auto simp: datasocket_new_def setter_defs store_field_Inr buffer_new_def)
  with ds show ?thesis by (simp add: builder_socket_def save2disk_def)
qed

lemma add_sources:
  assumes "map (j_asInt J) books = map Inr sids" and "xb_evb x = To D"
  shows "\<exists>socks. rfold (add_source J junk det) books x = Inr (x\<lparr>xb_sources := xb_sources x @ socks,
       xb_evb := To (more_sources (map (\<lambda>s. dskey (word_of_int det) (word_of_int s)) sids) D)\<rparr>) \<and>
     length socks = length sids \<and> (\<forall>sk \<in> set socks. builder_socket (xb_memdir x) sk) \<and>
     map sk_info socks = map (\<lambda>s. ds_service_name (word_of_int det) (word_of_int s)) sids"
  using assms
proof (induction books arbitrary: sids x D)
  case Nil
  then show ?case by (simp add: more_sources_def)
next
  case (Cons b books)
  then obtain s sids' where s: "sids = s # sids'" "j_asInt J b = Inr s" "map (j_asInt J) books = map Inr sids'"
    by (cases sids) auto
  obtain ds where ds: "datasocket_new (word_of_int det) (word_of_int s) 0x20000 junk = Inr ds"
    "builder_socket (xb_memdir x) (save2disk (xb_memdir x) ds)"
    "sk_info (save2disk (xb_memdir x) ds) = ds_service_name (word_of_int det) (word_of_int s)" using new_socket by blast
  let ?x = "x\<lparr>xb_sources := xb_sources x @ [save2disk (xb_memdir x) ds],
      xb_evb := To (registerDataSource (word_of_int det) (word_of_int s) D)\<rparr>"
  have "add_source J junk det b x = Inr ?x" using s(2) ds(1) Cons.prems(2) by (simp add: add_source_def)
  moreover have "xb_evb ?x = To (registerDataSource (word_of_int det) (word_of_int s) D)" by simp
  from Cons.IH [OF s(3) this] obtain socks where
    k: "rfold (add_source J junk det) books ?x = Inr (?x\<lparr>xb_sources := xb_sources ?x @ socks,
       xb_evb := To (more_sources (map (\<lambda>s. dskey (word_of_int det) (word_of_int s)) sids')
         (registerDataSource (word_of_int det) (word_of_int s) D))\<rparr>)"
    "length socks = length sids'" "\<forall>sk \<in> set socks. builder_socket (xb_memdir ?x) sk"
    "map sk_info socks = map (\<lambda>s. ds_service_name (word_of_int det) (word_of_int s)) sids'" by blast
  ultimately show ?case using s(1) ds(2,3)
    by (intro exI [of _ "save2disk (xb_memdir x) ds # socks"]) (simp add: more_sources_def registerDataSource_def)
qed

lemma nsources_returns: "json_ok J \<Longrightarrow> \<exists>js. nsources_answer J x = Inr js"
  unfolding nsources_answer_def by (rule json_set [OF _ json_null(1)]) auto

lemma addsources_ok:
  assumes "json_ok J" and "says J m c ct" and "j_object J ct" and "content_int J ''detid'' ct = Inr det"
    and "j_get J ''sourceid'' ct = Inr books" and "map (j_asInt J) (j_elems J books) = map Inr sids"
    and "xb_evb x = To D"
  shows "\<exists>m' ct' socks. xb_addsources J junk m x = Inr (m', x\<lparr>xb_sources := xb_sources x @ socks,
       xb_evb := To (more_sources (map (\<lambda>s. dskey (word_of_int det) (word_of_int s)) sids) D)\<rparr>) \<and>
     says J m' c ct' \<and> length socks = length sids \<and> (\<forall>sk \<in> set socks. builder_socket (xb_memdir x) sk) \<and>
     map sk_info socks = map (\<lambda>s. ds_service_name (word_of_int det) (word_of_int s)) sids"
proof -
  from add_sources [OF assms(6,7)] obtain socks where
    s: "rfold (add_source J junk det) (j_elems J books) x = Inr (x\<lparr>xb_sources := xb_sources x @ socks,
       xb_evb := To (more_sources (map (\<lambda>s. dskey (word_of_int det) (word_of_int s)) sids) D)\<rparr>)"
    "length socks = length sids" "\<forall>sk \<in> set socks. builder_socket (xb_memdir x) sk"
    "map sk_info socks = map (\<lambda>s. ds_service_name (word_of_int det) (word_of_int s)) sids" by blast
  let ?x = "x\<lparr>xb_sources := xb_sources x @ socks,
       xb_evb := To (more_sources (map (\<lambda>s. dskey (word_of_int det) (word_of_int s)) sids) D)\<rparr>"
  obtain js where js: "nsources_answer J ?x = Inr js" using nsources_returns [OF assms(1)] by blast
  obtain m' ct' where "msg_setAnswer J js m = Inr m'" "says J m' c ct'"
    using setAnswer_says [OF assms(1,2), of js] assms(3) by auto
  with s js assms(2,4,5) show ?thesis by (simp add: xb_addsources_def says_command says_content) blast
qed

lemma registerDone_ok:
  assumes "json_ok J" and "says J m c ct" and "j_object J ct"
  shows "\<exists>m' ct'. xb_registerDone J m x = Inr (m', x) \<and> says J m' c ct'"
proof -
  obtain js where js: "nsources_answer J x = Inr js" using nsources_returns [OF assms(1)] by blast
  obtain m' ct' where "msg_setAnswer J js m = Inr m'" "says J m' c ct'"
    using setAnswer_says [OF assms(1,2), of js] assms(3) by auto
  with js assms(2) show ?thesis by (auto simp: xb_registerDone_def says_command)
qed

lemma xb_start_ok:
  assumes "says J m c ct" and "content_int J ''run'' ct = Inr run" and "xb_evb x = To D" and "d_processors D = [i]"
    and "i < length (e_objs (xb_env x))" and "e_objs (xb_env x) ! i = Some (Basic_Writer bw)"
  shows "xb_start J (processor_ops Z hjunk) m x = Inr (m, x\<lparr>
     xb_evb := To (D\<lparr>d_run := word_of_int run, d_evt := 0, d_running := True\<rparr>),
     xb_env := (xb_env x)\<lparr>e_objs := (e_objs (xb_env x))
         [i := Some (Basic_Writer (fst (bw_start (word_of_int run) bw (e_world (xb_env x)))))],
       e_world := snd (bw_start (word_of_int run) bw (e_world (xb_env x)))\<rparr>\<rparr>)"
  using assms
  by (simp add: xb_start_def says_command says_content shm_start_def call_proc_def deref_def processor_ops_def
      case_prod_beta del: bw_start_fields(4))

section \<open>A started builder is a DAQ process\<close>

definition daq_of :: "exBuilder \<Rightarrow> shmdriver \<Rightarrow> daq" where
  "daq_of x D = \<lparr>q_driver = D, q_env = xb_env x, q_socks = xb_sources x\<rparr>"

definition builder_driver :: "string \<Rightarrow> nat \<Rightarrow> u32 list \<Rightarrow> u32 \<Rightarrow> shmdriver" where
  "builder_driver memdir i ks run =
     (more_sources ks (registerProcessor i (shmdriver_new memdir True)))\<lparr>d_run := run, d_evt := 0, d_running := True\<rparr>"

lemma plain_spool_kept:
  "plain_spool dir w \<Longrightarrow> spool_ok dir w' \<Longrightarrow> spool_kept dir w w' \<Longrightarrow> plain_spool dir w'"
  unfolding plain_spool_def spool_kept_def by auto

lemma started_inv:
  assumes "zlib_ok Z" and "world_ok memdir w" and "plain_spool memdir w" and "spool_view memdir w = Map.empty"
    and "configured memdir (Basic_Writer (basicwriter_new datadir))" and "4 < length memdir"
    and "ks \<noteq> []" and "length ks < 2 ^ 32" and "\<forall>sk \<in> set socks. builder_socket memdir sk"
    and "bs = bw_start run (basicwriter_new datadir) w"
  shows "daq_inv Z memdir {length objs} (length ks)
     \<lparr>q_driver = builder_driver memdir (length objs) ks run,
      q_env = \<lparr>e_objs = objs @ [Some (Basic_Writer (fst bs))], e_world = snd bs, e_log = []\<rparr>,
      q_socks = socks\<rparr>"
proof -
  from quiet_start [OF quiet_refl [OF assms(2)] assms(5), of run]
  have q: "world_ok memdir (snd bs)" "spool_kept memdir w (snd bs)" "spool_view memdir (snd bs) = Map.empty"
    using assms(4,10) by (simp_all add: quiet_def del: bw_start_fields(4))
  have plain: "plain_spool memdir (snd bs)"
    using q(1) by (intro plain_spool_kept [OF assms(3) _ q(2)]) (simp add: world_ok_def)
  have "bw_directory (fst bs) = bw_directory (basicwriter_new datadir)" using assms(10) by simp
  then have conf: "configured memdir (Basic_Writer (fst bs))" using assms(5) by simp
  have sink: "sink_inv Z memdir {length objs} (objs @ [Some (Basic_Writer (fst bs))]) (snd bs)"
    using q(1) assms(1) conf by (simp add: sink_inv_def world_ok_def)
  have n: "unat (numberOfDataSource (builder_driver memdir i ks run)) = length ks" for i
    using unat_of_nat_u32 [OF assms(8)]
    by (simp add: numberOfDataSource_def builder_driver_def more_sources_def registerProcessor_def shmdriver_new_def)
  have D: "d_memdir (builder_driver memdir i ks run) = memdir" "d_processors (builder_driver memdir i ks run) = [i]"
    "d_eventMap (builder_driver memdir i ks run) = []" for i
    by (simp_all add: builder_driver_def more_sources_def registerProcessor_def shmdriver_new_def)
  have "groups_ok (length ks) (\<lambda>_. [])" using assms(7) by (simp add: groups_ok_def)
  with refines_empty have "\<exists>g. refines ([] :: (u64, buffer list) smap) g \<and> groups_ok (length ks) g" by blast
  then show ?thesis
    using plain sink assms(6,7,9) q(3)
    by (simp add: daq_inv_def Let_def n D framed_def abs_log_def socket_ok_def builder_socket_def)
qed

section \<open>A run\<close>

text \<open>
  The four commands that bring the builder into a run: what their contents say, and what the two
  directories have to be.
\<close>

definition run_requests ::
  "'j jsonlib \<Rightarrow> 'j fsmmessage list \<Rightarrow> string \<Rightarrow> string \<Rightarrow> int \<Rightarrow> int list \<Rightarrow> int \<Rightarrow> bool" where
  "run_requests J ms memdir datadir det sids run \<longleftrightarrow>
     (\<exists>m1 m2 m3 m4 c1 c2 c3 c4 books. ms = [m1, m2, m3, m4] \<and>
        says J m1 ''CONFIGURE'' c1 \<and> content_string J ''memdir'' c1 = Inr memdir \<and>
        content_string J ''datadir'' c1 = Inr datadir \<and>
        says J m2 ''ADDSOURCES'' c2 \<and> j_object J c2 \<and> content_int J ''detid'' c2 = Inr det \<and>
        j_get J ''sourceid'' c2 = Inr books \<and> map (j_asInt J) (j_elems J books) = map Inr sids \<and>
        says J m3 ''REGISTER'' c3 \<and> j_object J c3 \<and>
        says J m4 ''START'' c4 \<and> content_int J ''run'' c4 = Inr run)"

definition directories_ready :: "string \<Rightarrow> string \<Rightarrow> world \<Rightarrow> bool" where
  "directories_ready memdir datadir w \<longleftrightarrow>
     plain_spool memdir (create_directories memdir w) \<and> 4 < length memdir \<and>
     (\<forall>d \<in> snd ` set (w_fds w). outside memdir (d_path d)) \<and> CHR ''/'' \<notin> set (w_date w) \<and>
     resolve datadir \<noteq> resolve memdir \<and> resolve datadir \<noteq> resolve memdir @ [''closed'']"

text \<open>CONFIGURE brings the builder to an empty spool directory with a driver and a writer.\<close>

lemma builder_configured:
  assumes "json_ok J" and c: "says J m ''CONFIGURE'' c" "content_string J ''memdir'' c = Inr memdir"
      "content_string J ''datadir'' c = Inr datadir"
    and "directories_ready memdir datadir (e_world env)"
  shows "\<exists>f w. web_commands J (m # ms) (exBuilder_new J junk P h n port env) = web_commands J ms (f,
       \<lparr>xb_sources = [], xb_evb = To (registerProcessor (length (e_objs env)) (shmdriver_new memdir True)),
        xb_writer = To (length (e_objs env)), xb_memdir = memdir,
        xb_env = env\<lparr>e_objs := e_objs env @ [Some (Basic_Writer (basicwriter_new datadir))], e_world := w\<rparr>\<rparr>) \<and>
     f_state f = ''CONFIGURED'' \<and> transition f = transition (xb_table J junk P (fsmweb_new n)) \<and>
     world_ok memdir w \<and> plain_spool memdir w \<and> spool_view memdir w = Map.empty \<and>
     (\<forall>q. content w q = [] \<or> content w q = content (create_directories memdir (e_world env)) q)"
proof -
  let ?w1 = "create_directories memdir (e_world env)" and ?f0 = "fsmweb_start h port (xb_table J junk P (fsmweb_new n))"
  have sp: "plain_spool memdir ?w1" "spool_ok memdir ?w1"
    using assms(5) by (simp_all add: directories_ready_def plain_spool_def)
  define x0 where "x0 = \<lparr>xb_sources = [], xb_evb = Wild, xb_writer = Wild, xb_memdir = ''/dev/shm/levbdim'', xb_env = env\<rparr>"
  note tr = xb_transition_table [OF refl, of J junk P n]
  have "spool_ok memdir (create_directories memdir (e_world (xb_env x0)))" using sp(2) by (simp add: x0_def)
  from configure_ok [OF c this] obtain w where
    cf: "xb_configure J m x0 = Inr (m, x0\<lparr>xb_sources := [],
        xb_evb := To (registerProcessor (length (e_objs env)) (shmdriver_new memdir True)), xb_writer := To (length (e_objs env)),
        xb_memdir := memdir,
        xb_env := env\<lparr>e_objs := e_objs env @ [Some (Basic_Writer (basicwriter_new datadir))], e_world := w\<rparr>\<rparr>)"
    and w: "spool_ok memdir w" "spool_frame memdir ?w1 w" "spool_kept memdir ?w1 w" "spool_view memdir w = Map.empty"
      "\<forall>q. content w q = [] \<or> content w q = content ?w1 q"
    by (auto simp: x0_def)
  have "transition ?f0 ''CONFIGURE'' (f_state ?f0) =
      Some \<lparr>tr_istate = ''CREATED'', tr_fstate = ''CONFIGURED'', tr_callback = xb_configure J\<rparr>"
    by (simp add: tables_start(3) tr(1,6))
  from web_commands_step [OF assms(1) c(1) _ this cf c(1), of ms] obtain f where
    "web_commands J (m # ms) (?f0, x0) = web_commands J ms (f, x0\<lparr>xb_sources := [],
        xb_evb := To (registerProcessor (length (e_objs env)) (shmdriver_new memdir True)), xb_writer := To (length (e_objs env)),
        xb_memdir := memdir,
        xb_env := env\<lparr>e_objs := e_objs env @ [Some (Basic_Writer (basicwriter_new datadir))], e_world := w\<rparr>\<rparr>)"
    "f_state f = ''CONFIGURED''" "transition f = transition ?f0" by auto
  moreover have "world_ok memdir w"
    using assms(5) w(1,2) by (simp add: world_ok_def directories_ready_def spool_frame_def)
  ultimately show ?thesis
    using plain_spool_kept [OF sp(1) w(1,3)] w(4,5)
    by (intro exI [of _ f] exI [of _ w]) (simp add: exBuilder_new_def x0_def)
qed

text \<open>ADDSOURCES, any number of times: each adds its sockets and its sources.\<close>

lemma builder_adds:
  assumes "json_ok J" and c: "says J m ''ADDSOURCES'' c" "j_object J c" "content_int J ''detid'' c = Inr det"
      "j_get J ''sourceid'' c = Inr books" "map (j_asInt J) (j_elems J books) = map Inr sids"
    and "xb_evb x = To D" and f: "f_state f = ''CONFIGURED''" "transition f = transition (xb_table J junk P (fsmweb_new n))"
  shows "\<exists>f' socks. web_commands J (m # ms) (f, x) = web_commands J ms (f',
       x\<lparr>xb_sources := xb_sources x @ socks,
         xb_evb := To (more_sources (map (\<lambda>s. dskey (word_of_int det) (word_of_int s)) sids) D)\<rparr>) \<and>
     f_state f' = ''CONFIGURED'' \<and> transition f' = transition f \<and>
     length socks = length sids \<and> (\<forall>sk \<in> set socks. builder_socket (xb_memdir x) sk) \<and>
     map sk_info socks = map (\<lambda>s. ds_service_name (word_of_int det) (word_of_int s)) sids"
proof -
  from addsources_ok [OF assms(1) c assms(7), of junk] obtain m' c' socks where
    ad: "xb_addsources J junk m x = Inr (m', x\<lparr>xb_sources := xb_sources x @ socks,
         xb_evb := To (more_sources (map (\<lambda>s. dskey (word_of_int det) (word_of_int s)) sids) D)\<rparr>)"
    "says J m' ''ADDSOURCES'' c'" "length socks = length sids" "\<forall>sk \<in> set socks. builder_socket (xb_memdir x) sk"
    "map sk_info socks = map (\<lambda>s. ds_service_name (word_of_int det) (word_of_int s)) sids" by blast
  have "transition f ''ADDSOURCES'' (f_state f) =
      Some \<lparr>tr_istate = ''CONFIGURED'', tr_fstate = ''CONFIGURED'', tr_callback = xb_addsources J junk\<rparr>"
    by (simp add: f xb_transition_table(2) [OF refl])
  from web_commands_step [OF assms(1) c(1) _ this ad(1,2), of ms] ad(3-5) show ?thesis by auto
qed

lemma builder_run:
  assumes "json_ok J" and "run_requests J ms memdir datadir det sids run"
    and "directories_ready memdir datadir (e_world env)"
  shows "\<exists>f x w. web_commands J ms (exBuilder_new J junk (processor_ops Z hjunk) h n port env) = Inr (f, x) \<and>
     f_state f = ''RUNNING'' \<and> transition f = transition (xb_table J junk (processor_ops Z hjunk) (fsmweb_new n)) \<and>
     world_ok memdir w \<and> plain_spool memdir w \<and> spool_view memdir w = Map.empty \<and>
     xb_evb x = To (builder_driver memdir (length (e_objs env))
        (map (\<lambda>s. dskey (word_of_int det) (word_of_int s)) sids) (word_of_int run)) \<and>
     xb_memdir x = memdir \<and> length (xb_sources x) = length sids \<and>
     (\<forall>sk \<in> set (xb_sources x). builder_socket memdir sk) \<and>
     map sk_info (xb_sources x) = map (\<lambda>s. ds_service_name (word_of_int det) (word_of_int s)) sids \<and>
     (\<forall>q. content w q = [] \<or> content w q = content (create_directories memdir (e_world env)) q) \<and>
     xb_env x = \<lparr>e_objs = e_objs env @ [Some (Basic_Writer (fst (bw_start (word_of_int run) (basicwriter_new datadir) w)))],
        e_world = snd (bw_start (word_of_int run) (basicwriter_new datadir) w), e_log = e_log env\<rparr>"
proof -
  let ?P = "processor_ops Z hjunk" and ?i = "length (e_objs env)"
  let ?t = "xb_table J junk ?P (fsmweb_new n)"
  let ?ks = "map (\<lambda>s. dskey (word_of_int det) (word_of_int s)) sids :: u32 list"
  let ?D1 = "registerProcessor ?i (shmdriver_new memdir True)"
  obtain m1 m2 m3 m4 c1 c2 c3 c4 books where ms: "ms = [m1, m2, m3, m4]"
    and 1: "says J m1 ''CONFIGURE'' c1" "content_string J ''memdir'' c1 = Inr memdir"
      "content_string J ''datadir'' c1 = Inr datadir"
    and 2: "says J m2 ''ADDSOURCES'' c2" "j_object J c2" "content_int J ''detid'' c2 = Inr det"
      "j_get J ''sourceid'' c2 = Inr books" "map (j_asInt J) (j_elems J books) = map Inr sids"
    and 3: "says J m3 ''REGISTER'' c3" "j_object J c3"
    and 4: "says J m4 ''START'' c4" "content_int J ''run'' c4 = Inr run"
    using assms(2) unfolding run_requests_def by blast
  note tr = xb_transition_table [OF refl, of J junk ?P n]
  from builder_configured [OF assms(1) 1 assms(3), of "[m2, m3, m4]" junk ?P h n port] obtain f1 x1 w where
    f1: "web_commands J ms (exBuilder_new J junk ?P h n port env) = web_commands J [m2, m3, m4] (f1, x1)"
      "f_state f1 = ''CONFIGURED''" "transition f1 = transition ?t"
    and x1: "x1 = \<lparr>xb_sources = [], xb_evb = To ?D1, xb_writer = To ?i, xb_memdir = memdir,
        xb_env = env\<lparr>e_objs := e_objs env @ [Some (Basic_Writer (basicwriter_new datadir))], e_world := w\<rparr>\<rparr>"
    and w: "world_ok memdir w" "plain_spool memdir w" "spool_view memdir w = Map.empty"
      "\<forall>q. content w q = [] \<or> content w q = content (create_directories memdir (e_world env)) q"
    unfolding ms by blast
  have "xb_evb x1 = To ?D1" by (simp add: x1)
  from builder_adds [OF assms(1) 2 this f1(2,3), of "[m3, m4]"] obtain f2 socks x2 where
    f2: "web_commands J [m2, m3, m4] (f1, x1) = web_commands J [m3, m4] (f2, x2)" "f_state f2 = ''CONFIGURED''"
      "transition f2 = transition ?t"
    and x2: "x2 = x1\<lparr>xb_sources := xb_sources x1 @ socks, xb_evb := To (more_sources ?ks ?D1)\<rparr>"
      "length socks = length sids" "\<forall>sk \<in> set socks. builder_socket (xb_memdir x1) sk"
      "map sk_info socks = map (\<lambda>s. ds_service_name (word_of_int det) (word_of_int s)) sids"
    unfolding f1(3) by blast
  from registerDone_ok [OF assms(1) 3, of x2] obtain m3' c3' where
    rg: "xb_registerDone J m3 x2 = Inr (m3', x2)" "says J m3' ''REGISTER'' c3'" by blast
  have "transition f2 ''REGISTER'' (f_state f2) =
      Some \<lparr>tr_istate = ''CONFIGURED'', tr_fstate = ''REGISTERED'', tr_callback = xb_registerDone J\<rparr>"
    by (simp add: f2(2,3) tr(3))
  from web_commands_step [OF assms(1) 3(1) _ this rg] obtain f3 where
    f3: "web_commands J [m3, m4] (f2, x2) = web_commands J [m4] (f3, x2)" "f_state f3 = ''REGISTERED''"
    "transition f3 = transition ?t" by (auto simp: f2(3))
  let ?bs = "bw_start (word_of_int run) (basicwriter_new datadir) w"
  define x3 where "x3 = x2\<lparr>xb_evb := To (builder_driver memdir ?i ?ks (word_of_int run)),
     xb_env := \<lparr>e_objs = e_objs env @ [Some (Basic_Writer (fst ?bs))], e_world = snd ?bs, e_log = e_log env\<rparr>\<rparr>"
  have evb2: "xb_evb x2 = To (more_sources ?ks ?D1)" and pr: "d_processors (more_sources ?ks ?D1) = [?i]"
    and hp: "?i < length (e_objs (xb_env x2))" "e_objs (xb_env x2) ! ?i = Some (Basic_Writer (basicwriter_new datadir))"
    by (simp_all add: x2(1) x1 more_sources_def registerProcessor_def shmdriver_new_def)
  have st: "xb_start J ?P m4 x2 = Inr (m4, x3)"
    using xb_start_ok [OF 4 evb2 pr hp, of Z hjunk]
    by (simp add: x3_def x2(1) x1 builder_driver_def del: bw_start_fields(4))
  have "transition f3 ''START'' (f_state f3) =
      Some \<lparr>tr_istate = ''REGISTERED'', tr_fstate = ''RUNNING'', tr_callback = xb_start J ?P\<rparr>"
    by (simp add: f3(2,3) tr(4))
  from web_commands_step [OF assms(1) 4(1) _ this st 4(1), where ms = "[]"] obtain f4 where
    f4: "web_commands J [m4] (f3, x2) = Inr (f4, x3)" "f_state f4 = ''RUNNING''" "transition f4 = transition ?t"
    by (auto simp: f3(3))
  show ?thesis
    using f1(1) f2(1) f3(1) f4 w x2(2-4)
    by (intro exI [of _ f4] exI [of _ x3] exI [of _ w]) (simp add: x3_def x2(1) x1 del: bw_start_fields(4))
qed

text \<open>
  The builder at the start of a run: its invariant holds, nothing has been received and nothing
  handed over, and a file of the directory holds at most what it held before.
\<close>

definition builder_idle :: "zlib \<Rightarrow> string \<Rightarrow> int \<Rightarrow> int list \<Rightarrow> processor env \<Rightarrow> exBuilder \<Rightarrow> shmdriver \<Rightarrow> bool" where
  "builder_idle Z memdir det sids env x D \<longleftrightarrow>
     daq_inv Z memdir {length (e_objs env)} (length sids) (daq_of x D) \<and> d_eventMap D = [] \<and>
     spool_view memdir (e_world (xb_env x)) = Map.empty \<and> e_log (xb_env x) = [] \<and>
     length (xb_sources x) = length sids \<and> (\<forall>sk \<in> set (xb_sources x). builder_socket memdir sk) \<and>
     map sk_info (xb_sources x) = map (\<lambda>s. ds_service_name (word_of_int det) (word_of_int s)) sids \<and>
     (\<forall>q. content (e_world (xb_env x)) q = [] \<or>
          content (e_world (xb_env x)) q = content (create_directories memdir (e_world env)) q)"

lemma builder_started:
  assumes "json_ok J" and "zlib_ok Z" and "run_requests J ms memdir datadir det sids run"
    and "directories_ready memdir datadir (e_world env)" and "e_log env = []"
    and "sids \<noteq> []" and "length sids < 2 ^ 32"
  shows "\<exists>f x D. web_commands J ms (exBuilder_new J junk (processor_ops Z hjunk) h n port env) = Inr (f, x) \<and>
     f_state f = ''RUNNING'' \<and> xb_evb x = To D \<and> builder_idle Z memdir det sids env x D"
proof -
  let ?ks = "map (\<lambda>s. dskey (word_of_int det) (word_of_int s)) sids :: u32 list" and ?i = "length (e_objs env)"
  let ?D = "builder_driver memdir ?i ?ks (word_of_int run)"
  from builder_run [OF assms(1,3,4), of junk Z hjunk h n port] obtain f x w where
    r: "web_commands J ms (exBuilder_new J junk (processor_ops Z hjunk) h n port env) = Inr (f, x)" "f_state f = ''RUNNING''"
    and w: "world_ok memdir w" "plain_spool memdir w" "spool_view memdir w = Map.empty"
      "\<forall>q. content w q = [] \<or> content w q = content (create_directories memdir (e_world env)) q"
    and x: "xb_evb x = To ?D" "\<forall>sk \<in> set (xb_sources x). builder_socket memdir sk" "length (xb_sources x) = length sids"
      "map sk_info (xb_sources x) = map (\<lambda>s. ds_service_name (word_of_int det) (word_of_int s)) sids"
      "xb_env x = \<lparr>e_objs = e_objs env @ [Some (Basic_Writer (fst (bw_start (word_of_int run) (basicwriter_new datadir) w)))],
        e_world = snd (bw_start (word_of_int run) (basicwriter_new datadir) w), e_log = e_log env\<rparr>"
    by blast
  have ks: "?ks \<noteq> []" "length ?ks < 2 ^ 32" using assms(6,7) by simp_all
  have dirs: "configured memdir (Basic_Writer (basicwriter_new datadir))" "4 < length memdir"
    using assms(4) by (simp_all add: directories_ready_def basicwriter_new_def)
  have "daq_inv Z memdir {?i} (length sids) (daq_of x ?D)"
    using started_inv [OF assms(2) w(1-3) dirs ks x(2) refl, of "e_objs env" "word_of_int run"] x(5) assms(5)
    by (simp add: daq_of_def)
  moreover have "spool_view memdir (e_world (xb_env x)) = Map.empty"
    using quiet_start [OF quiet_refl [OF w(1)] dirs(1), of "word_of_int run"] w(3) x(5)
    by (simp add: quiet_def del: bw_start_fields(4))
  moreover have "content (e_world (xb_env x)) q = content w q" for q
    by (simp add: x(5) open_creat_content)
  moreover have "d_eventMap ?D = []"
    by (simp add: builder_driver_def more_sources_def registerProcessor_def shmdriver_new_def)
  moreover have "e_log (xb_env x) = []" using x(5) assms(5) by simp
  ultimately have "builder_idle Z memdir det sids env x ?D" using w(4) x(2-4) by (simp add: builder_idle_def)
  with r x(1) show ?thesis by blast
qed

section \<open>The pointers\<close>

text \<open>The builder's updates and scans, between its commands.\<close>

definition builder_steps ::
  "zlib \<Rightarrow> (nat \<Rightarrow> byte) \<Rightarrow> (string \<Rightarrow> nat \<Rightarrow> byte) \<Rightarrow> exBuilder \<Rightarrow> exBuilder \<Rightarrow> bool" where
  "builder_steps Z hjunk fjunk x x' \<longleftrightarrow>
     (\<exists>D c. xb_evb x = To D \<and> daq_step Z hjunk fjunk (daq_of x D) c \<and>
        x' = x\<lparr>xb_evb := To (q_driver c), xb_env := q_env c, xb_sources := q_socks c\<rparr>)"

definition pointers_ok :: "string \<Rightarrow> exBuilder \<Rightarrow> bool" where
  "pointers_ok st x \<longleftrightarrow>
     (if st = ''CREATED'' then (\<forall>D. xb_evb x \<noteq> To D) \<and> (\<forall>i. xb_writer x \<noteq> To i)
      else (\<exists>D. xb_evb x = To D) \<and> (\<exists>i. xb_writer x = To i))"

definition builder_transitions ::
  "'j jsonlib \<Rightarrow> (nat \<Rightarrow> byte) \<Rightarrow> processor shmprocessor \<Rightarrow> ('j, exBuilder) transition_set" where
  "builder_transitions J junk P =
     {(''DESTROY'', ''CONFIGURED'', ''CREATED'', xb_destroy),
      (''HALT'', ''RUNNING'', ''CONFIGURED'', xb_halt J P),
      (''STOP'', ''RUNNING'', ''REGISTERED'', xb_stop J P),
      (''START'', ''REGISTERED'', ''RUNNING'', xb_start J P),
      (''REGISTER'', ''CONFIGURED'', ''REGISTERED'', xb_registerDone J),
      (''ADDSOURCES'', ''CONFIGURED'', ''CONFIGURED'', xb_addsources J junk),
      (''CONFIGURE'', ''CREATED'', ''CONFIGURED'', xb_configure J)}"

lemma builder_table_from: "table_from (xb_table J junk P (fsmweb_new n)) (builder_transitions J junk P)"
  unfolding xb_table_def Let_def foldl.simps builder_transitions_def by (intro table_from_intros)

lemma builder_pages_from: "pages_from (xb_table J junk P (fsmweb_new n)) {xb_list J}"
  unfolding xb_table_def Let_def foldl.simps by (intro pages_from_intros) simp

lemma add_source_pointers:
  assumes "add_source J junk det b x = Inr x'"
  shows "xb_writer x' = xb_writer x \<and> (\<exists>D. xb_evb x' = To D)"
  using assms by (auto simp: add_source_def)

lemma addsources_pointers:
  assumes "xb_addsources J junk m x = Inr (m', x')" and "xb_evb x = To D"
  shows "xb_writer x' = xb_writer x \<and> (\<exists>D. xb_evb x' = To D)"
proof -
  from assms(1) obtain det bs where r: "rfold (add_source J junk det) bs x = Inr x'"
    by (auto simp: xb_addsources_def)
  show ?thesis
  proof (rule rfold_invariant [where P = "\<lambda>y. xb_writer y = xb_writer x \<and> (\<exists>D. xb_evb y = To D)", OF r])
    show "xb_writer x = xb_writer x \<and> (\<exists>D. xb_evb x = To D)" using assms(2) by simp
    show "xb_writer t = xb_writer x \<and> (\<exists>D. xb_evb t = To D)"
      if "xb_writer s = xb_writer x \<and> (\<exists>D. xb_evb s = To D)" and "add_source J junk det b s = Inr t" for b s t
      using add_source_pointers [OF that(2)] that(1) by simp
  qed
qed

lemma run_pointers:
  "xb_start J P m x = Inr (m', x') \<Longrightarrow> xb_writer x' = xb_writer x \<and> (\<exists>D. xb_evb x' = To D)"
  "xb_stop J P m x = Inr (m', x') \<Longrightarrow> xb_writer x' = xb_writer x \<and> (\<exists>D. xb_evb x' = To D)"
  "xb_halt J P m x = Inr (m', x') \<Longrightarrow> xb_writer x' = xb_writer x \<and> (\<exists>D. xb_evb x' = To D)"
  by (auto simp: xb_start_def xb_stop_def xb_halt_def)

lemma transition_keeps_pointers:
  assumes "(c, st, e, g) \<in> builder_transitions J junk P" and "g m x = Inr (m', x')" and "pointers_ok st x"
  shows "pointers_ok e x'"
proof -
  have moved: "pointers_ok e x'" if "xb_writer x' = xb_writer x" "\<exists>D. xb_evb x' = To D" "st \<noteq> ''CREATED''" "e \<noteq> ''CREATED''"
    using that assms(3) by (simp add: pointers_ok_def)
  from assms(1) show ?thesis
    unfolding builder_transitions_def
  proof (elim insertE emptyE Pair_inject)
    assume "e = ''CREATED''" "g = xb_destroy"
    with assms(2) show ?thesis by (auto simp: xb_destroy_def pointers_ok_def split: pointer.splits)
  next
    assume "st = ''RUNNING''" "e = ''CONFIGURED''" "g = xb_halt J P"
    with run_pointers(3) [of J P m x m' x'] assms(2) show ?thesis by (intro moved) simp_all
  next
    assume "st = ''RUNNING''" "e = ''REGISTERED''" "g = xb_stop J P"
    with run_pointers(2) [of J P m x m' x'] assms(2) show ?thesis by (intro moved) simp_all
  next
    assume "st = ''REGISTERED''" "e = ''RUNNING''" "g = xb_start J P"
    with run_pointers(1) [of J P m x m' x'] assms(2) show ?thesis by (intro moved) simp_all
  next
    assume "st = ''CONFIGURED''" "e = ''REGISTERED''" "g = xb_registerDone J"
    with assms(2,3) show ?thesis by (intro moved) (auto simp: xb_registerDone_def pointers_ok_def)
  next
    assume "st = ''CONFIGURED''" "e = ''CONFIGURED''" "g = xb_addsources J junk"
    moreover from this assms(3) obtain D where "xb_evb x = To D" by (auto simp: pointers_ok_def)
    ultimately show ?thesis using addsources_pointers [of J junk m x m' x'] assms(2) by (intro moved) simp_all
  next
    assume "e = ''CONFIGURED''" "g = xb_configure J"
    with assms(2) show ?thesis by (auto simp: xb_configure_def Let_def pointers_ok_def)
  qed
qed

interpretation builders: application J "builder_transitions J junk P" "{xb_list J}" "builder_steps Z hjunk fjunk" pointers_ok
  for J junk P Z hjunk fjunk
proof
  show "pointers_ok e s'" if "(c, st, e, g) \<in> builder_transitions J junk P" and "g m s = Inr (m', s')"
    and "pointers_ok st s" for c st e g m s m' s'
    by (rule transition_keeps_pointers [OF that])
  show "pointers_ok st s'" if "h \<in> {xb_list J}" and "h rq st rsp s = Inr (r, s')" and "pointers_ok st s"
    for h rq st rsp s r s'
    using that by (auto simp: xb_list_def)
  show "pointers_ok st s'" if "builder_steps Z hjunk fjunk s s'" and "pointers_ok st s" for s s' st
    using that by (auto simp: builder_steps_def pointers_ok_def split: if_splits)
qed

section \<open>Properties\<close>


text \<open>
  C21: HALT deletes the data sockets but leaves their sources registered with the driver, so when
  the sources are added again the driver waits for twice as many fragments as there are
  sockets, and an event with one fragment from each is never complete.
\<close>

theorem halt_doubles_sources:
  assumes "json_ok J" and "run_requests J ms memdir datadir det sids run"
    and "directories_ready memdir datadir (e_world env)" and "sids \<noteq> []" and "2 * length sids < 2 ^ 32"
    and "says J mh ''HALT'' ch" and "says J ma ''ADDSOURCES'' ca" and "j_object J ca"
    and "content_int J ''detid'' ca = Inr det" and "j_get J ''sourceid'' ca = Inr books"
    and "map (j_asInt J) (j_elems J books) = map Inr sids"
  shows "\<exists>f x D. web_commands J (ms @ [mh, ma]) (exBuilder_new J junk (processor_ops Z hjunk) h n port env) = Inr (f, x) \<and>
     xb_evb x = To D \<and> length (xb_sources x) = length sids \<and> unat (numberOfDataSource D) = 2 * length sids \<and>
     (\<forall>v. length v = length (xb_sources x) \<longrightarrow> \<not> is_complete D v)"
proof -
  let ?ks = "map (\<lambda>s. dskey (word_of_int det) (word_of_int s)) sids :: u32 list" and ?i = "length (e_objs env)"
  let ?P = "processor_ops Z hjunk" and ?D = "builder_driver memdir (length (e_objs env))
     (map (\<lambda>s. dskey (word_of_int det) (word_of_int s)) sids) (word_of_int run)"
  from builder_run [OF assms(1-3), of junk Z hjunk h n port] obtain f x bw w' lg where
    r: "web_commands J ms (exBuilder_new J junk ?P h n port env) = Inr (f, x)" "f_state f = ''RUNNING''"
      "transition f = transition (xb_table J junk ?P (fsmweb_new n))"
    and x: "xb_evb x = To ?D" "xb_memdir x = memdir"
      "xb_env x = \<lparr>e_objs = e_objs env @ [Some (Basic_Writer bw)], e_world = w', e_log = lg\<rparr>"
    by blast
  have pr: "d_processors ?D = [?i]"
    by (simp add: builder_driver_def more_sources_def registerProcessor_def shmdriver_new_def)
  obtain env' where "xb_stop J ?P mh x = Inr (mh, x\<lparr>xb_evb := To (?D\<lparr>d_running := False\<rparr>), xb_env := env'\<rparr>)"
    using x(1,3) pr by (simp add: xb_stop_def says_command [OF assms(6)] shm_stop_def call_proc_def deref_def
        processor_ops_def case_prod_beta)
  then have halt: "xb_halt J ?P mh x = Inr (mh, x\<lparr>xb_evb := To (?D\<lparr>d_running := False\<rparr>), xb_env := env', xb_sources := []\<rparr>)"
    by (simp add: xb_halt_def says_command [OF assms(6)])
  let ?x1 = "x\<lparr>xb_evb := To (?D\<lparr>d_running := False\<rparr>), xb_env := env', xb_sources := []\<rparr>"
  have "xb_evb ?x1 = To (?D\<lparr>d_running := False\<rparr>)" by simp
  note tr = xb_transition_table [OF refl, of J junk ?P n]
  have "transition f ''HALT'' (f_state f) =
      Some \<lparr>tr_istate = ''RUNNING'', tr_fstate = ''CONFIGURED'', tr_callback = xb_halt J ?P\<rparr>"
    by (simp add: r(2,3) tr(5))
  from web_commands_step [OF assms(1,6) _ this halt assms(6), of "[ma]"] obtain f1 where
    f1: "web_commands J [mh, ma] (f, x) = web_commands J [ma] (f1, ?x1)" "f_state f1 = ''CONFIGURED''"
    "transition f1 = transition f" by auto
  from builder_adds [OF assms(1,7-11) \<open>xb_evb ?x1 = To (?D\<lparr>d_running := False\<rparr>)\<close> f1(2) f1(3) [unfolded r(3)], of "[]"]
  obtain f2 socks where f2: "web_commands J [ma] (f1, ?x1) = Inr (f2, ?x1\<lparr>xb_sources := xb_sources ?x1 @ socks,
       xb_evb := To (more_sources ?ks (?D\<lparr>d_running := False\<rparr>))\<rparr>)" and ad: "length socks = length sids" by auto
  let ?D2 = "more_sources ?ks (?D\<lparr>d_running := False\<rparr>)"
  let ?x2 = "?x1\<lparr>xb_sources := xb_sources ?x1 @ socks, xb_evb := To ?D2\<rparr>"
  have n: "unat (numberOfDataSource ?D2) = 2 * length sids"
  proof -
    have "length (d_datasources ?D2) = 2 * length sids"
      by (simp add: builder_driver_def more_sources_def registerProcessor_def shmdriver_new_def)
    then show ?thesis using unat_of_nat_u32 [OF assms(5)] by (simp only: numberOfDataSource_def)
  qed
  have c: "web_commands J (ms @ [mh, ma]) (exBuilder_new J junk ?P h n port env) = Inr (f2, ?x2)"
    by (simp only: web_commands_append r(1) rbind_simps f1(1) f2)
  have e: "xb_evb ?x2 = To ?D2" by simp
  have l: "length (xb_sources ?x2) = length sids" using ad by simp
  have i: "\<forall>v. length v = length (xb_sources ?x2) \<longrightarrow> \<not> is_complete ?D2 v"
    unfolding is_complete_def l n using assms(4) by simp
  show ?thesis by (intro exI conjI) (rule c, rule e, rule l, rule n, rule i)
qed

text \<open>
  C22: the pointers of the builder are valid exactly outside its state CREATED, whatever commands,
  page requests, updates and scans came before; so the LIST page, which the server offers in
  every state, dereferences an uninitialised or null pointer in that state and answers with the
  run and the event in every other.
\<close>

theorem list_page_pointers:
  assumes "json_ok J" and "(web_step J (builder_steps Z hjunk fjunk))\<^sup>*\<^sup>*
      (exBuilder_new J junk (processor_ops Z hjunk) h n port env) (f, x)"
  shows "if f_state f = ''CREATED'' then xb_list J rq (f_state f) (response_new J) x = Inl Bad_Pointer
     else \<exists>D js r. xb_evb x = To D \<and> xb_list J rq (f_state f) (response_new J) x = Inr (r, x) \<and>
        j_get J ''answer'' (rs_json r) = Inr js \<and> j_get J ''run'' js = Inr (j_int J (uint (d_run D))) \<and>
        j_get J ''event'' js = Inr (j_int J (uint (d_evt D)))"
proof -
  have new: "builders.served J junk (processor_ops Z hjunk) (exBuilder_new J junk (processor_ops Z hjunk) h n port env)"
    using builder_table_from [of J junk "processor_ops Z hjunk" n] builder_pages_from [of J junk "processor_ops Z hjunk" n]
    by (simp add: builders.served_def exBuilder_new_def tables_start xb_transition_table(6) [OF refl] pointers_ok_def)
  from builders.reachable [OF assms new] have ok: "pointers_ok (f_state f) x" by (simp add: builders.served_def)
  show ?thesis
  proof (cases "f_state f = ''CREATED''")
    case True
    with ok show ?thesis by (cases "xb_evb x") (simp_all add: pointers_ok_def xb_list_def)
  next
    case False
    with ok obtain D where D: "xb_evb x = To D" by (auto simp: pointers_ok_def)
    obtain js1 js where js: "j_set J ''run'' (j_int J (uint (d_run D))) (j_null J) = Inr js1"
      "j_set J ''event'' (j_int J (uint (d_evt D))) js1 = Inr js" "j_get J ''run'' js = Inr (j_int J (uint (d_run D)))"
      "j_get J ''event'' js = Inr (j_int J (uint (d_evt D)))"
      by (rule set_two [OF assms(1), of "''run''" "''event''"]) simp
    obtain v where "j_set J ''answer'' js (j_null J) = Inr v" "j_get J ''answer'' v = Inr js"
      by (rule json_set [OF assms(1) json_null(1) [OF assms(1)]]) blast
    with D js False show ?thesis by (auto simp: xb_list_def response_set_def response_new_def)
  qed
qed

section \<open>Witnesses\<close>

definition demo_configure :: "(string \<times> string) list" where
  "demo_configure = [(''memdir'', ''S/spool''), (''datadir'', ''S/data'')]"

definition demo_sources :: "(string \<times> string) list" where
  "demo_sources = [(''detid'', text_int 100), (''sourceid'', CHR ''A'' # put_texts [text_int 23, text_int 24])]"

definition demo_run_requests :: "string fsmmessage list" where
  "demo_run_requests =
     [demo_command ''CONFIGURE'' demo_configure, demo_command ''ADDSOURCES'' demo_sources,
      demo_command ''REGISTER'' [], demo_command ''START'' [(''run'', text_int 7)]]"

lemma demo_contents:
  "content_string text_json ''memdir'' (object demo_configure) = Inr ''/spool''"
  "content_string text_json ''datadir'' (object demo_configure) = Inr ''/data''"
  "content_int text_json ''detid'' (object demo_sources) = Inr 100"
  "j_get text_json ''sourceid'' (object demo_sources) = Inr (CHR ''A'' # put_texts [text_int 23, text_int 24])"
  "map (j_asInt text_json) (j_elems text_json (CHR ''A'' # put_texts [text_int 23, text_int 24])) = map Inr [23, 24]"
  "content_int text_json ''run'' (object [(''run'', text_int 7)]) = Inr 7"
  by (simp_all add: content_string_def content_int_def text_members demo_configure_def demo_sources_def)

lemma demo_run: "run_requests text_json demo_run_requests ''/spool'' ''/data'' 100 [23, 24] 7"
  unfolding run_requests_def demo_run_requests_def
  using demo_contents demo_command_says by blast

lemma demo_directories: "directories_ready ''/spool'' ''/data'' (demo_spool [])"
proof -
  have "create_directories ''/spool'' (demo_spool []) = demo_spool []"
    by (simp add: create_directories_def sys_mkdir_def Let_def resolve_def node_at_def demo_spool_def)
  with demo_plain_spool [OF demo_names_Nil] show ?thesis
    by (simp add: directories_ready_def demo_spool_def outside_def data_path_def mark_path_def resolve_def)
qed

definition demo_env :: "processor env" where
  "demo_env = \<lparr>e_objs = [], e_world = demo_spool [], e_log = []\<rparr>"

lemma demo_env_ready: "directories_ready ''/spool'' ''/data'' (e_world demo_env)" "e_log demo_env = []"
  using demo_directories by (simp_all add: demo_env_def)


theorem halt_doubles_sources_witness:
  "\<exists>f x D. web_commands text_json (demo_run_requests @ [demo_command ''HALT'' [], demo_command ''ADDSOURCES'' demo_sources])
       (exBuilder_new text_json (\<lambda>_. 0) (processor_ops demo_zlib (\<lambda>_. 0)) ''lyon'' ''EVB'' 45000 demo_env) = Inr (f, x) \<and>
     xb_evb x = To D \<and> length (xb_sources x) = 2 \<and> unat (numberOfDataSource D) = 4"
proof -
  have n: "[23, 24 :: int] \<noteq> []" "2 * length [23, 24 :: int] < 2 ^ 32" by simp_all
  from halt_doubles_sources [OF text_json_ok demo_run demo_env_ready(1) n demo_command_says(1) demo_command_says
      demo_contents(3,4,5), of "[]" "\<lambda>_. 0" demo_zlib "\<lambda>_. 0" "''lyon''" "''EVB''" 45000]
  show ?thesis by auto
qed

theorem list_page_pointers_witness:
  "xb_list text_json (\<lambda>_. None) ''CREATED'' (response_new text_json)
     (snd (exBuilder_new text_json (\<lambda>_. 0) (processor_ops demo_zlib (\<lambda>_. 0)) ''lyon'' ''EVB'' 45000 demo_env)) = Inl Bad_Pointer"
proof -
  let ?c = "exBuilder_new text_json (\<lambda>_. 0) (processor_ops demo_zlib (\<lambda>_. 0)) ''lyon'' ''EVB'' 45000 demo_env"
  have "(web_step text_json (builder_steps demo_zlib (\<lambda>_. 0) (\<lambda>_ _. 0)))\<^sup>*\<^sup>* ?c (fst ?c, snd ?c)" by simp
  moreover have "f_state (fst ?c) = ''CREATED''"
    by (simp add: exBuilder_new_def tables_start xb_transition_table(6) [OF refl])
  ultimately show ?thesis
    using list_page_pointers [OF text_json_ok, of demo_zlib "\<lambda>_. 0" "\<lambda>_ _. 0" "\<lambda>_. 0" "''lyon''" "''EVB''" 45000 demo_env "fst ?c" "snd ?c" "\<lambda>_. None"]
    by metis
qed

end
