(* ===== verification/Ex_Server.thy ===== *)
theory Ex_Server
  imports Data_Source Machine
begin

text \<open>
  \<^verbatim>\<open>example/src/exServer.cxx\<close>: a process with data sources, one thread each, that publish random
  data when the event number changes. A thread is the index of its source and the last event
  number it has seen; joining the threads ends them. The random numbers are a function of the
  position they are stored at.
\<close>

section \<open>State\<close>

record exServer =
  xs_detid :: u32
  xs_sources :: "datasource list"
  xs_stat :: "(u32, u32) smap"
  xs_running :: bool
  xs_threads :: "(nat \<times> u32) list"
  xs_event :: u32
  xs_bx :: u32

type_synonym 'j xs_transition = "('j, exServer) callback"
type_synonym 'j xs_page = "('j, exServer) page_function"

definition incrementEvent :: "exServer \<Rightarrow> exServer" where
  "incrementEvent x = x\<lparr>xs_event := xs_event x + 1, xs_bx := xs_bx x + 1\<rparr>"

definition setDetectorId_server :: "u32 \<Rightarrow> exServer \<Rightarrow> exServer" where
  "setDetectorId_server i x = x\<lparr>xs_detid := i\<rparr>"

section \<open>Transitions\<close>

text \<open>\<^verbatim>\<open>(det<<16)|sid\<close>.\<close>

definition stat_key :: "u32 \<Rightarrow> u32 \<Rightarrow> u32" where
  "stat_key det sid = push_bit 16 det OR sid"

definition new_source ::
  "'j jsonlib \<Rightarrow> (nat \<Rightarrow> byte) \<Rightarrow> int \<Rightarrow> 'j \<Rightarrow> 'j \<times> exServer \<Rightarrow> ('j \<times> exServer) res" where
  "new_source J junk det book = (\<lambda>(array_keys, x).
     rbind (j_asInt J book) (\<lambda>sid.
     (let key = stat_key (word_of_int det) (word_of_int sid) in
      rbind (j_append J array_keys (j_int J (sint key))) (\<lambda>array_keys'.
      rbind (datasource_new (word_of_int det) (word_of_int sid) 0x20000 junk) (\<lambda>ds.
      Inr (array_keys', x\<lparr>xs_sources := xs_sources x @ [ds], xs_stat := map_insert key 0 (xs_stat x)\<rparr>))))))"

definition xs_configure :: "'j jsonlib \<Rightarrow> (nat \<Rightarrow> byte) \<Rightarrow> 'j xs_transition" where
  "xs_configure J junk m x =
     rbind (msg_command J m) (\<lambda>_.
     rbind (msg_content J m) (\<lambda>jc.
     rbind (content_int J ''detid'' jc) (\<lambda>det.
     rbind (j_get J ''sourceid'' jc) (\<lambda>books.
     rbind (rfold (new_source J junk det) (j_elems J books) (j_null J, x\<lparr>xs_sources := [], xs_stat := []\<rparr>)) (\<lambda>(array_keys, x').
     rbind (msg_setAnswer J array_keys m) (\<lambda>m'. Inr (m', x')))))))"

definition xs_start :: "'j jsonlib \<Rightarrow> 'j xs_transition" where
  "xs_start J m x =
     rbind (msg_command J m) (\<lambda>_.
     Inr (m, x\<lparr>xs_event := 0, xs_running := True,
               xs_threads := xs_threads x @ map (\<lambda>i. (i, 0)) [0..<length (xs_sources x)]\<rparr>))"

definition xs_stop :: "'j jsonlib \<Rightarrow> 'j xs_transition" where
  "xs_stop J m x = rbind (msg_command J m) (\<lambda>_. Inr (m, x\<lparr>xs_running := False, xs_threads := []\<rparr>))"

definition xs_halt :: "'j jsonlib \<Rightarrow> 'j xs_transition" where
  "xs_halt J m x =
     rbind (msg_command J m) (\<lambda>_.
     rbind (if xs_running x then xs_stop J m x else Inr (m, x)) (\<lambda>(m', x'). Inr (m', x'\<lparr>xs_sources := []\<rparr>)))"

section \<open>The threads\<close>

text \<open>A word of the payload, the way the code stores through a pointer to 32-bit words.\<close>

definition store_word :: "nat \<Rightarrow> u32 \<Rightarrow> datasource \<Rightarrow> datasource res" where
  "store_word i v d = rbind (store_field (20 + 4 * i) (enc32 v) (ds_buffer d)) (\<lambda>b. Inr (d\<lparr>ds_buffer := b\<rparr>))"

text \<open>
  The payload: random words between two words that hold the event number. Its length in words is
  the number of the source; for source 0 the bound of the loop wraps around.
\<close>

definition fill_payload :: "(nat \<Rightarrow> u32) \<Rightarrow> u32 \<Rightarrow> u32 \<Rightarrow> datasource \<Rightarrow> datasource res" where
  "fill_payload rnd psi event d =
     rbind (rfold (\<lambda>i. store_word i (rnd i)) [1..<unat (psi - 1)] d) (\<lambda>d1.
     rbind (store_word 0 event d1) (\<lambda>d2. store_word (unat (psi - 1)) event d2))"

text \<open>One turn of the loop of the thread of the source with index \<open>i\<close>.\<close>

definition readdata ::
  "(nat \<Rightarrow> u32) \<Rightarrow> nat \<Rightarrow> u32 \<Rightarrow> exServer \<Rightarrow> (u32 \<times> exServer) res" where
  "readdata rnd i last_evt x =
     (if \<not> xs_running x \<or> xs_event x = last_evt then Inr (last_evt, x)
      else if length (xs_sources x) \<le> i then Inl Bad_Pointer
      else
        (let ds = xs_sources x ! i in
         rbind (dataSourceId (ds_buffer ds)) (\<lambda>psi.
         rbind (fill_payload rnd psi (xs_event x) ds) (\<lambda>d1.
         rbind (publish (xs_event x) (ucast (xs_bx x)) (psi * 4) d1) (\<lambda>d2.
         rbind (detectorId (ds_buffer d2)) (\<lambda>det. rbind (dataSourceId (ds_buffer d2)) (\<lambda>src.
         (let key = stat_key det src;
              stat = (case map_of (xs_stat x) key of None \<Rightarrow> xs_stat x
                      | Some _ \<Rightarrow> map_assign key (xs_event x) (xs_stat x)) in
          Inr (xs_event x, x\<lparr>xs_sources := (xs_sources x)[i := d2], xs_stat := stat\<rparr>)))))))))"

section \<open>Pages and the machine\<close>

definition xs_download :: "'j jsonlib \<Rightarrow> 'j xs_page" where
  "xs_download J rq st rsp x =
     rbind (response_set J ''answer'' (j_str J ''download called'') rsp) (\<lambda>r. Inr (r, x))"

definition stat_entry :: "'j jsonlib \<Rightarrow> u32 \<times> u32 \<Rightarrow> 'j res" where
  "stat_entry J = (\<lambda>(k, e).
     rbind (j_set J ''detid'' (j_int J (uint (drop_bit 16 k AND 0xFFFF))) (j_null J)) (\<lambda>j1.
     rbind (j_set J ''sourceid'' (j_int J (uint (k AND 0xFFFF))) j1) (\<lambda>j2.
     j_set J ''event'' (j_int J (uint e)) j2)))"

definition xs_list :: "'j jsonlib \<Rightarrow> 'j xs_page" where
  "xs_list J rq st rsp x =
     rbind (rfold (\<lambda>e v. rbind (stat_entry J e) (j_append J v)) (xs_stat x) (j_null J)) (\<lambda>array_keys.
     rbind (j_set2 J ''answer'' ''detector'' (j_int J (uint (xs_detid x))) (rs_json rsp)) (\<lambda>v1.
     rbind (j_set2 J ''answer'' ''dataSources'' array_keys v1) (\<lambda>v2.
     Inr (rsp\<lparr>rs_json := v2\<rparr>, x))))"

definition xs_table :: "'j jsonlib \<Rightarrow> (nat \<Rightarrow> byte) \<Rightarrow> ('j, exServer) fsmweb \<Rightarrow> ('j, exServer) fsmweb" where
  "xs_table J junk f0 =
     (let f1 = foldl (\<lambda>f s. addState s f) f0 [''CREATED'', ''CONFIGURED'', ''RUNNING''];
          f2 = addTransition ''CONFIGURE''
                 \<lparr>tr_istate = ''CREATED'', tr_fstate = ''CONFIGURED'', tr_callback = xs_configure J junk\<rparr> f1;
          f3 = addTransition ''CONFIGURE''
                 \<lparr>tr_istate = ''CONFIGURED'', tr_fstate = ''CONFIGURED'', tr_callback = xs_configure J junk\<rparr> f2;
          f4 = addTransition ''START''
                 \<lparr>tr_istate = ''CONFIGURED'', tr_fstate = ''RUNNING'', tr_callback = xs_start J\<rparr> f3;
          f5 = addTransition ''STOP''
                 \<lparr>tr_istate = ''RUNNING'', tr_fstate = ''CONFIGURED'', tr_callback = xs_stop J\<rparr> f4;
          f6 = addTransition ''HALT''
                 \<lparr>tr_istate = ''RUNNING'', tr_fstate = ''CREATED'', tr_callback = xs_halt J\<rparr> f5;
          f7 = addTransition ''HALT''
                 \<lparr>tr_istate = ''CONFIGURED'', tr_fstate = ''CREATED'', tr_callback = xs_halt J\<rparr> f6 in
      addCommand ''LIST'' (xs_list J) (addCommand ''DOWNLOAD'' (xs_download J) f7))"

definition exServer_new ::
  "'j jsonlib \<Rightarrow> (nat \<Rightarrow> byte) \<Rightarrow> string \<Rightarrow> string \<Rightarrow> u32 \<Rightarrow> ('j, exServer) fsmweb \<times> exServer" where
  "exServer_new J junk hostname name port =
     (fsmweb_start hostname port (xs_table J junk (fsmweb_new name)),
      \<lparr>xs_detid = 0, xs_sources = [], xs_stat = [], xs_running = False, xs_threads = [], xs_event = 0, xs_bx = 0\<rparr>)"

section \<open>Filling the payload\<close>

lemma store_word_result:
  "store_word i v d =
     (if 24 + 4 * i \<le> length (b_mem (ds_buffer d))
      then Inr (d\<lparr>ds_buffer := (ds_buffer d)\<lparr>b_mem := overwrite (20 + 4 * i) (enc32 v) (b_mem (ds_buffer d))\<rparr>\<rparr>)
      else Inl Out_Of_Bounds)"
  by (simp add: store_word_def store_field_def poke_def)

text \<open>What stores of words keep, and what they leave: \<open>w\<close> at the positions stored to.\<close>

definition word_at :: "nat \<Rightarrow> datasource \<Rightarrow> byte list" where
  "word_at j d = chunk (20 + 4 * j) 4 (b_mem (ds_buffer d))"

definition stored_from :: "u32 \<Rightarrow> nat set \<Rightarrow> (nat \<Rightarrow> u32) \<Rightarrow> datasource \<Rightarrow> datasource \<Rightarrow> bool" where
  "stored_from n A w d d' \<longleftrightarrow> ds_ok n d' \<and> ds_service d' = ds_service d \<and> ds_detid d' = ds_detid d \<and>
     ds_sourceid d' = ds_sourceid d \<and>
     (\<forall>j. 24 + 4 * j \<le> unat n \<longrightarrow> word_at j d' = (if j \<in> A then enc32 (w j) else word_at j d))"

lemma store_word_stored:
  assumes "ds_ok n d"
  shows "if 24 + 4 * i \<le> unat n then \<exists>d'. store_word i v d = Inr d' \<and> stored_from n {i} (\<lambda>_. v) d d'
     else store_word i v d = Inl Out_Of_Bounds"
proof -
  have len: "length (b_mem (ds_buffer d)) = unat n" using assms by (simp add: ds_ok_def)
  let ?d = "d\<lparr>ds_buffer := (ds_buffer d)\<lparr>b_mem := overwrite (20 + 4 * i) (enc32 v) (b_mem (ds_buffer d))\<rparr>\<rparr>"
  have "stored_from n {i} (\<lambda>_. v) d ?d" if fit: "24 + 4 * i \<le> unat n"
  proof -
    have "word_at j ?d = (if j = i then enc32 v else word_at j d)" if "24 + 4 * j \<le> unat n" for j
      using fit that len by (cases i j rule: linorder_cases) (simp_all add: word_at_def mem_simps)
    moreover have "ds_ok n ?d" using assms fit len by (simp add: ds_ok_def mem_simps)
    ultimately show ?thesis by (simp add: stored_from_def)
  qed
  with len show ?thesis by (simp add: store_word_result)
qed

lemma stored_from_trans:
  "stored_from n A w d d' \<Longrightarrow> stored_from n B u d' d'' \<Longrightarrow>
     stored_from n (A \<union> B) (\<lambda>j. if j \<in> B then u j else w j) d d''"
  by (auto simp: stored_from_def)

lemma store_words:
  assumes "ds_ok n d"
  shows "if \<forall>i \<in> set is. 24 + 4 * i \<le> unat n
     then \<exists>d'. rfold (\<lambda>i. store_word i (w i)) is d = Inr d' \<and> stored_from n (set is) w d d'
     else rfold (\<lambda>i. store_word i (w i)) is d = Inl Out_Of_Bounds"
  using assms
proof (induction "is" arbitrary: d)
  case Nil
  then show ?case by (simp add: stored_from_def)
next
  case (Cons i is')
  show ?case
  proof (cases "24 + 4 * i \<le> unat n")
    case False
    with store_word_stored [OF Cons.prems, of i "w i"] show ?thesis by simp
  next
    case True
    with store_word_stored [OF Cons.prems, of i "w i"] obtain d1 where
      d1: "store_word i (w i) d = Inr d1" "stored_from n {i} (\<lambda>_. w i) d d1" by auto
    then have "ds_ok n d1" by (simp add: stored_from_def)
    note IH = Cons.IH [OF this]
    show ?thesis
    proof (cases "\<forall>i \<in> set is'. 24 + 4 * i \<le> unat n")
      case False
      with IH True d1(1) show ?thesis by auto
    next
      case all: True
      with IH obtain d2 where d2: "rfold (\<lambda>i. store_word i (w i)) is' d1 = Inr d2" "stored_from n (set is') w d1 d2" by auto
      have "stored_from n (set (i # is')) w d d2"
        using d1(2) d2(2) by (auto simp: stored_from_def)
      with True all d1(1) d2(1) show ?thesis by simp
    qed
  qed
qed

lemma payload_words:
  "20 + 4 * k \<le> length m \<Longrightarrow> chunk 20 (4 * k) m = concat (map (\<lambda>j. chunk (20 + 4 * j) 4 m) [0..<k])"
proof (induction k)
  case 0
  then show ?case by (simp add: chunk_def)
next
  case (Suc k)
  have "chunk 20 (4 * Suc k) m = chunk 20 (4 * k) m @ chunk (20 + 4 * k) 4 m"
    by (simp add: chunk_def add.commute [of 4] add.commute [of 20] take_add)
  with Suc show ?case by simp
qed

text \<open>The words of the payload of source \<open>psi\<close>, and when they fit the buffer of 128 kB.\<close>

definition server_words :: "(nat \<Rightarrow> u32) \<Rightarrow> nat \<Rightarrow> u32 \<Rightarrow> u32 list" where
  "server_words rnd psi event = map (\<lambda>j. if j = 0 \<or> j = psi - 1 then event else rnd j) [0..<psi]"

text \<open>
  A filling of the payload stores random words at the positions \<open>is\<close> and then the event number at
  both ends. It fits exactly when the last word does, if \<open>is\<close> stays below it and leaves out no
  position in between.
\<close>

definition fill_with :: "nat list \<Rightarrow> (nat \<Rightarrow> u32) \<Rightarrow> u32 \<Rightarrow> u32 \<Rightarrow> datasource \<Rightarrow> datasource res" where
  "fill_with is rnd psi event d =
     rbind (rfold (\<lambda>i. store_word i (rnd i)) is d) (\<lambda>d1.
     rbind (store_word 0 event d1) (\<lambda>d2. store_word (unat (psi - 1)) event d2))"

lemma words_before:
  fixes psi :: u32
  assumes "1 \<le> unat psi"
  shows "unat (psi - 1) = unat psi - 1"
  using assms by (intro unat_minus_one) auto

lemma fill_with_fits:
  assumes "ds_ok 0x20000 d" and "1 \<le> unat psi" "unat psi \<le> 32763"
    and "set is \<subseteq> {..<unat psi}" and "{1..<unat psi - 1} \<subseteq> set is"
  shows "\<exists>d'. fill_with is rnd psi event d = Inr d' \<and> ds_ok 0x20000 d' \<and> ds_service d' = ds_service d \<and>
        ds_detid d' = ds_detid d \<and> ds_sourceid d' = ds_sourceid d \<and>
        chunk 20 (4 * unat psi) (b_mem (ds_buffer d')) = concat (map enc32 (server_words rnd (unat psi) event))"
proof -
  have "\<forall>i \<in> set is. 24 + 4 * i \<le> unat (0x20000 :: u32)" using assms(3,4) by auto
  with store_words [OF assms(1), of "is" rnd] obtain d1 where
    d1: "rfold (\<lambda>i. store_word i (rnd i)) is d = Inr d1" "stored_from 0x20000 (set is) rnd d d1" by auto
  have "ds_ok 0x20000 d1" using d1(2) by (simp add: stored_from_def)
  with store_word_stored [where n = "0x20000" and d = d1 and i = 0 and v = event] obtain d2 where
    d2: "store_word 0 event d1 = Inr d2" "stored_from 0x20000 {0} (\<lambda>_. event) d1 d2" by auto
  have "ds_ok 0x20000 d2" using d2(2) by (simp add: stored_from_def)
  moreover have "24 + 4 * (unat psi - 1) \<le> unat (0x20000 :: u32)" using assms(3) by auto
  ultimately obtain d3 where
    d3: "store_word (unat psi - 1) event d2 = Inr d3" "stored_from 0x20000 {unat psi - 1} (\<lambda>_. event) d2 d3"
    using store_word_stored [where n = "0x20000" and d = d2 and i = "unat psi - 1" and v = event] by auto
  have w: "word_at j d3 = enc32 (if j = 0 \<or> j = unat psi - 1 then event else rnd j)" if j: "j < unat psi" for j
  proof -
    have "j = 0 \<or> j = unat psi - 1 \<or> j \<in> {1..<unat psi - 1}" using j by auto
    then have "j = 0 \<or> j = unat psi - 1 \<or> j \<in> set is" using assms(5) by blast
    with j assms(3) d1(2) d2(2) d3(2) show ?thesis by (auto simp: stored_from_def)
  qed
  have len: "length (b_mem (ds_buffer d3)) = 0x20000" using d3(2) by (simp add: stored_from_def ds_ok_def)
  have "chunk 20 (4 * unat psi) (b_mem (ds_buffer d3)) = concat (map (\<lambda>j. word_at j d3) [0..<unat psi])"
    unfolding word_at_def by (rule payload_words) (use assms(3) len in auto)
  also have "map (\<lambda>j. word_at j d3) [0..<unat psi] = map enc32 (server_words rnd (unat psi) event)"
    unfolding server_words_def using w by simp
  finally have p: "chunk 20 (4 * unat psi) (b_mem (ds_buffer d3)) = concat (map enc32 (server_words rnd (unat psi) event))" .
  have "fill_with is rnd psi event d = Inr d3"
    using d1(1) d2(1) d3(1) by (simp add: fill_with_def words_before [OF assms(2)])
  moreover have "ds_ok 0x20000 d3 \<and> ds_service d3 = ds_service d \<and> ds_detid d3 = ds_detid d \<and> ds_sourceid d3 = ds_sourceid d"
    using d1(2) d2(2) d3(2) by (simp add: stored_from_def)
  ultimately show ?thesis using p by auto
qed

lemma last_word_outside:
  fixes psi :: u32
  assumes "\<not> (1 \<le> unat psi \<and> unat psi \<le> 32763)"
  shows "32762 < unat (psi - 1)"
proof (cases "psi = 0")
  case True
  have "(- 1 :: u32) = 0xFFFFFFFF" by simp
  then have "unat (- 1 :: u32) = 0xFFFFFFFF" by (simp only:) simp
  with True show ?thesis by simp
next
  case False
  then have "1 \<le> unat psi" by (simp add: Suc_le_eq unat_gt_0)
  with words_before [OF this] assms show ?thesis by linarith
qed

lemma fill_with_overruns:
  assumes "ds_ok 0x20000 d" and "\<not> (1 \<le> unat psi \<and> unat psi \<le> 32763)"
  shows "fill_with is rnd psi event d = Inl Out_Of_Bounds"
proof (cases "\<forall>i \<in> set is. 24 + 4 * i \<le> unat (0x20000 :: u32)")
  case False
  from store_words [OF assms(1), of "is" rnd, unfolded if_not_P [OF this]] show ?thesis
    unfolding fill_with_def by (simp only: rbind_simps)
next
  case True
  with store_words [OF assms(1), of "is" rnd] obtain d1 where
    d1: "rfold (\<lambda>i. store_word i (rnd i)) is d = Inr d1" "ds_ok 0x20000 d1" by (auto simp: stored_from_def)
  with store_word_stored [where n = "0x20000" and d = d1 and i = 0 and v = event] obtain d2 where
    d2: "store_word 0 event d1 = Inr d2" "ds_ok 0x20000 d2" by (auto simp: stored_from_def)
  have "\<not> 24 + 4 * unat (psi - 1) \<le> unat (0x20000 :: u32)" using last_word_outside [OF assms(2)] by simp
  with store_word_stored [OF d2(2), where i = "unat (psi - 1)" and v = event]
  have "store_word (unat (psi - 1)) event d2 = Inl Out_Of_Bounds" by simp
  with d1(1) d2(1) show ?thesis unfolding fill_with_def by (simp only: rbind_simps)
qed

lemma fill_payload_result:
  assumes "ds_ok 0x20000 d"
  shows "if 1 \<le> unat psi \<and> unat psi \<le> 32763
     then \<exists>d'. fill_payload rnd psi event d = Inr d' \<and> ds_ok 0x20000 d' \<and> ds_service d' = ds_service d \<and>
        ds_detid d' = ds_detid d \<and> ds_sourceid d' = ds_sourceid d \<and>
        chunk 20 (4 * unat psi) (b_mem (ds_buffer d')) = concat (map enc32 (server_words rnd (unat psi) event))
     else fill_payload rnd psi event d = Inl Out_Of_Bounds"
proof -
  have f: "fill_payload rnd psi event d = fill_with [1..<unat (psi - 1)] rnd psi event d"
    by (simp add: fill_payload_def fill_with_def)
  show ?thesis
  proof (cases "1 \<le> unat psi \<and> unat psi \<le> 32763")
    case True
    then have "set [1..<unat (psi - 1)] \<subseteq> {..<unat psi}" "{1..<unat psi - 1} \<subseteq> set [1..<unat (psi - 1)]"
      by (auto simp: words_before)
    from fill_with_fits [OF assms _ _ this] True show ?thesis unfolding f by simp
  next
    case False
    from fill_with_overruns [OF assms this] show ?thesis unfolding f if_not_P [OF False] .
  qed
qed

end
