(* ===== verification/Ex_Server_Spec.thy ===== *)
theory Ex_Server_Spec
  imports Ex_Server
begin

text \<open>
  What the threads of the example server publish, and that none of them outlives its data source.
\<close>

section \<open>One turn of a thread\<close>

lemma ds_ok_getters:
  assumes "ds_ok n d"
  shows "dataSourceId (ds_buffer d) = Inr (ds_sourceid d)" and "detectorId (ds_buffer d) = Inr (ds_detid d)"
  using assms by (simp_all add: ds_ok_def getter_defs)

lemma words_bytes:
  fixes psi :: u32
  assumes "unat psi \<le> 32763"
  shows "unat (psi * 4) = 4 * unat psi"
proof -
  have "psi * 4 = word_of_nat (4 * unat psi)" by (simp add: mult.commute)
  moreover have "4 * unat psi < 2 ^ 32" using assms by simp
  ultimately show ?thesis by (simp only: unat_of_nat_u32)
qed

definition server_frame :: "(nat \<Rightarrow> u32) \<Rightarrow> datasource \<Rightarrow> exServer \<Rightarrow> frame" where
  "server_frame rnd d x =
     \<lparr>f_det = ds_detid d, f_src = ds_sourceid d, f_evt = xs_event x, f_bx = ucast (xs_bx x),
      f_payload = concat (map enc32 (server_words rnd (unat (ds_sourceid d)) (xs_event x)))\<rparr>"

definition counted :: "u32 \<Rightarrow> u32 \<Rightarrow> (u32, u32) smap \<Rightarrow> (u32, u32) smap" where
  "counted key event stat = (case map_of stat key of None \<Rightarrow> stat | Some _ \<Rightarrow> map_assign key event stat)"

lemma readdata_turn:
  assumes "xs_running x" and "xs_event x \<noteq> seen" and "i < length (xs_sources x)" and "ds_ok 0x20000 (xs_sources x ! i)"
  shows "if 1 \<le> unat (ds_sourceid (xs_sources x ! i)) \<and> unat (ds_sourceid (xs_sources x ! i)) \<le> 32763
     then \<exists>d'. readdata rnd i seen x = Inr (xs_event x, x\<lparr>xs_sources := (xs_sources x)[i := d'],
            xs_stat := counted (stat_key (ds_detid d') (ds_sourceid d')) (xs_event x) (xs_stat x)\<rparr>) \<and>
        ds_ok 0x20000 d' \<and> ds_detid d' = ds_detid (xs_sources x ! i) \<and> ds_sourceid d' = ds_sourceid (xs_sources x ! i) \<and>
        sv_sent (ds_service d') = sv_sent (ds_service (xs_sources x ! i)) @ [frame_bytes (server_frame rnd (xs_sources x ! i) x)]
     else readdata rnd i seen x = Inl Out_Of_Bounds"
proof -
  let ?d = "xs_sources x ! i"
  let ?psi = "ds_sourceid ?d"
  note g = ds_ok_getters [OF assms(4)]
  note fill = fill_payload_result [OF assms(4), of ?psi rnd "xs_event x"]
  show ?thesis
  proof (cases "1 \<le> unat ?psi \<and> unat ?psi \<le> 32763")
    case False
    from fill have "fill_payload rnd ?psi (xs_event x) ?d = Inl Out_Of_Bounds" unfolding if_not_P [OF False] .
    then have "readdata rnd i seen x = Inl Out_Of_Bounds"
      using assms(1-3) by (simp add: readdata_def Let_def g)
    then show ?thesis unfolding if_not_P [OF False] .
  next
    case True
    with fill obtain d1 where d1: "fill_payload rnd ?psi (xs_event x) ?d = Inr d1" "ds_ok 0x20000 d1"
      "ds_service d1 = ds_service ?d" "ds_detid d1 = ds_detid ?d" "ds_sourceid d1 = ?psi"
      "chunk 20 (4 * unat ?psi) (b_mem (ds_buffer d1)) = concat (map enc32 (server_words rnd (unat ?psi) (xs_event x)))"
      by auto
    have n: "unat (?psi * 4) = 4 * unat ?psi" using True by (intro words_bytes) auto
    have "unat (?psi * 4) + 20 \<le> unat (0x20000 :: u32)" using True by (simp add: n)
    from publish_block [OF d1(2) this, of "xs_event x" "ucast (xs_bx x)"] obtain d2 where
      d2: "publish (xs_event x) (ucast (xs_bx x)) (?psi * 4) d1 = Inr d2" "ds_ok 0x20000 d2"
      "ds_detid d2 = ds_detid ?d" "ds_sourceid d2 = ?psi"
      "sv_sent (ds_service d2) = sv_sent (ds_service ?d) @ [frame_bytes (server_frame rnd ?d x)]"
      unfolding n d1(3-6) server_frame_def by blast
    have "readdata rnd i seen x = Inr (xs_event x, x\<lparr>xs_sources := (xs_sources x)[i := d2],
            xs_stat := counted (stat_key (ds_detid d2) (ds_sourceid d2)) (xs_event x) (xs_stat x)\<rparr>)"
      using assms(1-3) d1(1) d2(1) by (simp add: readdata_def Let_def g ds_ok_getters [OF d2(2)] counted_def)
    with d2(2-5) show ?thesis unfolding if_P [OF True] by (intro exI [of _ d2] conjI)
  qed
qed

section \<open>The machine\<close>

definition server_ok :: "string \<Rightarrow> exServer \<Rightarrow> bool" where
  "server_ok st x \<longleftrightarrow> (xs_running x \<longleftrightarrow> st = ''RUNNING'') \<and> (\<not> xs_running x \<longrightarrow> xs_threads x = []) \<and>
     (\<forall>(i, seen) \<in> set (xs_threads x). i < length (xs_sources x)) \<and> (\<forall>d \<in> set (xs_sources x). ds_ok 0x20000 d)"

text \<open>Between commands the event number grows, the detector is set, and threads take a turn.\<close>

inductive server_steps :: "(nat \<Rightarrow> nat \<Rightarrow> u32) \<Rightarrow> exServer \<Rightarrow> exServer \<Rightarrow> bool" for rnd where
  increment: "server_steps rnd x (incrementEvent x)"
| detector: "server_steps rnd x (setDetectorId_server i x)"
| turn: "\<lbrakk>t < length (xs_threads x); xs_threads x ! t = (i, seen); readdata (rnd k) i seen x = Inr (seen', x')\<rbrakk>
    \<Longrightarrow> server_steps rnd x (x'\<lparr>xs_threads := (xs_threads x)[t := (i, seen')]\<rparr>)"

definition server_transitions :: "'j jsonlib \<Rightarrow> (nat \<Rightarrow> byte) \<Rightarrow> ('j, exServer) transition_set" where
  "server_transitions J junk =
     {(''HALT'', ''CONFIGURED'', ''CREATED'', xs_halt J), (''HALT'', ''RUNNING'', ''CREATED'', xs_halt J),
      (''STOP'', ''RUNNING'', ''CONFIGURED'', xs_stop J), (''START'', ''CONFIGURED'', ''RUNNING'', xs_start J),
      (''CONFIGURE'', ''CONFIGURED'', ''CONFIGURED'', xs_configure J junk),
      (''CONFIGURE'', ''CREATED'', ''CONFIGURED'', xs_configure J junk)}"

lemma server_table_from: "table_from (xs_table J junk (fsmweb_new n)) (server_transitions J junk)"
  unfolding xs_table_def Let_def foldl.simps server_transitions_def by (intro table_from_intros)

lemma server_pages_from: "pages_from (xs_table J junk (fsmweb_new n)) {xs_list J, xs_download J}"
  unfolding xs_table_def Let_def foldl.simps by (intro pages_from_intros) simp_all

lemma server_created: "f_state (xs_table J junk (fsmweb_new n)) = ''CREATED''"
  unfolding xs_table_def Let_def foldl.simps by (simp add: table_lookup)

lemma new_source_ok:
  assumes "new_source J junk det b (v, x) = Inr (v', x')" and "\<forall>d \<in> set (xs_sources x). ds_ok 0x20000 d"
  shows "(\<forall>d \<in> set (xs_sources x'). ds_ok 0x20000 d) \<and> xs_running x' = xs_running x \<and> xs_threads x' = xs_threads x"
proof -
  from assms(1) obtain sid ds where ds: "datasource_new (word_of_int det) (word_of_int sid) 0x20000 junk = Inr ds"
    "xs_sources x' = xs_sources x @ [ds]" "xs_running x' = xs_running x" "xs_threads x' = xs_threads x"
    by (auto simp: new_source_def Let_def)
  have "20 \<le> unat (0x20000 :: u32)" by simp
  from ds_ok_new [OF this, of "word_of_int det" "word_of_int sid" junk] ds(1) have "ds_ok 0x20000 ds" by auto
  with ds(2-4) assms(2) show ?thesis by auto
qed

lemma configure_keeps:
  assumes "xs_configure J junk m x = Inr (m', x')" and "\<not> xs_running x" and "xs_threads x = []"
  shows "(\<forall>d \<in> set (xs_sources x'). ds_ok 0x20000 d) \<and> \<not> xs_running x' \<and> xs_threads x' = []"
proof -
  from assms(1) obtain det bs v where
    r: "rfold (new_source J junk det) bs (j_null J, x\<lparr>xs_sources := [], xs_stat := []\<rparr>) = Inr (v, x')"
    by (auto simp: xs_configure_def)
  let ?P = "\<lambda>(v :: 'a, y). (\<forall>d \<in> set (xs_sources y). ds_ok 0x20000 d) \<and> \<not> xs_running y \<and> xs_threads y = []"
  have "?P (v, x')"
  proof (rule rfold_invariant [where P = ?P, OF r])
    show "?P (j_null J, x\<lparr>xs_sources := [], xs_stat := []\<rparr>)" using assms(2,3) by simp
    fix b s t
    assume s: "?P s" and st: "new_source J junk det b s = Inr t"
    obtain v1 y1 v2 y2 where e: "s = (v1, y1)" "t = (v2, y2)" by (cases s; cases t)
    from new_source_ok [OF st [unfolded e]] s show "?P t" by (simp add: e)
  qed
  then show ?thesis by simp
qed

lemma transition_keeps_server:
  assumes "(c, st, e, g) \<in> server_transitions J junk" and "g m x = Inr (m', x')" and "server_ok st x"
  shows "server_ok e x'"
  using assms(1) unfolding server_transitions_def
proof (elim insertE emptyE Pair_inject)
  assume "st = ''CONFIGURED''" "e = ''CREATED''" "g = xs_halt J"
  with assms(2,3) show ?thesis by (auto simp: xs_halt_def server_ok_def)
next
  assume "st = ''RUNNING''" "e = ''CREATED''" "g = xs_halt J"
  with assms(2,3) show ?thesis by (auto simp: xs_halt_def xs_stop_def server_ok_def)
next
  assume "st = ''RUNNING''" "e = ''CONFIGURED''" "g = xs_stop J"
  with assms(2,3) show ?thesis by (auto simp: xs_stop_def server_ok_def)
next
  assume "st = ''CONFIGURED''" "e = ''RUNNING''" "g = xs_start J"
  with assms(2,3) show ?thesis by (auto simp: xs_start_def server_ok_def)
next
  assume "st = ''CONFIGURED''" "e = ''CONFIGURED''" "g = xs_configure J junk"
  with configure_keeps [of J junk m x m' x'] assms(2,3) show ?thesis by (simp add: server_ok_def)
next
  assume "st = ''CREATED''" "e = ''CONFIGURED''" "g = xs_configure J junk"
  with configure_keeps [of J junk m x m' x'] assms(2,3) show ?thesis by (simp add: server_ok_def)
qed

lemma readdata_keeps:
  assumes "readdata rnd i seen x = Inr (seen', x')" and "\<forall>d \<in> set (xs_sources x). ds_ok 0x20000 d" and "i < length (xs_sources x)"
  shows "(\<forall>d \<in> set (xs_sources x'). ds_ok 0x20000 d) \<and> length (xs_sources x') = length (xs_sources x) \<and>
     xs_running x' = xs_running x \<and> xs_threads x' = xs_threads x"
proof (cases "xs_running x \<and> xs_event x \<noteq> seen")
  case False
  with assms show ?thesis by (auto simp: readdata_def)
next
  case True
  have d: "ds_ok 0x20000 (xs_sources x ! i)" using assms(2,3) by simp
  from True readdata_turn [OF _ _ assms(3) d, of seen rnd] assms(1) obtain d' where
    "ds_ok 0x20000 d'" "\<exists>s. x' = x\<lparr>xs_sources := (xs_sources x)[i := d'], xs_stat := s\<rparr>"
    by (auto split: if_splits)
  with assms(2) set_update_subset_insert [of "xs_sources x" i d'] show ?thesis by auto
qed

lemma steps_keep_server:
  assumes "server_steps rnd x x'" and "server_ok st x"
  shows "server_ok st x'"
  using assms
proof (induction rule: server_steps.induct)
  case (turn t x i seen k seen' x')
  then have mem: "(i, seen) \<in> set (xs_threads x)" by (metis nth_mem)
  with turn.prems have i: "i < length (xs_sources x)" by (auto simp: server_ok_def)
  have d: "\<forall>d \<in> set (xs_sources x). ds_ok 0x20000 d" using turn.prems by (simp add: server_ok_def)
  note k = readdata_keeps [OF turn.hyps(3) d i]
  have "set ((xs_threads x)[t := (i, seen')]) \<subseteq> insert (i, seen') (set (xs_threads x))"
    by (rule set_update_subset_insert)
  with turn.prems k i show ?case by (auto simp: server_ok_def)
qed (simp_all add: server_ok_def incrementEvent_def setDetectorId_server_def)

interpretation servers: application J "server_transitions J junk" "{xs_list J, xs_download J}" "server_steps rnd" server_ok
  for J junk rnd
proof
  show "server_ok e s'" if "(c, st, e, g) \<in> server_transitions J junk" and "g m s = Inr (m', s')"
    and "server_ok st s" for c st e g m s m' s'
    by (rule transition_keeps_server [OF that])
  show "server_ok st s'" if "h \<in> {xs_list J, xs_download J}" and "h rq st rsp s = Inr (r, s')" and "server_ok st s"
    for h rq st rsp s r s'
    using that by (auto simp: xs_list_def xs_download_def)
  show "server_ok st s'" if "server_steps rnd s s'" and "server_ok st s" for s s' st
    by (rule steps_keep_server [OF that])
qed

section \<open>Properties\<close>

text \<open>
  C18: no thread outlives its data source: whatever commands, page requests, event numbers and
  turns of threads came before, threads exist only while the machine is RUNNING and each has its
  source; a turn for a new event number publishes exactly one frame, with the current numbers
  and a payload of as many words as the number of the source, the first and the last of which
  are the event number; it overruns the buffer exactly when the number of the source is 0 or
  more than 32763.
\<close>

theorem threads_publish:
  assumes "json_ok J" and "(web_step J (server_steps rnd))\<^sup>*\<^sup>* (exServer_new J junk h n port) (f, x)"
    and "(i, seen) \<in> set (xs_threads x)"
  shows "f_state f = ''RUNNING'' \<and> i < length (xs_sources x) \<and>
     (xs_event x \<noteq> seen \<longrightarrow>
       (let d = xs_sources x ! i in
        if 1 \<le> unat (ds_sourceid d) \<and> unat (ds_sourceid d) \<le> 32763
        then \<exists>x'. readdata w i seen x = Inr (xs_event x, x') \<and>
          sv_sent (ds_service (xs_sources x' ! i)) = sv_sent (ds_service d) @ [frame_bytes (server_frame w d x)]
        else readdata w i seen x = Inl Out_Of_Bounds))"
proof -
  have new: "servers.served J junk (exServer_new J junk h n port)"
    using server_table_from [of J junk n] server_pages_from [of J junk n] server_created [of J junk n]
    by (simp add: servers.served_def exServer_new_def tables_start server_ok_def)
  from servers.reachable [OF assms(1,2) new] have ok: "server_ok (f_state f) x" by (simp add: servers.served_def)
  with assms(3) have run: "f_state f = ''RUNNING''" "xs_running x" and i: "i < length (xs_sources x)"
    by (auto simp: server_ok_def)
  have d: "ds_ok 0x20000 (xs_sources x ! i)" using ok i by (simp add: server_ok_def)
  from readdata_turn [OF run(2) _ i d, of seen w] run(1) i show ?thesis
    by (auto simp: Let_def split: if_splits)
qed

section \<open>A run\<close>

lemma new_sources:
  assumes "json_ok J" and "map (j_asInt J) books = map Inr sids" and "v = j_null J \<or> j_elems J v \<noteq> []"
  shows "\<exists>v' ds st. rfold (new_source J junk det) books (v, x) = Inr (v', x\<lparr>xs_sources := xs_sources x @ ds, xs_stat := st\<rparr>) \<and>
     map ds_sourceid ds = map word_of_int sids \<and>
     (\<forall>d \<in> set ds. ds_ok 0x20000 d \<and> ds_detid d = word_of_int det \<and> sv_sent (ds_service d) = [])"
  using assms(2,3)
proof (induction books arbitrary: sids v x)
  case Nil
  then show ?case by (intro exI [of _ v] exI [of _ "[]"] exI [of _ "xs_stat x"]) simp
next
  case (Cons b books)
  then obtain s sids' where s: "sids = s # sids'" "j_asInt J b = Inr s" "map (j_asInt J) books = map Inr sids'"
    by (cases sids) auto
  have "20 \<le> unat (0x20000 :: u32)" by simp
  from ds_ok_new [OF this, of "word_of_int det" "word_of_int s" junk] obtain d where
    d: "datasource_new (word_of_int det) (word_of_int s) 0x20000 junk = Inr d" "ds_ok 0x20000 d" "ds_detid d = word_of_int det"
      "ds_sourceid d = word_of_int s" "sv_sent (ds_service d) = []" by blast
  let ?k = "stat_key (word_of_int det) (word_of_int s)"
  from json_append [OF assms(1) Cons.prems(2), of "j_int J (sint ?k)"] obtain v1 where
    v1: "j_append J v (j_int J (sint ?k)) = Inr v1" "j_elems J v1 \<noteq> []" by auto
  let ?x = "x\<lparr>xs_sources := xs_sources x @ [d], xs_stat := map_insert ?k 0 (xs_stat x)\<rparr>"
  have "new_source J junk det b (v, x) = Inr (v1, ?x)"
    using s(2) v1(1) d(1) by (simp add: new_source_def Let_def)
  moreover from Cons.IH [OF s(3) disjI2 [OF v1(2)], of ?x] obtain v' ds st where
    "rfold (new_source J junk det) books (v1, ?x) = Inr (v', ?x\<lparr>xs_sources := xs_sources ?x @ ds, xs_stat := st\<rparr>)"
    "map ds_sourceid ds = map word_of_int sids'"
    "\<forall>d \<in> set ds. ds_ok 0x20000 d \<and> ds_detid d = word_of_int det \<and> sv_sent (ds_service d) = []" by blast
  ultimately show ?case using d(2-5) s(1)
    by (intro exI [of _ v'] exI [of _ "d # ds"] exI [of _ st]) simp
qed

text \<open>A server that was configured and started: new sources, one thread each that has seen nothing.\<close>

definition server_started :: "int \<Rightarrow> int list \<Rightarrow> exServer \<Rightarrow> bool" where
  "server_started det sids x \<longleftrightarrow> xs_running x \<and> xs_event x = 0 \<and> xs_bx x = 0 \<and>
     map ds_sourceid (xs_sources x) = map word_of_int sids \<and>
     (\<forall>d \<in> set (xs_sources x). ds_ok 0x20000 d \<and> ds_detid d = word_of_int det \<and> sv_sent (ds_service d) = []) \<and>
     xs_threads x = map (\<lambda>i. (i, 0)) [0..<length (xs_sources x)]"

lemma server_run:
  assumes "json_ok J" and "says J m1 ''CONFIGURE'' c1" and "j_object J c1" and "content_int J ''detid'' c1 = Inr det"
    and "j_get J ''sourceid'' c1 = Inr books" and "map (j_asInt J) (j_elems J books) = map Inr sids"
    and "says J m2 ''START'' c2"
  shows "\<exists>f x. web_commands J [m1, m2] (exServer_new J junk h n port) = Inr (f, x) \<and> f_state f = ''RUNNING'' \<and>
     server_started det sids x"
proof -
  define x0 where "x0 = snd (exServer_new J junk h n port)"
  have x0: "xs_sources x0 = []" "xs_threads x0 = []" "xs_bx x0 = 0" by (simp_all add: x0_def exServer_new_def)
  let ?t = "xs_table J junk (fsmweb_new n)"
  from new_sources [OF assms(1,6), of "j_null J" junk det "x0\<lparr>xs_sources := [], xs_stat := []\<rparr>"] obtain v ds st where
    x1: "rfold (new_source J junk det) (j_elems J books) (j_null J, x0\<lparr>xs_sources := [], xs_stat := []\<rparr>) =
        Inr (v, x0\<lparr>xs_sources := ds, xs_stat := st\<rparr>)"
    and ds: "map ds_sourceid ds = map word_of_int sids"
      "\<forall>d \<in> set ds. ds_ok 0x20000 d \<and> ds_detid d = word_of_int det \<and> sv_sent (ds_service d) = []" by auto
  let ?x1 = "x0\<lparr>xs_sources := ds, xs_stat := st\<rparr>"
  obtain m1' ct' where m1': "msg_setAnswer J v m1 = Inr m1'" "says J m1' ''CONFIGURE'' ct'"
    using setAnswer_says [OF assms(1,2), of v] assms(3) by auto
  have cf: "xs_configure J junk m1 x0 = Inr (m1', ?x1)"
    using x1 m1'(1) assms(4,5) by (simp add: xs_configure_def says_command [OF assms(2)] says_content [OF assms(2)])
  let ?x2 = "?x1\<lparr>xs_event := 0, xs_running := True, xs_threads := map (\<lambda>i. (i, 0)) [0..<length ds]\<rparr>"
  have start: "xs_start J m2 ?x1 = Inr (m2, ?x2)" by (simp add: xs_start_def says_command [OF assms(7)] x0)
  have "transition (fsmweb_start h port ?t) ''CONFIGURE'' (f_state (fsmweb_start h port ?t)) =
      Some \<lparr>tr_istate = ''CREATED'', tr_fstate = ''CONFIGURED'', tr_callback = xs_configure J junk\<rparr>"
    unfolding xs_table_def Let_def foldl.simps by (simp add: tables_start(3) table_lookup)
  from web_commands_step [OF assms(1,2) _ this cf m1'(2), of "[m2]"] obtain f1 where
    f1: "web_commands J [m1, m2] (fsmweb_start h port ?t, x0) = web_commands J [m2] (f1, ?x1)" "f_state f1 = ''CONFIGURED''"
      "transition f1 = transition ?t" by auto
  have "transition f1 ''START'' (f_state f1) =
      Some \<lparr>tr_istate = ''CONFIGURED'', tr_fstate = ''RUNNING'', tr_callback = xs_start J\<rparr>"
    unfolding f1(2,3) xs_table_def Let_def foldl.simps by (simp add: table_lookup)
  from web_commands_step [OF assms(1,7) _ this start assms(7), of "[]"] obtain f2 where
    f2: "web_commands J [m2] (f1, ?x1) = Inr (f2, ?x2)" "f_state f2 = ''RUNNING''" by auto
  with f1(1) ds x0(3) show ?thesis
    by (intro exI [of _ f2] exI [of _ ?x2]) (simp add: server_started_def exServer_new_def x0_def)
qed

theorem threads_publish_witness:
  "\<exists>x x'. xs_sources x \<noteq> [] \<and> readdata (\<lambda>_. 5) 0 0 x = Inr (1, x') \<and>
     sv_sent (ds_service (xs_sources x' ! 0)) = sv_sent (ds_service (xs_sources x ! 0)) @
       [frame_bytes (server_frame (\<lambda>_. 5) (xs_sources x ! 0) x)]"
proof -
  let ?kvs = "[(''detid'', text_int 100), (''sourceid'', CHR ''A'' # put_texts [text_int 23])]"
  have c: "content_int text_json ''detid'' (object ?kvs) = Inr 100"
    "j_get text_json ''sourceid'' (object ?kvs) = Inr (CHR ''A'' # put_texts [text_int 23])"
    "map (j_asInt text_json) (j_elems text_json (CHR ''A'' # put_texts [text_int 23])) = map Inr [23]"
    by (simp_all add: content_int_def text_members)
  from server_run [OF text_json_ok demo_command_says c demo_command_says(1) [where kvs = "[]"],
      where junk = "\<lambda>_. 0" and h = "''lyon''" and n = "''EXS''" and port = 46000]
  obtain f x where r: "web_commands text_json [demo_command ''CONFIGURE'' ?kvs, demo_command ''START'' []]
      (exServer_new text_json (\<lambda>_. 0) ''lyon'' ''EXS'' 46000) = Inr (f, x)"
    "server_started 100 [23] x" by auto
  then have x: "map ds_sourceid (xs_sources x) = [23]" "xs_event x = 0" "(0, 0) \<in> set (xs_threads x)"
    by (auto simp: server_started_def dest: arg_cong [of _ _ length])
  let ?x = "incrementEvent x"
  from web_commands_reach [OF r(1)] have "(web_step text_json (server_steps (\<lambda>_ _. 5)))\<^sup>*\<^sup>*
      (exServer_new text_json (\<lambda>_. 0) ''lyon'' ''EXS'' 46000) (f, ?x)"
    by (rule rtranclp.rtrancl_into_rtrancl) (intro web_step.other server_steps.increment)
  moreover have "(0, 0) \<in> set (xs_threads ?x)" using x(3) by (simp add: incrementEvent_def)
  ultimately have "0 < length (xs_sources ?x)" and p: "xs_event ?x \<noteq> 0 \<longrightarrow>
       (let d = xs_sources ?x ! 0 in
        if 1 \<le> unat (ds_sourceid d) \<and> unat (ds_sourceid d) \<le> 32763
        then \<exists>x'. readdata (\<lambda>_. 5) 0 0 ?x = Inr (xs_event ?x, x') \<and>
          sv_sent (ds_service (xs_sources x' ! 0)) = sv_sent (ds_service d) @ [frame_bytes (server_frame (\<lambda>_. 5) d ?x)]
        else readdata (\<lambda>_. 5) 0 0 ?x = Inl Out_Of_Bounds)"
    using threads_publish [OF text_json_ok] by blast+
  moreover have "xs_event ?x = 1" "xs_sources ?x = xs_sources x" using x(2) by (simp_all add: incrementEvent_def)
  moreover have "ds_sourceid (xs_sources x ! 0) = 23" using x(1) by (cases "xs_sources x") auto
  ultimately show ?thesis by - (rule exI [of _ ?x], auto simp: Let_def)
qed

end
