(* ===== verification/Delivery.thy ===== *)
theory Delivery
  imports Ex_Builder_Spec Ex_Server_Spec "HOL-Library.Multiset"
begin

text \<open>
  From the sources to the processors: when the sockets of a builder have received one fragment
  per source of an event, in whatever order, the next scan hands exactly that event on.
\<close>

section \<open>A batch of updates\<close>

definition update_socket :: "frame list \<Rightarrow> nat \<Rightarrow> daq \<Rightarrow> daq res" where
  "update_socket fs i c =
     rbind (infoHandler (frame_bytes (fs ! i)) (q_socks c ! i) (e_world (q_env c))) (\<lambda>(sk, w).
     Inr (c\<lparr>q_socks := (q_socks c)[i := sk], q_env := (q_env c)\<lparr>e_world := w\<rparr>\<rparr>))"

text \<open>What the sockets are ready for: every frame has a socket with the directory and room for it.\<close>

definition sockets_ready :: "string \<Rightarrow> frame list \<Rightarrow> daq \<Rightarrow> bool" where
  "sockets_ready memdir fs c \<longleftrightarrow> length (q_socks c) = length fs \<and>
     (\<forall>i < length fs. sk_memdir (q_socks c ! i) = memdir \<and> f_evt (fs ! i) \<noteq> 0 \<and> short (fs ! i) \<and>
        length (frame_bytes (fs ! i)) \<le> length (b_mem (sk_buffer (q_socks c ! i))))"

text \<open>What a batch of updates leaves: the driver as it was, and the fragments in the directory.\<close>

definition batch_stored :: "string \<Rightarrow> frame list \<Rightarrow> nat set \<Rightarrow> daq \<Rightarrow> daq \<Rightarrow> bool" where
  "batch_stored memdir fs A c c' \<longleftrightarrow> q_driver c' = q_driver c \<and> e_log (q_env c') = e_log (q_env c) \<and>
     (\<forall>i \<in> A. spool_view memdir (e_world (q_env c')) (frame_name (fs ! i)) = Some (frame_bytes (fs ! i))) \<and>
     (\<forall>n. n \<notin> (\<lambda>i. frame_name (fs ! i)) ` A \<longrightarrow>
        spool_view memdir (e_world (q_env c')) n = spool_view memdir (e_world (q_env c)) n \<and>
        content (e_world (q_env c')) (data_path memdir n) = content (e_world (q_env c)) (data_path memdir n))"

lemma update_stores:
  assumes inv: "daq_inv Z memdir ptrs n c" and ready: "sockets_ready memdir fs c" and i: "i < length fs"
    and new: "content (e_world (q_env c)) (data_path memdir (frame_name (fs ! i))) = []"
  shows "\<exists>c'. update_socket fs i c = Inr c' \<and> daq_inv Z memdir ptrs n c' \<and> sockets_ready memdir fs c' \<and>
     batch_stored memdir fs {i} c c'"
proof -
  let ?f = "fs ! i" and ?sk = "q_socks c ! i" and ?w = "e_world (q_env c)"
  have r: "i < length (q_socks c)" "sk_memdir ?sk = memdir" "f_evt ?f \<noteq> 0" "short ?f"
    "length (frame_bytes ?f) \<le> length (b_mem (sk_buffer ?sk))" using ready i by (simp_all add: sockets_ready_def)
  from update_keeps_inv [OF inv r(1,4,5)] obtain sk w where
    u: "infoHandler (frame_bytes ?f) ?sk ?w = Inr (sk, w)"
    "daq_inv Z memdir ptrs n (c\<lparr>q_socks := (q_socks c)[i := sk], q_env := (q_env c)\<lparr>e_world := w\<rparr>\<rparr>)" by blast
  have plain: "plain_spool memdir ?w" "4 < length memdir" using inv by (simp_all add: daq_inv_def Let_def)
  have "20 + length (f_payload ?f) \<le> length (b_mem (sk_buffer ?sk))" using r(5) by simp
  from infoHandler_stores [OF plain(1) r(4,3) plain(2) r(2) this] u(1)
  have sk: "sk = ?sk\<lparr>sk_count := sk_count ?sk + 1, sk_buffer := received ?f (sk_buffer ?sk)\<rparr>"
    and w: "spool_view memdir w = (spool_view memdir ?w)(frame_name ?f \<mapsto> frame_bytes ?f)"
      "\<forall>m. m \<noteq> frame_name ?f \<longrightarrow> content w (data_path memdir m) = content ?w (data_path memdir m)"
    using new by (auto simp: stored_bytes_def)
  have len: "length (b_mem (sk_buffer sk)) = length (b_mem (sk_buffer ?sk))"
    using r(5) by (simp add: sk received_def)
  let ?c = "c\<lparr>q_socks := (q_socks c)[i := sk], q_env := (q_env c)\<lparr>e_world := w\<rparr>\<rparr>"
  have "sockets_ready memdir fs ?c" using ready i len by (auto simp: sockets_ready_def nth_list_update sk)
  moreover have "batch_stored memdir fs {i} c ?c" using w by (simp add: batch_stored_def)
  moreover have "update_socket fs i c = Inr ?c" using u(1) by (simp add: update_socket_def)
  ultimately show ?thesis using u(2) by blast
qed

lemma updates_store:
  assumes "daq_inv Z memdir ptrs n c" and "sockets_ready memdir fs c" and "distinct (map frame_name fs)"
    and "distinct order" and "set order \<subseteq> {..<length fs}"
    and "\<forall>i \<in> set order. content (e_world (q_env c)) (data_path memdir (frame_name (fs ! i))) = []"
  shows "\<exists>c'. rfold (update_socket fs) order c = Inr c' \<and> daq_inv Z memdir ptrs n c' \<and> batch_stored memdir fs (set order) c c'"
  using assms(1,2,4-6)
proof (induction order arbitrary: c)
  case Nil
  then show ?case by (simp add: batch_stored_def)
next
  case (Cons i order)
  from Cons.prems have i: "i < length fs" "content (e_world (q_env c)) (data_path memdir (frame_name (fs ! i))) = []"
    by simp_all
  from update_stores [OF Cons.prems(1,2) i] obtain c1 where
    c1: "update_socket fs i c = Inr c1" "daq_inv Z memdir ptrs n c1" "sockets_ready memdir fs c1"
    "batch_stored memdir fs {i} c c1" by blast
  have other: "frame_name (fs ! j) \<noteq> frame_name (fs ! i)" if "j \<in> set order" for j
  proof -
    have "j < length fs" "j \<noteq> i" using that Cons.prems(3,4) by auto
    with i(1) assms(3) show ?thesis by (metis length_map nth_eq_iff_index_eq nth_map)
  qed
  then have "\<forall>j \<in> set order. content (e_world (q_env c1)) (data_path memdir (frame_name (fs ! j))) = []"
    using Cons.prems(5) c1(4) by (simp add: batch_stored_def)
  from Cons.IH [OF c1(2,3) _ _ this] Cons.prems(3,4) obtain c2 where
    c2: "rfold (update_socket fs) order c1 = Inr c2" "daq_inv Z memdir ptrs n c2" "batch_stored memdir fs (set order) c1 c2"
    by auto
  have "batch_stored memdir fs (set (i # order)) c c2"
  proof -
    have "frame_name (fs ! i) \<notin> (\<lambda>i. frame_name (fs ! i)) ` set order" using other by (metis imageE)
    then have "spool_view memdir (e_world (q_env c2)) (frame_name (fs ! i)) = Some (frame_bytes (fs ! i))"
      using c1(4) c2(3) by (simp add: batch_stored_def)
    with c1(4) c2(3) show ?thesis by (simp add: batch_stored_def)
  qed
  with c1(1) c2(1,2) show ?case by auto
qed

section \<open>One full set\<close>

lemma build_full_set:
  assumes "fs \<noteq> []" and "\<forall>f \<in> set fs. frag_key f = k" and "length (g k) + length fs = n" and "k \<noteq> 0"
  shows "build n g fs = ([(k, g k @ fs)], g(k := []))"
  using assms(1-3)
proof (induction fs arbitrary: g)
  case Nil
  then show ?case by simp
next
  case (Cons f fs)
  show ?case
  proof (cases "fs = []")
    case True
    with Cons.prems assms(4) show ?thesis by (simp add: Let_def fun_eq_iff)
  next
    case False
    let ?g = "g(k := g k @ [f])"
    have f: "frag_key f = k" and all: "\<forall>f \<in> set fs. frag_key f = k" using Cons.prems(2) by simp_all
    have "length (g k @ [f]) \<noteq> n" using Cons.prems(3) False by (cases fs) auto
    then have "build n g (f # fs) = build n ?g fs" by (simp only: build.simps f Let_def) simp
    also have "\<dots> = ([(k, ?g k @ fs)], ?g(k := []))" using Cons.prems(3) by (intro Cons.IH False all) simp
    also have "\<dots> = ([(k, g k @ f # fs)], g(k := []))" by (simp add: fun_eq_iff)
    finally show ?thesis .
  qed
qed

lemma mset_listing:
  assumes "distinct ns" and "distinct (map h fs)" and "set ns = h ` set fs" and "\<forall>f \<in> set fs. p (h f) = f"
  shows "mset (map p ns) = mset fs"
proof -
  have "mset ns = mset (map h fs)" using assms(1-3) by (intro set_eq_iff_mset_eq_distinct [THEN iffD1]) simp_all
  then have "mset (map p ns) = mset (map p (map h fs))" by (metis mset_map)
  also have "map p (map h fs) = fs" using assms(4) by (simp add: map_idI)
  finally show ?thesis .
qed

lemma full_set_arrives:
  assumes "daq_inv Z memdir ptrs n c" and "sockets_ready memdir fs c" and "length fs = n"
    and "d_eventMap (q_driver c) = []" and "shm_ls memdir (e_world (q_env c)) = []"
    and "\<forall>f \<in> set fs. content (e_world (q_env c)) (data_path memdir (frame_name f)) = []"
    and "distinct (map frame_name fs)" and "\<forall>f \<in> set fs. f_evt f = e \<and> length (frame_bytes f) \<le> 0x20000"
    and "distinct order" and "set order = {..<length fs}"
  shows "\<exists>c' D en v. rfold (update_socket fs) order c = Inr c' \<and>
     scan_pass (processor_ops Z hjunk) junk (q_driver c') (q_env c') = Inr (D, en) \<and>
     abs_log (e_log en) = abs_log (e_log (q_env c)) @ [(ucast e, v)] \<and> mset v = mset fs \<and>
     shm_ls memdir (e_world en) = []"
proof -
  have "\<forall>i \<in> set order. content (e_world (q_env c)) (data_path memdir (frame_name (fs ! i))) = []"
    using assms(6,10) by simp
  from updates_store [OF assms(1,2,7,9) _ this] assms(10) obtain c' where
    c': "rfold (update_socket fs) order c = Inr c'" "daq_inv Z memdir ptrs n c'" "batch_stored memdir fs {..<length fs} c c'"
    by auto
  let ?w = "e_world (q_env c')" and ?ls = "shm_ls memdir (e_world (q_env c'))"
  have sp: "spool_ok memdir (e_world (q_env c))" "spool_ok memdir ?w" and n: "0 < n"
    using assms(1) c'(2) by (simp_all add: daq_inv_def Let_def plain_spool_def)
  have names: "(\<lambda>i. frame_name (fs ! i)) ` {..<length fs} = frame_name ` set fs"
    unfolding image_image [symmetric, of frame_name "(!) fs"] by (simp add: set_conv_nth image_Collect lessThan_def)
  have "spool_view memdir (e_world (q_env c)) = Map.empty"
    using shm_ls_sorted(1) [OF sp(1)] assms(5) by (metis dom_eq_empty_conv list.set(1))
  then have view: "dom (spool_view memdir ?w) = frame_name ` set fs"
    and bytes: "\<forall>f \<in> set fs. spool_view memdir ?w (frame_name f) = Some (frame_bytes f)"
    using c'(3) names by (auto simp: batch_stored_def in_set_conv_nth dom_def)
  let ?fs = "frames_of (spool_view memdir ?w) ?ls"
  have perm: "mset ?fs = mset fs"
    unfolding frames_of_def
  proof (rule mset_listing [OF shm_ls_sorted(3) [OF sp(2)] assms(7)])
    show "set ?ls = frame_name ` set fs" by (simp add: shm_ls_sorted(1) [OF sp(2)] view)
    show "\<forall>f \<in> set fs. parse_frame (take 0x20000 (the (spool_view memdir ?w (frame_name f)))) = f"
      using assms(8) by (simp add: bytes parse_frame_bytes)
  qed
  have len: "length ?fs = n" using perm assms(3) by (metis size_mset)
  then have b: "batch memdir n ?w = ?fs" by (simp add: batch_def frames_of_def)
  have g: "refines (d_eventMap (q_driver c')) (\<lambda>_. [])"
    using c'(3) assms(4) by (simp add: batch_stored_def refines_empty)
  from scan_refines [OF c'(2) g b [symmetric]] obtain D en where
    r: "scan_pass (processor_ops Z hjunk) junk (q_driver c') (q_env c') = Inr (D, en)"
    "spool_ok memdir (e_world en)" "spool_view memdir (e_world en) = Map.empty"
    "abs_log (e_log en) = abs_log (e_log (q_env c')) @ fst (build_pass n (\<lambda>_. []) ?fs)"
    unfolding sink.pass_result_def sink.ready_def by blast
  have set: "set ?fs = set fs" using perm by (metis set_mset_mset)
  have ne: "?fs \<noteq> []" using len n by auto
  have "\<forall>f \<in> set ?fs. frag_key f = ucast e" using assms(8) set by (simp add: frag_key_def)
  moreover have "(ucast e :: u64) \<noteq> 0"
  proof -
    from n assms(3) have "fs ! 0 \<in> set fs" by simp
    with assms(2,3,8) n have "e \<noteq> 0" by (auto simp: sockets_ready_def)
    then show ?thesis by (metis ucast_0 ucast_up_down)
  qed
  ultimately have "build n (\<lambda>_. []) ?fs = ([(ucast e, ?fs)], (\<lambda>_. []))"
    using build_full_set [OF ne, of "ucast e" "\<lambda>_. []" n] len by (simp add: fun_upd_idem)
  then have "fst (build_pass n (\<lambda>_. []) ?fs) = [(ucast e, ?fs)]" by (simp add: build_pass_def)
  with r(1,4) perm c' shm_ls_sorted(1) [OF r(2)] r(3) show ?thesis by (auto simp: batch_stored_def)
qed

text \<open>
  C6: what the sources of an event send arrives: when a builder with an empty event map and an
  empty directory receives, in any order, one fragment per registered source, all of the same
  event number other than 0 and none larger than 128 kB, every update succeeds and the next
  scan hands over exactly one event, of that number, with exactly these fragments, and leaves
  the directory empty.
\<close>

theorem full_set_delivered:
  assumes "daq_inv Z memdir ptrs n c" and "sockets_ready memdir fs c" and "length fs = n"
    and "d_eventMap (q_driver c) = []" and "shm_ls memdir (e_world (q_env c)) = []"
    and "\<forall>f \<in> set fs. content (e_world (q_env c)) (data_path memdir (frame_name f)) = []"
    and "distinct (map frame_name fs)" and "\<forall>f \<in> set fs. f_evt f = e \<and> length (frame_bytes f) \<le> 0x20000"
    and "distinct order" and "set order = {..<length fs}"
  shows "\<exists>c' D en v. rfold (update_socket fs) order c = Inr c' \<and>
     scan_pass (processor_ops Z hjunk) junk (q_driver c') (q_env c') = Inr (D, en) \<and>
     abs_log (e_log en) = abs_log (e_log (q_env c)) @ [(ucast e, v)] \<and> mset v = mset fs \<and>
     shm_ls memdir (e_world en) = []"
  by (rule full_set_arrives [OF assms])

section \<open>A concrete builder\<close>

text \<open>Two sources of detector 1, a writer and nothing received yet; the two fragments of event 5.\<close>

definition demo_socket :: "u32 \<Rightarrow> datasocket" where
  "demo_socket i = \<lparr>sk_count = 0, sk_info = ds_service_name 1 i, sk_buffer = buffer_new 0x20000 (\<lambda>_. 0),
     sk_sourceid = i, sk_detid = 1, sk_name = [], sk_memdir = ''/spool''\<rparr>"

definition demo_idle :: daq where
  "demo_idle =
     \<lparr>q_driver = (registerProcessor 0 (registerDataSource 1 3 (registerDataSource 1 2
        (shmdriver_new ''/spool'' True))))\<lparr>d_running := True\<rparr>,
      q_env = \<lparr>e_objs = [Some (Basic_Writer (basicwriter_new ''/data''))], e_world = demo_spool [], e_log = []\<rparr>,
      q_socks = [demo_socket 2, demo_socket 3]\<rparr>"

definition demo_part :: "u32 \<Rightarrow> frame" where
  "demo_part i = \<lparr>f_det = 1, f_src = i, f_evt = 5, f_bx = 9, f_payload = [1, 2]\<rparr>"

lemma demo_idle_view: "spool_view ''/spool'' (demo_spool []) = Map.empty"
  using demo_spool_ok(2) [OF demo_names_Nil] by simp

lemma demo_idle_inv: "daq_inv demo_zlib ''/spool'' {0} 2 demo_idle"
proof -
  have plain: "plain_spool ''/spool'' (demo_spool [])" by (rule demo_plain_spool [OF demo_names_Nil])
  have sink: "sink_inv demo_zlib ''/spool'' {0} [Some (Basic_Writer (basicwriter_new ''/data''))] (demo_spool [])"
    by (simp add: sink_inv_def demo_zlib_ok demo_spool_def outside_def data_path_def mark_path_def
        basicwriter_new_def resolve_def)
  have "refines ([] :: (u64, buffer list) smap) (\<lambda>_. [])" by (rule refines_empty)
  then show ?thesis
    using plain sink demo_idle_view
    by (auto simp: daq_inv_def Let_def demo_idle_def demo_socket_def framed_def socket_ok_def numberOfDataSource_def
        registerProcessor_def registerDataSource_def shmdriver_new_def groups_ok_def abs_log_def)
qed

theorem full_set_delivered_witness:
  "\<exists>c' D en v. rfold (update_socket [demo_part 2, demo_part 3]) [1, 0] demo_idle = Inr c' \<and>
     scan_pass (processor_ops demo_zlib (\<lambda>_. 0)) (\<lambda>_ _. 0) (q_driver c') (q_env c') = Inr (D, en) \<and>
     abs_log (e_log en) = [(5, v)] \<and> mset v = {#demo_part 2, demo_part 3#} \<and> shm_ls ''/spool'' (e_world en) = []"
proof -
  let ?fs = "[demo_part 2, demo_part 3]"
  have ready: "sockets_ready ''/spool'' ?fs demo_idle"
    by (auto simp: sockets_ready_def demo_idle_def demo_socket_def demo_part_def short_def less_Suc_eq)
  have idle: "d_eventMap (q_driver demo_idle) = []"
    by (simp add: demo_idle_def registerProcessor_def registerDataSource_def shmdriver_new_def)
  have ls: "shm_ls ''/spool'' (e_world (q_env demo_idle)) = []"
    using shm_ls_sorted(1) [OF demo_spool_ok(1) [OF demo_names_Nil]] demo_idle_view by (simp add: demo_idle_def)
  have new: "\<forall>f \<in> set ?fs. content (e_world (q_env demo_idle)) (data_path ''/spool'' (frame_name f)) = []"
    using event_name_not_closed
    by (simp add: demo_idle_def demo_spool_def content_def node_at_def data_path_def resolve_def frame_name_def)
  have "map frame_name ?fs = [event_name 1 2 5 9, event_name 1 3 5 9]" by (simp add: frame_name_def demo_part_def)
  then have dist: "distinct (map frame_name ?fs)" by (auto dest: event_name_inject)
  have size: "\<forall>f \<in> set ?fs. f_evt f = 5 \<and> length (frame_bytes f) \<le> 0x20000" by (simp add: demo_part_def)
  have order: "distinct [1, 0 :: nat]" "set [1, 0 :: nat] = {..<length ?fs}" by auto
  have log: "abs_log (e_log (q_env demo_idle)) = []" by (simp add: demo_idle_def abs_log_def)
  from full_set_delivered [OF demo_idle_inv ready _ idle ls new dist size order, of "\<lambda>_. 0" "\<lambda>_ _. 0"] show ?thesis
    by (simp add: log)
qed

end
