(* ===== verification/Handoff.thy ===== *)
theory Handoff
  imports Event_Builder
begin

text \<open>
  The directory at the grain of system calls. In a builder process two threads use it: the DIM
  thread stores fragments (\<^verbatim>\<open>shmdriver::store\<close>), the scanning thread lists, pulls and purges
  (\<^verbatim>\<open>scanMemory\<close>, \<^verbatim>\<open>pull\<close>, \<^verbatim>\<open>purgeShm\<close>). Between any two calls of one the other may make calls of
  its own. Here each function is a program counter and one step per call; run without
  interruption the steps are the functions of \<open>Spool\<close>.
\<close>

section \<open>Storing\<close>

record store_args =
  sa_det :: u32
  sa_src :: u32
  sa_evt :: u32
  sa_bx :: u64
  sa_ptr :: "byte list"
  sa_size :: u32

text \<open>Before opening the data file, before writing, before closing it, and the same for the marker.\<close>

datatype store_pc = Data | Write int | Close int bool | Mark | Mark_Close int | Stored

definition sa_name :: "store_args \<Rightarrow> string" where
  "sa_name a = event_name (sa_det a) (sa_src a) (sa_evt a) (sa_bx a)"

fun store_call :: "string \<Rightarrow> store_args \<Rightarrow> store_pc \<Rightarrow> world \<Rightarrow> (store_pc \<times> world) res" where
  "store_call dir a Data w =
     rbind (sprintf_into 512 (dir @ ''/'' @ sa_name a)) (\<lambda>name.
     (let (fd, w1) = open_creat name w in Inr (if fd < 0 then Stored else Write fd, w1)))"
| "store_call dir a (Write fd) w =
     rbind (peek 0 (unat (sa_size a)) (sa_ptr a)) (\<lambda>bytes.
     (let (ier, w1) = sys_write fd bytes w in Inr (Close fd (word_of_int ier = sa_size a), w1)))"
| "store_call dir a (Close fd complete) w = Inr (if complete then Mark else Stored, sys_close fd w)"
| "store_call dir a Mark w =
     rbind (sprintf_into 512 (dir @ ''/closed/'' @ sa_name a)) (\<lambda>name.
     (let (fd, w1) = open_creat name w in Inr (Mark_Close fd, w1)))"
| "store_call dir a (Mark_Close fd) w = Inr (Stored, sys_close fd w)"
| "store_call dir a Stored w = Inr (Stored, w)"

fun store_calls :: "string \<Rightarrow> store_args \<Rightarrow> nat \<Rightarrow> store_pc \<Rightarrow> world \<Rightarrow> (store_pc \<times> world) res" where
  "store_calls dir a 0 pc w = Inr (pc, w)"
| "store_calls dir a (Suc k) pc w = rbind (store_call dir a pc w) (\<lambda>(pc', w'). store_calls dir a k pc' w')"

section \<open>Scanning\<close>

text \<open>
  The loop head, before listing; then either the list of files still to pull, with the four
  places inside \<^verbatim>\<open>pull\<close> and the buffer it returns, or the list of files still to purge.
\<close>

datatype (plugins del: size) scan_pc =
    Head | Listing
  | Files "string list"
  | Read string int "string list"
  | Read_Close string int buffer "string list"
  | Unmark string buffer "string list"
  | Unlink string buffer "string list"
  | Got string buffer "string list"
  | Purge_List
  | Purge "string list"
  | Purge_Mark string "string list"
  | Ended

fun scan_call ::
  "string \<Rightarrow> nat \<Rightarrow> (string \<Rightarrow> nat \<Rightarrow> byte) \<Rightarrow> bool \<Rightarrow> scan_pc \<Rightarrow> world \<Rightarrow> (scan_pc \<times> world) res" where
  "scan_call dir nds junk running Head w = Inr (if running then Listing else Ended, w)"
| "scan_call dir nds junk running Listing w =
     (let vnames = shm_ls dir w in
      if vnames = [] then Inr (Head, w)
      else if nds = 0 then Inl Div_By_Zero
      else if length vnames mod nds \<noteq> 0 then Inr (Purge_List, w)
      else Inr (Files vnames, w))"
| "scan_call dir nds junk running (Files []) w = Inr (Head, w)"
| "scan_call dir nds junk running (Files (n # ns)) w =
     (let (fd, w1) = open_rdonly (dir @ ''/'' @ n) w in
      Inr (if fd < 0 then Got n (buffer_new 0x80000 (junk n)) ns else Read n fd ns, w1))"
| "scan_call dir nds junk running (Read n fd ns) w =
     (let (size_buf, bs, w1) = sys_read fd 0x20000 w; buf = buffer_new 0x80000 (junk n) in
      rbind (poke 0 bs (b_mem buf)) (\<lambda>m.
      Inr (Read_Close n fd (setPayloadSize (word_of_int size_buf - 20) (buf\<lparr>b_mem := m\<rparr>)) ns, w1)))"
| "scan_call dir nds junk running (Read_Close n fd b ns) w = Inr (Unmark n b ns, sys_close fd w)"
| "scan_call dir nds junk running (Unmark n b ns) w = Inr (Unlink n b ns, sys_unlink (dir @ ''/closed/'' @ n) w)"
| "scan_call dir nds junk running (Unlink n b ns) w = Inr (Got n b ns, sys_unlink (dir @ ''/'' @ n) w)"
| "scan_call dir nds junk running (Got n b ns) w = Inr (Files ns, w)"
| "scan_call dir nds junk running Purge_List w =
     (case scandir w (dir @ ''/closed/'') file_select_2 of
        None \<Rightarrow> Inr (Head, w)
      | Some files \<Rightarrow> Inr (Purge files, w))"
| "scan_call dir nds junk running (Purge []) w = Inr (Head, w)"
| "scan_call dir nds junk running (Purge (n # ns)) w =
     rbind (sprintf_into 256 (dir @ ''/'' @ n)) (\<lambda>fname. Inr (Purge_Mark n ns, sys_unlink fname w))"
| "scan_call dir nds junk running (Purge_Mark n ns) w =
     rbind (sprintf_into 256 (dir @ ''/closed/'' @ ''/'' @ n)) (\<lambda>fname. Inr (Purge ns, sys_unlink fname w))"
| "scan_call dir nds junk running Ended w = Inr (Ended, w)"

text \<open>Several calls in a row, up to one that \<open>stop\<close> recognises.\<close>

fun scan_until ::
  "(scan_pc \<Rightarrow> bool) \<Rightarrow> string \<Rightarrow> (string \<Rightarrow> nat \<Rightarrow> byte) \<Rightarrow> nat \<Rightarrow> scan_pc \<Rightarrow> world \<Rightarrow> (scan_pc \<times> world) res" where
  "scan_until P dir junk 0 pc w = Inr (pc, w)"
| "scan_until P dir junk (Suc k) pc w =
     (if P pc then Inr (pc, w)
      else rbind (scan_call dir 1 junk True pc w) (\<lambda>(pc', w'). scan_until P dir junk k pc' w'))"

section \<open>The two threads and the rest of the process\<close>

text \<open>
  The frames that the DIM thread has still to store, the first of them being stored; the
  buffers the scanning thread has put into the event map, with the names they had; the names
  it has purged.
\<close>

record handoff =
  h_frames :: "frame list"
  h_store :: store_pc
  h_scan :: scan_pc
  h_running :: bool
  h_taken :: "(string \<times> buffer) list"
  h_lost :: "string list"
  h_world :: world

definition frame_args :: "frame \<Rightarrow> store_args" where
  "frame_args f = \<lparr>sa_det = f_det f, sa_src = f_src f, sa_evt = f_evt f, sa_bx = f_bx f,
     sa_ptr = frame_bytes f, sa_size = word_of_nat (length (frame_bytes f))\<rparr>"

text \<open>What the scanning thread leaves behind in the history.\<close>

definition taken_by :: "scan_pc \<Rightarrow> (string \<times> buffer) list" where
  "taken_by pc = (case pc of Got n b ns \<Rightarrow> [(n, b)] | _ \<Rightarrow> [])"

definition lost_by :: "scan_pc \<Rightarrow> string list" where
  "lost_by pc = (case pc of Purge_Mark n ns \<Rightarrow> [n] | _ \<Rightarrow> [])"

text \<open>Descriptors in use by the two threads.\<close>

fun store_fd :: "store_pc \<Rightarrow> int option" where
  "store_fd (Write fd) = Some fd"
| "store_fd (Close fd c) = Some fd"
| "store_fd (Mark_Close fd) = Some fd"
| "store_fd pc = None"

fun scan_fd :: "scan_pc \<Rightarrow> int option" where
  "scan_fd (Read n fd ns) = Some fd"
| "scan_fd (Read_Close n fd b ns) = Some fd"
| "scan_fd pc = None"

text \<open>
  What the rest of the process may do meanwhile (writers and monitors in their own directories):
  files of this directory, the write limit and the descriptors of the two threads stay.
\<close>

definition elsewhere :: "string \<Rightarrow> int set \<Rightarrow> world \<Rightarrow> world \<Rightarrow> bool" where
  "elsewhere dir held w w' \<longleftrightarrow> fs_ok w' \<and> w_wmax w' = w_wmax w \<and>
     node_at w' (resolve dir) = node_at w (resolve dir) \<and> (\<forall>q. \<not> outside dir q \<longrightarrow> node_at w' q = node_at w q) \<and>
     (\<forall>fd \<in> held. map_of (w_fds w') fd = map_of (w_fds w) fd)"

inductive handoff_step ::
  "string \<Rightarrow> nat \<Rightarrow> (string \<Rightarrow> nat \<Rightarrow> byte) \<Rightarrow> handoff \<Rightarrow> handoff \<Rightarrow> bool" for dir nds junk where
  store: "h_frames s = f # fs \<Longrightarrow> store_call dir (frame_args f) (h_store s) (h_world s) = Inr (pc, w) \<Longrightarrow>
     handoff_step dir nds junk s
       (s\<lparr>h_frames := (if pc = Stored then fs else f # fs), h_store := (if pc = Stored then Data else pc), h_world := w\<rparr>)"
| scan: "h_scan s \<noteq> Ended \<Longrightarrow> scan_call dir nds junk (h_running s) (h_scan s) (h_world s) = Inr (pc, w) \<Longrightarrow>
     handoff_step dir nds junk s
       (s\<lparr>h_scan := pc, h_taken := h_taken s @ taken_by (h_scan s), h_lost := h_lost s @ lost_by (h_scan s), h_world := w\<rparr>)"
| halt: "handoff_step dir nds junk s (s\<lparr>h_running := False\<rparr>)"
| others: "elsewhere dir (set_option (store_fd (h_store s)) \<union> set_option (scan_fd (h_scan s))) (h_world s) w \<Longrightarrow>
     handoff_step dir nds junk s (s\<lparr>h_world := w\<rparr>)"

inductive_cases handoff_stepE: "handoff_step dir nds junk s s'"

section \<open>Without interruption\<close>

lemma store_calls_stored [simp]: "store_calls dir a k Stored w = Inr (Stored, w)"
  by (induction k) simp_all

lemma store_calls_run:
  "store_calls dir a 5 Data w =
     rbind (shm_store (sa_det a) (sa_src a) (sa_evt a) (sa_bx a) (sa_ptr a) (sa_size a) dir w) (\<lambda>w'. Inr (Stored, w'))"
proof -
  have mark: "store_calls dir a 2 Mark w =
     rbind (sprintf_into 512 (dir @ ''/closed/'' @ sa_name a)) (\<lambda>name2.
     (let (fd2, w4) = open_creat name2 w in Inr (Stored, sys_close fd2 w4)))" for w
    by (cases "sprintf_into 512 (dir @ ''/closed/'' @ sa_name a)")
      (simp_all add: numeral_2_eq_2 Let_def split: prod.splits)
  have close: "store_calls dir a 3 (Close fd c) w =
     (if c then store_calls dir a 2 Mark (sys_close fd w) else Inr (Stored, sys_close fd w))" for fd c w
    by (simp add: numeral_3_eq_3 numeral_2_eq_2)
  have put: "store_calls dir a 4 (Write fd) w = rbind (peek 0 (unat (sa_size a)) (sa_ptr a)) (\<lambda>bytes.
     (let (ier, w1) = sys_write fd bytes w in store_calls dir a 3 (Close fd (word_of_int ier = sa_size a)) w1))" for fd w
    by (cases "peek 0 (unat (sa_size a)) (sa_ptr a)")
      (simp_all add: eval_nat_numeral Let_def split: prod.splits)
  have data: "store_calls dir a 5 Data w = rbind (sprintf_into 512 (dir @ ''/'' @ sa_name a)) (\<lambda>name.
     (let (fd, w1) = open_creat name w in if fd < 0 then Inr (Stored, w1) else store_calls dir a 4 (Write fd) w1))"
    by (cases "sprintf_into 512 (dir @ ''/'' @ sa_name a)")
      (simp_all add: eval_nat_numeral Let_def split: prod.splits)
  show ?thesis
    unfolding data put close mark shm_store_def rbind_assoc sa_name_def Let_def
    by (intro rbind_cong refl) (auto simp: rbind_assoc split: prod.splits intro!: rbind_cong)
qed

abbreviation at_got :: "scan_pc \<Rightarrow> bool" where
  "at_got pc \<equiv> (case pc of Got _ _ _ \<Rightarrow> True | _ \<Rightarrow> False)"

lemma scan_until_step:
  "\<not> P pc \<Longrightarrow> 0 < k \<Longrightarrow> scan_until P dir junk k pc w =
     rbind (scan_call dir 1 junk True pc w) (\<lambda>(pc', w'). scan_until P dir junk (k - 1) pc' w')"
  by (cases k) simp_all

lemma scan_until_stop: "P pc \<Longrightarrow> scan_until P dir junk k pc w = Inr (pc, w)"
  by (cases k) simp_all

lemma pull_calls_run:
  "scan_until at_got dir junk 6 (Files (n # ns)) w =
     rbind (shm_pull n (buffer_new 0x80000 (junk n)) dir w) (\<lambda>(b, w'). Inr (Got n b ns, w'))"
proof -
  define buf where "buf = buffer_new 0x80000 (junk n)"
  have close: "scan_until at_got dir junk 4 (Read_Close n fd b ns) w =
     Inr (Got n b ns, sys_unlink (dir @ ''/'' @ n) (sys_unlink (dir @ ''/closed/'' @ n) (sys_close fd w)))" for fd b w
    by (simp add: scan_until_step scan_until_stop)
  show ?thesis
  proof (cases "open_rdonly (dir @ ''/'' @ n) w")
    case (Pair fd w1)
    show ?thesis
    proof (cases "fd < 0")
      case True
      with Pair show ?thesis by (simp add: scan_until_step scan_until_stop shm_pull_def Let_def flip: buf_def)
    next
      case False
      obtain r bs w2 where r: "sys_read fd 0x20000 w1 = (r, bs, w2)" by (cases "sys_read fd 0x20000 w1")
      have "scan_until at_got dir junk 6 (Files (n # ns)) w = scan_until at_got dir junk 5 (Read n fd ns) w1"
        using Pair False by (simp add: scan_until_step [of _ _ 6])
      also have "\<dots> = rbind (poke 0 bs (b_mem buf)) (\<lambda>m.
          scan_until at_got dir junk 4 (Read_Close n fd (setPayloadSize (word_of_int r - 20) (buf\<lparr>b_mem := m\<rparr>)) ns) w2)"
        using r by (simp add: scan_until_step [of _ _ 5] rbind_assoc flip: buf_def)
      also have "\<dots> = rbind (shm_pull n buf dir w) (\<lambda>(b, w'). Inr (Got n b ns, w'))"
        using Pair False r by (cases "poke 0 bs (b_mem buf)") (simp_all add: close shm_pull_def Let_def)
      finally show ?thesis by (simp add: buf_def)
    qed
  qed
qed

lemma purge_calls_run:
  "scan_until (\<lambda>pc. pc = Head) dir junk (2 * length ns + 1) (Purge ns) =
     (\<lambda>w. rbind (rfold (purge_one dir) ns w) (\<lambda>w'. Inr (Head, w')))"
proof (induction ns)
  case Nil
  then show ?case by (simp add: scan_until_step fun_eq_iff)
next
  case (Cons n ns)
  have "scan_until (\<lambda>pc. pc = Head) dir junk (2 * length ns + 3) (Purge (n # ns)) w =
     rbind (purge_one dir n w) (scan_until (\<lambda>pc. pc = Head) dir junk (2 * length ns + 1) (Purge ns))" for w
    by (cases "sprintf_into 256 (dir @ ''/'' @ n)"; cases "sprintf_into 256 (dir @ ''/closed/'' @ ''/'' @ n)")
      (simp_all add: scan_until_step purge_one_def)
  moreover have "2 * length (n # ns) + 1 = 2 * length ns + 3" by simp
  ultimately show ?case by (simp only: Cons.IH rfold.simps rbind_assoc fun_eq_iff) simp
qed


end
