(* ===== verification/Handoff_Calls.thy ===== *)
theory Handoff_Calls
  imports Handoff "HOL-Library.Multiset"
begin

text \<open>
  What the two threads rely on, as an invariant of their joint state: the directory, the place
  of each thread in its function, their descriptors, and the place of every fragment. Each
  call of either thread keeps it.
\<close>

section \<open>Single calls\<close>

text \<open>What each call does to the files, and to the descriptors seen as a map.\<close>

lemma open_creat_call:
  assumes "can_create w (resolve s)" and "fs_ok w" and "open_creat s w = (fd, w1)"
  shows "0 \<le> fd" and "map_of (w_fds w) fd = None"
    and "map_of (w_fds w1) = (map_of (w_fds w))(fd \<mapsto> \<lparr>d_path = resolve s, d_pos = 0\<rparr>)"
    and "node_at w1 q = (if q = resolve s then Some (File (content w (resolve s))) else node_at w q)"
    and "fs_ok w1" and "w_wmax w1 = w_wmax w"
proof -
  let ?p = "resolve s"
  obtain w0 where w0: "open_creat s w = (next_fd (w_fds w), w0\<lparr>w_fds := (next_fd (w_fds w), \<lparr>d_path = ?p, d_pos = 0\<rparr>) # w_fds w\<rparr>)"
    "w_fds w0 = w_fds w" "w_wmax w0 = w_wmax w" "node_at w0 ?p = Some (File (content w ?p))"
    "\<And>n. put_node ?p n w0 = put_node ?p n w" "fs_ok w \<Longrightarrow> fs_ok w0"
    by (rule open_creat_ok [OF assms(1)]) blast
  have p: "?p \<noteq> []" by (rule can_create_nonempty [OF assms(1)])
  have "node_at w0 q = node_at w q" if "q \<noteq> ?p" for q
  proof -
    have "node_at (put_node ?p Dir w0) q = node_at (put_node ?p Dir w) q" by (simp only: w0(5))
    with that p show ?thesis by (simp add: node_at_put)
  qed
  then show "node_at w1 q = (if q = ?p then Some (File (content w ?p)) else node_at w q)"
    using w0(1,4) assms(3) by auto
  show "0 \<le> fd" "map_of (w_fds w1) = (map_of (w_fds w))(fd \<mapsto> \<lparr>d_path = ?p, d_pos = 0\<rparr>)"
    "fs_ok w1" "w_wmax w1 = w_wmax w"
    using w0(1-3,6) assms(2,3) by auto
  show "map_of (w_fds w) fd = None"
    using w0(1) assms(3) next_fd_fresh [of "w_fds w"] by (auto simp: map_of_eq_None_iff)
qed

lemma open_rdonly_call:
  assumes "node_at w (resolve s) = Some (File c)" and "open_rdonly s w = (fd, w1)"
  shows "0 \<le> fd" and "map_of (w_fds w) fd = None"
    and "map_of (w_fds w1) = (map_of (w_fds w))(fd \<mapsto> \<lparr>d_path = resolve s, d_pos = 0\<rparr>)"
    and "node_at w1 = node_at w" and "fs_ok w1 = fs_ok w" and "w_wmax w1 = w_wmax w"
  using assms next_fd_fresh [of "w_fds w"]
  by (auto simp: open_rdonly_def new_fd_def Let_def map_of_eq_None_iff)

lemma fds_set_pos:
  "map_of (w_fds (set_pos fd k w)) = (\<lambda>x. if x = fd then map_option (\<lambda>d. d\<lparr>d_pos := k\<rparr>) (map_of (w_fds w) x) else map_of (w_fds w) x)"
  by (auto simp: set_pos_def map_of_set_pos)

lemma set_pos_frame [simp]:
  "node_at (set_pos fd k w) = node_at w" "fs_ok (set_pos fd k w) = fs_ok w" "w_wmax (set_pos fd k w) = w_wmax w"
  by (simp_all add: set_pos_def)

lemma close_call:
  assumes "0 \<le> fd"
  shows "map_of (w_fds (sys_close fd w)) = (map_of (w_fds w))(fd := None)"
    and "fs_ok (sys_close fd w) = fs_ok w" and "w_wmax (sys_close fd w) = w_wmax w"
proof -
  have "map_of (filter (\<lambda>e. fst e \<noteq> fd) t) x = (if x = fd then None else map_of t x)" for t :: "(int \<times> descr) list" and x
    by (rule map_of_filter_neq)
  with assms show "map_of (w_fds (sys_close fd w)) = (map_of (w_fds w))(fd := None)"
    by (auto simp: sys_close_def fun_eq_iff)
  show "fs_ok (sys_close fd w) = fs_ok w" "w_wmax (sys_close fd w) = w_wmax w" by (simp_all add: sys_close_def)
qed

lemma write_call:
  assumes "map_of (w_fds w) fd = Some \<lparr>d_path = p, d_pos = 0\<rparr>" and "node_at w p = Some (File [])" and "fs_ok w"
    and "length bs \<le> w_wmax w" and "sys_write fd bs w = (r, w1)"
  shows "r = int (length bs)" and "node_at w1 q = (if q = p then Some (File bs) else node_at w q)"
    and "fs_ok w1" and "w_wmax w1 = w_wmax w" and "x \<noteq> fd \<Longrightarrow> map_of (w_fds w1) x = map_of (w_fds w) x"
    and "map_of (w_fds w1) fd \<noteq> None"
proof -
  have p: "p \<noteq> []" using assms(2) by (auto simp: node_at_def)
  with assms show "r = int (length bs)" "node_at w1 q = (if q = p then Some (File bs) else node_at w q)"
    "fs_ok w1" "w_wmax w1 = w_wmax w" "x \<noteq> fd \<Longrightarrow> map_of (w_fds w1) x = map_of (w_fds w) x" "map_of (w_fds w1) fd \<noteq> None"
    by (auto simp: sys_write_def Let_def fds_set_pos node_at_put fs_ok_put)
qed

lemma read_call:
  assumes "map_of (w_fds w) fd = Some \<lparr>d_path = p, d_pos = 0\<rparr>" and "node_at w p = Some (File c)"
    and "sys_read fd k w = (r, bs, w1)"
  shows "bs = take k c" and "r = int (length bs)" and "node_at w1 = node_at w" and "fs_ok w1 = fs_ok w"
    and "w_wmax w1 = w_wmax w" and "x \<noteq> fd \<Longrightarrow> map_of (w_fds w1) x = map_of (w_fds w) x"
    and "map_of (w_fds w1) fd \<noteq> None"
  using assms by (auto simp: sys_read_def Let_def fds_set_pos)

text \<open>
  The calls with which the processors write their own files are among those that \<open>elsewhere\<close>
  admits: they name paths outside the directory's files and use descriptors of their own.
\<close>

lemma elsewhere_open:
  assumes "fs_ok w" and "node_at w (resolve dir) = Some Dir" and "outside dir (resolve s)"
    and "\<forall>fd \<in> held. map_of (w_fds w) fd \<noteq> None"
  shows "elsewhere dir held w (snd (open_creat s w))"
proof (cases "can_create w (resolve s)")
  case False
  with assms(1) show ?thesis by (simp add: open_creat_fails elsewhere_def)
next
  case True
  obtain fd w1 where o: "open_creat s w = (fd, w1)" by (cases "open_creat s w")
  note c = open_creat_call [OF True assms(1) o]
  have "resolve s \<noteq> resolve dir" using True assms(2) by (auto simp: can_create_def)
  with assms c show ?thesis by (auto simp: o elsewhere_def)
qed

lemma elsewhere_write:
  assumes "fs_ok w" and "node_at w (resolve dir) = Some Dir" and "fd \<notin> held"
    and "\<And>d. map_of (w_fds w) fd = Some d \<Longrightarrow> outside dir (d_path d)"
  shows "elsewhere dir held w (snd (sys_write fd bs w))"
proof (cases "map_of (w_fds w) fd")
  case None
  with assms(1) show ?thesis by (simp add: sys_write_def elsewhere_def)
next
  case (Some d)
  have out: "outside dir (d_path d)" by (rule assms(4) [OF Some])
  have fds: "map_of (w_fds (set_pos fd k w')) x = map_of (w_fds w) x" if "w_fds w' = w_fds w" "x \<in> held" for k w' x
    using that assms(3) by (auto simp: fds_set_pos)
  have ne: "d_path d \<noteq> []" if "node_at w (d_path d) = Some (File c)" for c using that by (auto simp: node_at_def)
  show ?thesis
  proof (cases "\<exists>c. node_at w (d_path d) = Some (File c)")
    case True
    then obtain c where c: "node_at w (d_path d) = Some (File c)" ..
    have "d_path d \<noteq> resolve dir" using c assms(2) by auto
    with out assms(1,2) ne [OF c] c show ?thesis
      by (auto simp: elsewhere_def sys_write_def Some Let_def fs_ok_put node_at_put fds)
  next
    case False
    with assms(1) show ?thesis
      by (auto simp: elsewhere_def sys_write_def Some Let_def fds split: option.splits node.splits)
  qed
qed

lemma elsewhere_close: "fs_ok w \<Longrightarrow> fd \<notin> held \<Longrightarrow> elsewhere dir held w (sys_close fd w)"
  by (cases "0 \<le> fd", auto simp: elsewhere_def close_call) (simp_all add: sys_close_def)

section \<open>The invariant\<close>

text \<open>
  \<open>E\<close> is what every fragment of the history is to contain: those of the directory at the start and
  those the DIM thread stores. The frames it has not made visible yet:
\<close>

fun pending :: "frame list \<Rightarrow> store_pc \<Rightarrow> frame list" where
  "pending fs (Mark_Close fd) = tl fs"
| "pending fs pc = fs"

definition data_free :: "string \<Rightarrow> string \<Rightarrow> world \<Rightarrow> bool" where
  "data_free dir n w \<longleftrightarrow> node_at w (data_path dir n) \<noteq> Some Dir \<and> content w (data_path dir n) = []"

fun store_at :: "string \<Rightarrow> frame \<Rightarrow> store_pc \<Rightarrow> world \<Rightarrow> bool" where
  "store_at dir f Data w \<longleftrightarrow> data_free dir (frame_name f) w"
| "store_at dir f (Write fd) w \<longleftrightarrow> map_of (w_fds w) fd = Some \<lparr>d_path = data_path dir (frame_name f), d_pos = 0\<rparr> \<and>
     node_at w (data_path dir (frame_name f)) = Some (File [])"
| "store_at dir f (Close fd complete) w \<longleftrightarrow> complete \<and> node_at w (data_path dir (frame_name f)) = Some (File (frame_bytes f))"
| "store_at dir f Mark w \<longleftrightarrow> node_at w (data_path dir (frame_name f)) = Some (File (frame_bytes f))"
| "store_at dir f (Mark_Close fd) w \<longleftrightarrow> True"
| "store_at dir f Stored w \<longleftrightarrow> False"

definition handed :: "(string \<Rightarrow> nat \<Rightarrow> byte) \<Rightarrow> (string \<Rightarrow> byte list option) \<Rightarrow> string \<Rightarrow> buffer" where
  "handed junk E n = pulled (junk n) (take 0x20000 (the (E n)))"

fun scan_at :: "string \<Rightarrow> (string \<Rightarrow> nat \<Rightarrow> byte) \<Rightarrow> (string \<Rightarrow> byte list option) \<Rightarrow> scan_pc \<Rightarrow> world \<Rightarrow> bool" where
  "scan_at dir junk E (Read n fd ns) w \<longleftrightarrow> map_of (w_fds w) fd = Some \<lparr>d_path = data_path dir n, d_pos = 0\<rparr>"
| "scan_at dir junk E (Read_Close n fd b ns) w \<longleftrightarrow> b = handed junk E n"
| "scan_at dir junk E (Unmark n b ns) w \<longleftrightarrow> b = handed junk E n"
| "scan_at dir junk E (Unlink n b ns) w \<longleftrightarrow> b = handed junk E n \<and> is_name n"
| "scan_at dir junk E (Got n b ns) w \<longleftrightarrow> b = handed junk E n"
| "scan_at dir junk E pc w \<longleftrightarrow> True"

text \<open>The names it relies on being visible, the one it holds, and the one half purged.\<close>

fun scan_names :: "scan_pc \<Rightarrow> string list" where
  "scan_names (Files ns) = ns"
| "scan_names (Read n fd ns) = n # ns"
| "scan_names (Read_Close n fd b ns) = n # ns"
| "scan_names (Unmark n b ns) = n # ns"
| "scan_names (Unlink n b ns) = ns"
| "scan_names (Got n b ns) = ns"
| "scan_names (Purge ns) = ns"
| "scan_names (Purge_Mark n ns) = n # ns"
| "scan_names pc = []"

fun in_hand :: "scan_pc \<Rightarrow> string list" where
  "in_hand (Unlink n b ns) = [n]"
| "in_hand (Got n b ns) = [n]"
| "in_hand pc = []"

fun half_purged :: "scan_pc \<Rightarrow> string set" where
  "half_purged (Purge_Mark n ns) = {n}"
| "half_purged pc = {}"

definition visible :: "string \<Rightarrow> world \<Rightarrow> string set" where
  "visible dir w = {n. node_at w (mark_path dir n) \<noteq> None}"

definition dir_ok :: "string \<Rightarrow> world \<Rightarrow> bool" where
  "dir_ok dir w \<longleftrightarrow> fs_ok w \<and> node_at w (resolve dir) = Some Dir \<and>
     node_at w (resolve dir @ [''closed'']) = Some Dir \<and> 0x20014 \<le> w_wmax w \<and> length dir < 180"

definition marks_ok :: "string \<Rightarrow> (string \<Rightarrow> byte list option) \<Rightarrow> string set \<Rightarrow> world \<Rightarrow> bool" where
  "marks_ok dir E half w \<longleftrightarrow> (\<forall>n \<in> visible dir w.
     is_name n \<and> n \<noteq> ''closed'' \<and> file_select_2 n \<and> length dir + length n + 9 < 256 \<and>
     (\<exists>m. node_at w (mark_path dir n) = Some (File m)) \<and>
     (n \<notin> half \<longrightarrow> (\<exists>c. E n = Some c \<and> node_at w (data_path dir n) = Some (File c))))"

definition frames_ok :: "string \<Rightarrow> (string \<Rightarrow> byte list option) \<Rightarrow> frame list \<Rightarrow> store_pc \<Rightarrow> world \<Rightarrow> bool" where
  "frames_ok dir E fs pc w \<longleftrightarrow> distinct (map frame_name fs) \<and>
     (\<forall>f \<in> set fs. short f \<and> E (frame_name f) = Some (frame_bytes f)) \<and>
     (\<forall>f \<in> set (tl fs). data_free dir (frame_name f) w) \<and>
     (case fs of [] \<Rightarrow> pc = Data | f # _ \<Rightarrow> store_at dir f pc w)"

definition scan_ok :: "string \<Rightarrow> (string \<Rightarrow> nat \<Rightarrow> byte) \<Rightarrow> (string \<Rightarrow> byte list option) \<Rightarrow> scan_pc \<Rightarrow> world \<Rightarrow> bool" where
  "scan_ok dir junk E pc w \<longleftrightarrow> distinct (scan_names pc) \<and> set (scan_names pc) \<subseteq> visible dir w \<and> scan_at dir junk E pc w"

definition fds_ok :: "int option \<Rightarrow> int option \<Rightarrow> world \<Rightarrow> bool" where
  "fds_ok a b w \<longleftrightarrow> (\<forall>fd \<in> set_option a \<union> set_option b. 0 \<le> fd \<and> map_of (w_fds w) fd \<noteq> None) \<and>
     set_option a \<inter> set_option b = {}"

text \<open>Every fragment is in exactly one place.\<close>

definition accounted :: "string \<Rightarrow> (string \<Rightarrow> byte list option) \<Rightarrow> string list \<Rightarrow> world \<Rightarrow> bool" where
  "accounted dir E ns w \<longleftrightarrow> distinct ns \<and> set ns \<inter> visible dir w = {} \<and> dom E = set ns \<union> visible dir w"

definition places :: "handoff \<Rightarrow> string list" where
  "places s = map frame_name (pending (h_frames s) (h_store s)) @ in_hand (h_scan s) @ map fst (h_taken s) @ h_lost s"

definition handoff_inv :: "string \<Rightarrow> (string \<Rightarrow> nat \<Rightarrow> byte) \<Rightarrow> (string \<Rightarrow> byte list option) \<Rightarrow> handoff \<Rightarrow> bool" where
  "handoff_inv dir junk E s \<longleftrightarrow> dir_ok dir (h_world s) \<and> marks_ok dir E (half_purged (h_scan s)) (h_world s) \<and>
     frames_ok dir E (h_frames s) (h_store s) (h_world s) \<and> scan_ok dir junk E (h_scan s) (h_world s) \<and>
     fds_ok (store_fd (h_store s)) (scan_fd (h_scan s)) (h_world s) \<and> accounted dir E (places s) (h_world s) \<and>
     (\<forall>(n, b) \<in> set (h_taken s). b = handed junk E n)"

lemmas handoff_parts = dir_ok_def marks_ok_def frames_ok_def scan_ok_def fds_ok_def accounted_def data_free_def visible_def

lemma frame_names_ok:
  "is_name (frame_name f)" "frame_name f \<noteq> ''closed''" "file_select_2 (frame_name f)" "length (frame_name f) \<le> 59"
  using event_name_not_closed length_event_name
  by (simp_all add: frame_name_def file_select_2_def) (simp_all add: event_name_def)

lemma sa_frame [simp]:
  "sa_name (frame_args f) = frame_name f" "sa_ptr (frame_args f) = frame_bytes f"
  "sa_size (frame_args f) = word_of_nat (length (frame_bytes f))"
  by (simp_all add: sa_name_def frame_args_def frame_name_def)

lemma elsewhere_keeps:
  assumes "handoff_inv dir junk E s"
    and "elsewhere dir (set_option (store_fd (h_store s)) \<union> set_option (scan_fd (h_scan s))) (h_world s) w"
  shows "handoff_inv dir junk E (s\<lparr>h_world := w\<rparr>)"
proof -
  let ?w = "h_world s"
  have e: "fs_ok w" "w_wmax w = w_wmax ?w" "node_at w (resolve dir) = node_at ?w (resolve dir)"
    and q: "\<And>q. \<not> outside dir q \<Longrightarrow> node_at w q = node_at ?w q"
    and fd: "\<And>fd. fd \<in> set_option (store_fd (h_store s)) \<union> set_option (scan_fd (h_scan s)) \<Longrightarrow> map_of (w_fds w) fd = map_of (w_fds ?w) fd"
    using assms(2) by (auto simp: elsewhere_def)
  have d: "node_at w (data_path dir n) = node_at ?w (data_path dir n)"
    and m: "node_at w (mark_path dir n) = node_at ?w (mark_path dir n)" for n
    by (rule q, auto simp: outside_def)+
  have c: "node_at w (resolve dir @ [''closed'']) = node_at ?w (resolve dir @ [''closed''])"
    using d [of "''closed''"] by (simp add: data_path_def)
  have st: "store_at dir f (h_store s) w = store_at dir f (h_store s) ?w" for f
    using fd by (cases "h_store s") (auto simp: d data_free_def content_def)
  have sc: "scan_at dir junk E (h_scan s) w = scan_at dir junk E (h_scan s) ?w"
    using fd by (cases "h_scan s") auto
  have v: "visible dir w = visible dir ?w" by (simp add: visible_def m)
  have df: "data_free dir n w = data_free dir n ?w" for n by (simp add: data_free_def content_def d)
  have "fds_ok (store_fd (h_store s)) (scan_fd (h_scan s)) w = fds_ok (store_fd (h_store s)) (scan_fd (h_scan s)) ?w"
    using fd by (auto simp: fds_ok_def)
  then show ?thesis
    using assms(1) e c
    by (simp add: handoff_inv_def dir_ok_def marks_ok_def frames_ok_def scan_ok_def accounted_def places_def d m st sc v df
        split: list.splits)
qed

section \<open>Calls of the storing thread\<close>

lemma invD:
  assumes "handoff_inv dir junk E s"
  shows "dir_ok dir (h_world s)" "marks_ok dir E (half_purged (h_scan s)) (h_world s)"
    "frames_ok dir E (h_frames s) (h_store s) (h_world s)" "scan_ok dir junk E (h_scan s) (h_world s)"
    "fds_ok (store_fd (h_store s)) (scan_fd (h_scan s)) (h_world s)" "accounted dir E (places s) (h_world s)"
    "\<forall>(n, b) \<in> set (h_taken s). b = handed junk E n"
  using assms by (simp_all add: handoff_inv_def)

text \<open>A call that changes at most the data file of the frame being stored.\<close>

lemma data_call_keeps:
  assumes inv: "handoff_inv dir junk E s" and fs: "h_frames s = f # fs"
    and pend: "pending (f # fs) (h_store s) = f # fs" "pending (f # fs) pc = f # fs"
    and w: "fs_ok w" "w_wmax w = w_wmax (h_world s)"
    and q: "\<And>q. q \<noteq> data_path dir (frame_name f) \<Longrightarrow> node_at w q = node_at (h_world s) q"
    and fd: "\<And>fd. fd \<in> set_option (scan_fd (h_scan s)) \<Longrightarrow> map_of (w_fds w) fd = map_of (w_fds (h_world s)) fd"
    and st: "store_at dir f pc w" and fds: "fds_ok (store_fd pc) (scan_fd (h_scan s)) w"
  shows "handoff_inv dir junk E (s\<lparr>h_store := pc, h_world := w\<rparr>)"
proof -
  let ?w = "h_world s" and ?n = "frame_name f"
  note i = invD [OF inv]
  have new: "?n \<notin> visible dir ?w"
    using i(6) pend(1) by (auto simp: accounted_def places_def fs)
  have others: "frame_name g \<noteq> ?n" if "g \<in> set fs" for g
    using i(3) that by (simp add: frames_ok_def fs) (metis imageI)
  have q': "node_at w (mark_path dir n) = node_at ?w (mark_path dir n)"
    "node_at w (resolve dir) = node_at ?w (resolve dir)"
    "node_at w (resolve dir @ [''closed'']) = node_at ?w (resolve dir @ [''closed''])"
    "n \<noteq> ?n \<Longrightarrow> node_at w (data_path dir n) = node_at ?w (data_path dir n)" for n
    using frame_names_ok(2) [of f] by (auto intro!: q)
  have v: "visible dir w = visible dir ?w" by (simp add: visible_def q')
  have sc: "scan_at dir junk E (h_scan s) w = scan_at dir junk E (h_scan s) ?w"
    using fd by (cases "h_scan s") auto
  have "marks_ok dir E (half_purged (h_scan s)) w"
    using i(2) new by (simp add: marks_ok_def v q') (metis q'(4))
  moreover have "frames_ok dir E (f # fs) pc w"
    using i(3) st others by (auto simp: frames_ok_def fs data_free_def content_def q')
  ultimately show ?thesis
    using i w fds pend
    by (simp add: handoff_inv_def dir_ok_def scan_ok_def accounted_def places_def fs v sc q')
qed

lemma Data_keeps:
  assumes inv: "handoff_inv dir junk E s" and fs: "h_frames s = f # fs" and pc: "h_store s = Data"
  shows "\<exists>fd w. store_call dir (frame_args f) Data (h_world s) = Inr (Write fd, w) \<and>
     handoff_inv dir junk E (s\<lparr>h_store := Write fd, h_world := w\<rparr>)"
proof -
  let ?w = "h_world s" and ?s = "dir @ ''/'' @ frame_name f"
  note i = invD [OF inv] and n = frame_names_ok [of f]
  have r: "resolve ?s = data_path dir (frame_name f)" using n(1) by simp
  have free: "data_free dir (frame_name f) ?w" using i(3) by (simp add: frames_ok_def fs pc)
  have can: "can_create ?w (resolve ?s)"
    using free i(1) unfolding r by (auto simp: can_create_def data_free_def dir_ok_def split: option.splits node.splits)
  obtain fd w where o: "open_creat ?s ?w = (fd, w)" by (cases "open_creat ?s ?w")
  have "fs_ok ?w" using i(1) by (simp add: dir_ok_def)
  note c = open_creat_call [OF can this o, unfolded r]
  have name: "sprintf_into 512 ?s = Inr ?s" using i(1) n(4) by (simp add: sprintf_into_def dir_ok_def)
  have "store_call dir (frame_args f) Data ?w = Inr (Write fd, w)" using name o c(1) by simp
  moreover have "handoff_inv dir junk E (s\<lparr>h_store := Write fd, h_world := w\<rparr>)"
  proof (rule data_call_keeps [OF inv fs])
    show "store_at dir f (Write fd) w" using c free by (simp add: data_free_def)
    show "fds_ok (store_fd (Write fd)) (scan_fd (h_scan s)) w" using i(5) c by (auto simp: fds_ok_def pc)
    show "map_of (w_fds w) fd' = map_of (w_fds ?w) fd'" if "fd' \<in> set_option (scan_fd (h_scan s))" for fd'
      using i(5) that c by (auto simp: fds_ok_def)
  qed (simp_all add: pc c)
  ultimately show ?thesis by blast
qed

lemma frame_size: "short f \<Longrightarrow> unat (word_of_nat (length (frame_bytes f)) :: u32) = length (frame_bytes f)"
  by (rule unat_of_nat_u32) (simp add: short_def)

lemma Write_keeps:
  assumes inv: "handoff_inv dir junk E s" and fs: "h_frames s = f # fs" and pc: "h_store s = Write fd"
  shows "\<exists>w. store_call dir (frame_args f) (Write fd) (h_world s) = Inr (Close fd True, w) \<and>
     handoff_inv dir junk E (s\<lparr>h_store := Close fd True, h_world := w\<rparr>)"
proof -
  let ?w = "h_world s" and ?p = "data_path dir (frame_name f)"
  note i = invD [OF inv]
  have at: "map_of (w_fds ?w) fd = Some \<lparr>d_path = ?p, d_pos = 0\<rparr>" "node_at ?w ?p = Some (File [])"
    and sh: "short f" using i(3) by (simp_all add: frames_ok_def fs pc)
  have len: "length (frame_bytes f) \<le> w_wmax ?w" and fok: "fs_ok ?w"
    using i(1) sh by (simp_all add: dir_ok_def short_def)
  obtain r w where o: "sys_write fd (frame_bytes f) ?w = (r, w)" by (cases "sys_write fd (frame_bytes f) ?w")
  note c = write_call [OF at fok len o]
  have "peek 0 (unat (sa_size (frame_args f))) (sa_ptr (frame_args f)) = Inr (frame_bytes f)"
    using sh by (simp only: sa_frame frame_size) (simp add: chunk_0)
  then have "store_call dir (frame_args f) (Write fd) ?w = Inr (Close fd True, w)" using o c(1) by simp
  moreover have "handoff_inv dir junk E (s\<lparr>h_store := Close fd True, h_world := w\<rparr>)"
  proof (rule data_call_keeps [OF inv fs])
    show "store_at dir f (Close fd True) w" using c by simp
    show "fds_ok (store_fd (Close fd True)) (scan_fd (h_scan s)) w" using i(5) c by (auto simp: fds_ok_def pc)
    show "map_of (w_fds w) fd' = map_of (w_fds ?w) fd'" if "fd' \<in> set_option (scan_fd (h_scan s))" for fd'
      using i(5) that by (intro c(5)) (auto simp: fds_ok_def pc)
  qed (simp_all add: pc c)
  ultimately show ?thesis by blast
qed

lemma Close_keeps:
  assumes inv: "handoff_inv dir junk E s" and fs: "h_frames s = f # fs" and pc: "h_store s = Close fd complete"
  shows "\<exists>w. store_call dir (frame_args f) (Close fd complete) (h_world s) = Inr (Mark, w) \<and>
     handoff_inv dir junk E (s\<lparr>h_store := Mark, h_world := w\<rparr>)"
proof -
  let ?w = "h_world s"
  note i = invD [OF inv]
  have at: "complete" "node_at ?w (data_path dir (frame_name f)) = Some (File (frame_bytes f))"
    using i(3) by (simp_all add: frames_ok_def fs pc)
  have "0 \<le> fd" using i(5) by (simp add: fds_ok_def pc)
  note c = close_call [OF this, of ?w]
  have "handoff_inv dir junk E (s\<lparr>h_store := Mark, h_world := sys_close fd ?w\<rparr>)"
  proof (rule data_call_keeps [OF inv fs])
    show "fs_ok (sys_close fd ?w)" using i(1) by (simp add: c dir_ok_def)
    show "fds_ok (store_fd Mark) (scan_fd (h_scan s)) (sys_close fd ?w)" using i(5) c by (auto simp: fds_ok_def pc)
    show "map_of (w_fds (sys_close fd ?w)) fd' = map_of (w_fds ?w) fd'" if "fd' \<in> set_option (scan_fd (h_scan s))" for fd'
      using i(5) that c by (auto simp: fds_ok_def pc)
  qed (simp_all add: pc c at)
  with at(1) show ?thesis by simp
qed

lemma Mark_keeps:
  assumes inv: "handoff_inv dir junk E s" and fs: "h_frames s = f # fs" and pc: "h_store s = Mark"
  shows "\<exists>fd w. store_call dir (frame_args f) Mark (h_world s) = Inr (Mark_Close fd, w) \<and>
     handoff_inv dir junk E (s\<lparr>h_store := Mark_Close fd, h_world := w\<rparr>)"
proof -
  let ?w = "h_world s" and ?n = "frame_name f" and ?s = "dir @ ''/closed/'' @ frame_name f"
  note i = invD [OF inv] and n = frame_names_ok [of f]
  have r: "resolve ?s = mark_path dir ?n" using n(1) by simp
  have new: "?n \<notin> visible dir ?w" using i(6) by (auto simp: accounted_def places_def fs pc)
  have can: "can_create ?w (resolve ?s)"
    using new i(1) unfolding r by (simp add: can_create_def visible_def dir_ok_def)
  obtain fd w where o: "open_creat ?s ?w = (fd, w)" by (cases "open_creat ?s ?w")
  have "fs_ok ?w" using i(1) by (simp add: dir_ok_def)
  note c = open_creat_call [OF can this o, unfolded r]
  have f: "E ?n = Some (frame_bytes f)" "node_at ?w (data_path dir ?n) = Some (File (frame_bytes f))"
    using i(3) by (simp_all add: frames_ok_def fs pc)
  have v: "visible dir w = insert ?n (visible dir ?w)" by (auto simp: visible_def c)
  have name: "sprintf_into 512 ?s = Inr ?s" and len: "length dir + length ?n + 9 < 256"
    using i(1) n(4) by (simp_all add: sprintf_into_def dir_ok_def)
  have sc: "scan_at dir junk E (h_scan s) ?w \<Longrightarrow> scan_at dir junk E (h_scan s) w"
    using c by (cases "h_scan s") auto
  have "store_call dir (frame_args f) Mark ?w = Inr (Mark_Close fd, w)" using name o by simp
  moreover have "handoff_inv dir junk E (s\<lparr>h_store := Mark_Close fd, h_world := w\<rparr>)"
    unfolding handoff_inv_def
  proof (intro conjI)
    let ?s' = "s\<lparr>h_store := Mark_Close fd, h_world := w\<rparr>"
    show "dir_ok dir (h_world ?s')" using i(1) by (simp add: dir_ok_def c)
    show "marks_ok dir E (half_purged (h_scan ?s')) (h_world ?s')"
      using i(2) f n len by (simp add: marks_ok_def v c)
    show "frames_ok dir E (h_frames ?s') (h_store ?s') (h_world ?s')"
      using i(3) by (simp add: frames_ok_def fs data_free_def content_def c)
    show "scan_ok dir junk E (h_scan ?s') (h_world ?s')" using i(4) sc by (auto simp: scan_ok_def v)
    show "fds_ok (store_fd (h_store ?s')) (scan_fd (h_scan ?s')) (h_world ?s')"
      using i(5) c by (auto simp: fds_ok_def pc)
    show "accounted dir E (places ?s') (h_world ?s')" using i(6) by (auto simp: accounted_def places_def fs pc v)
    show "\<forall>(n, b) \<in> set (h_taken ?s'). b = handed junk E n" using i(7) by simp
  qed
  ultimately show ?thesis by blast
qed

lemma Mark_Close_keeps:
  assumes inv: "handoff_inv dir junk E s" and fs: "h_frames s = f # fs" and pc: "h_store s = Mark_Close fd"
  shows "\<exists>w. store_call dir (frame_args f) (Mark_Close fd) (h_world s) = Inr (Stored, w) \<and>
     handoff_inv dir junk E (s\<lparr>h_frames := fs, h_store := Data, h_world := w\<rparr>)"
proof -
  let ?w = "h_world s"
  note i = invD [OF inv]
  have "0 \<le> fd" using i(5) by (simp add: fds_ok_def pc)
  note c = close_call [OF this, of ?w]
  have sc: "scan_at dir junk E (h_scan s) ?w \<Longrightarrow> scan_at dir junk E (h_scan s) (sys_close fd ?w)"
    using i(5) c by (cases "h_scan s") (auto simp: fds_ok_def pc)
  have "handoff_inv dir junk E (s\<lparr>h_frames := fs, h_store := Data, h_world := sys_close fd ?w\<rparr>)"
    unfolding handoff_inv_def
  proof (intro conjI)
    let ?s' = "s\<lparr>h_frames := fs, h_store := Data, h_world := sys_close fd ?w\<rparr>"
    show "dir_ok dir (h_world ?s')" using i(1) by (simp add: dir_ok_def c)
    show "marks_ok dir E (half_purged (h_scan ?s')) (h_world ?s')"
      using i(2) by (simp add: marks_ok_def visible_def)
    show "frames_ok dir E (h_frames ?s') (h_store ?s') (h_world ?s')"
      using i(3) by (cases fs) (simp_all add: frames_ok_def \<open>h_frames s = f # fs\<close> data_free_def content_def)
    show "scan_ok dir junk E (h_scan ?s') (h_world ?s')" using i(4) sc by (simp add: scan_ok_def visible_def)
    show "fds_ok (store_fd (h_store ?s')) (scan_fd (h_scan ?s')) (h_world ?s')"
      using i(5) c by (auto simp: fds_ok_def pc)
    show "accounted dir E (places ?s') (h_world ?s')"
      using i(6) by (simp add: accounted_def places_def fs pc visible_def)
    show "\<forall>(n, b) \<in> set (h_taken ?s'). b = handed junk E n" using i(7) by simp
  qed
  then show ?thesis by simp
qed

section \<open>Calls of the scanning thread\<close>

text \<open>
  A call that removes at most the two files of \<open>n\<close>, which is not waiting to be made visible,
  leaves the storing thread what it relies on.
\<close>

lemma storing_side:
  assumes inv: "handoff_inv dir junk E s"
    and n: "n \<notin> frame_name ` set (pending (h_frames s) (h_store s))"
    and q: "\<And>q. node_at w q = node_at (h_world s) q \<or> (node_at w q = None \<and> (q = data_path dir n \<or> q = mark_path dir n))"
    and fd: "\<And>fd. fd \<in> set_option (store_fd (h_store s)) \<Longrightarrow> map_of (w_fds w) fd = map_of (w_fds (h_world s)) fd"
  shows "frames_ok dir E (h_frames s) (h_store s) w"
proof -
  let ?w = "h_world s"
  note i = invD(3) [OF inv]
  have df: "data_free dir m w" if "data_free dir m ?w" for m
    using q [of "data_path dir m"] that by (auto simp: data_free_def content_def)
  have st: "store_at dir f (h_store s) w" if "store_at dir f (h_store s) ?w" "h_frames s = f # fs" for f fs
  proof (cases "\<exists>fd. h_store s = Mark_Close fd")
    case False
    then have "frame_name f \<noteq> n" using n that(2) by (cases "h_store s") auto
    then have "node_at w (data_path dir (frame_name f)) = node_at ?w (data_path dir (frame_name f))"
      using q [of "data_path dir (frame_name f)"] by auto
    with that(1) fd df show ?thesis by (cases "h_store s") (auto simp: data_free_def content_def)
  qed auto
  from i df st show ?thesis by (auto simp: frames_ok_def split: list.splits)
qed

text \<open>A call that changes no file.\<close>

lemma scan_moves:
  assumes inv: "handoff_inv dir junk E s"
    and w: "node_at w = node_at (h_world s)" "fs_ok w" "w_wmax w = w_wmax (h_world s)"
    and fd: "\<And>fd. fd \<in> set_option (store_fd (h_store s)) \<Longrightarrow> map_of (w_fds w) fd = map_of (w_fds (h_world s)) fd"
    and half: "half_purged (h_scan s) = {}" "half_purged pc = {}"
    and sc: "scan_ok dir junk E pc w"
    and fds: "fds_ok (store_fd (h_store s)) (scan_fd pc) w"
    and hand: "in_hand pc @ map fst t = in_hand (h_scan s)" "\<forall>(n, b) \<in> set t. b = handed junk E n"
  shows "handoff_inv dir junk E (s\<lparr>h_scan := pc, h_taken := h_taken s @ t, h_world := w\<rparr>)"
  unfolding handoff_inv_def
proof (intro conjI)
  let ?s' = "s\<lparr>h_scan := pc, h_taken := h_taken s @ t, h_world := w\<rparr>"
  note i = invD [OF inv]
  have v: "visible dir w = visible dir (h_world s)" by (simp add: visible_def w)
  show "dir_ok dir (h_world ?s')" using i(1) w by (simp add: dir_ok_def)
  show "marks_ok dir E (half_purged (h_scan ?s')) (h_world ?s')" using i(2) half by (simp add: marks_ok_def v w)
  obtain x where x: "x \<notin> frame_name ` set (pending (h_frames s) (h_store s))"
    using ex_new_if_finite [OF infinite_UNIV_listI, of "frame_name ` set (pending (h_frames s) (h_store s))"] by auto
  show "frames_ok dir E (h_frames ?s') (h_store ?s') (h_world ?s')"
    using storing_side [OF inv x, of w] w fd by simp
  show "scan_ok dir junk E (h_scan ?s') (h_world ?s')" using sc by simp
  show "fds_ok (store_fd (h_store ?s')) (scan_fd (h_scan ?s')) (h_world ?s')" using fds by simp
  have "mset (places ?s') = mset (places s)" by (simp add: places_def flip: hand(1))
  then show "accounted dir E (places ?s') (h_world ?s')"
    using i(6) by (simp add: accounted_def v) (metis mset_eq_imp_distinct_iff mset_eq_setD)
  show "\<forall>(n, b) \<in> set (h_taken ?s'). b = handed junk E n" using i(7) hand(2) by auto
qed

text \<open>A call that removes a file of \<open>n\<close>.\<close>

lemma scan_removes:
  assumes inv: "handoff_inv dir junk E s"
    and n: "n \<noteq> ''closed''" "n \<notin> frame_name ` set (pending (h_frames s) (h_store s))"
    and p: "p = data_path dir n \<or> p = mark_path dir n"
    and w: "w = sys_unlink f (h_world s)" "resolve f = p" "node_at (h_world s) p \<noteq> Some Dir"
    and scan: "scan_fd (h_scan s) = None" "scan_fd pc = None"
    and new: "marks_ok dir E (half_purged pc) w" "scan_ok dir junk E pc w"
      "accounted dir E (places (s\<lparr>h_scan := pc, h_lost := h_lost s @ l\<rparr>)) w"
  shows "handoff_inv dir junk E (s\<lparr>h_scan := pc, h_lost := h_lost s @ l, h_world := w\<rparr>)"
proof -
  note i = invD [OF inv]
  have q: "node_at w q = (if q = p then None else node_at (h_world s) q)" for q
  proof (cases "node_at (h_world s) p")
    case (Some a)
    with w show ?thesis by (cases a) (auto simp: node_at_unlink)
  qed (use w in \<open>auto simp: node_at_unlink\<close>)
  have fds: "w_fds w = w_fds (h_world s)" using w(1) by simp
  have "dir_ok dir w" using i(1) w p n(1) unfolding dir_ok_def q by (auto simp: fs_ok_unlink)
  moreover have "frames_ok dir E (h_frames s) (h_store s) w"
    using p fds by (intro storing_side [OF inv n(2)]) (auto simp: q)
  moreover have "fds_ok (store_fd (h_store s)) (scan_fd pc) w" using i(5) fds scan by (auto simp: fds_ok_def)
  ultimately show ?thesis using i(7) new by (simp add: handoff_inv_def places_def)
qed

lemma visibleD:
  assumes "handoff_inv dir junk E s" and "n \<in> visible dir (h_world s)"
  shows "is_name n" "n \<noteq> ''closed''" "length dir + length n + 9 < 256"
    "\<exists>m. node_at (h_world s) (mark_path dir n) = Some (File m)"
    "n \<notin> half_purged (h_scan s) \<Longrightarrow> \<exists>c. E n = Some c \<and> node_at (h_world s) (data_path dir n) = Some (File c)"
    "n \<notin> set (places s)" "n \<notin> frame_name ` set (pending (h_frames s) (h_store s))" "n \<notin> set (in_hand (h_scan s))"
  using invD(2,6) [OF assms(1)] assms(2) by (auto simp: marks_ok_def accounted_def places_def)

text \<open>Removing a marker makes its name invisible and nothing else.\<close>

lemma visible_unmark:
  assumes "is_name n" and "node_at w (mark_path dir n) = Some (File m)" and "resolve f = mark_path dir n"
  shows "visible dir (sys_unlink f w) = visible dir w - {n}"
    and "node_at (sys_unlink f w) (data_path dir k) = node_at w (data_path dir k)"
    and "k \<noteq> n \<Longrightarrow> node_at (sys_unlink f w) (mark_path dir k) = node_at w (mark_path dir k)"
  using assms by (auto simp: visible_def node_at_unlink)

lemma marks_unmark:
  assumes "marks_ok dir E half w" and "is_name n" and "node_at w (mark_path dir n) = Some (File m)"
    and "resolve f = mark_path dir n" and "half \<subseteq> {n}"
  shows "marks_ok dir E {} (sys_unlink f w)"
  using assms(1,5) by (auto simp: marks_ok_def visible_unmark [OF assms(2-4)])

lemma Unmark_keeps:
  assumes inv: "handoff_inv dir junk E s" and pc: "h_scan s = Unmark n b ns"
  shows "handoff_inv dir junk E (s\<lparr>h_scan := Unlink n b ns, h_world := sys_unlink (dir @ ''/closed/'' @ n) (h_world s)\<rparr>)"
proof -
  define f where "f = dir @ ''/closed/'' @ n"
  note i = invD [OF inv]
  have vis: "n \<in> visible dir (h_world s)" using i(4) by (simp add: scan_ok_def pc)
  note v = visibleD [OF inv vis]
  obtain m where m: "node_at (h_world s) (mark_path dir n) = Some (File m)" using v(4) ..
  have r: "resolve f = mark_path dir n" using v(1) by (simp add: f_def)
  note u = visible_unmark [OF v(1) m r]
  have "handoff_inv dir junk E (s\<lparr>h_scan := Unlink n b ns, h_lost := h_lost s @ [],
      h_world := sys_unlink f (h_world s)\<rparr>)"
  proof (rule scan_removes [OF inv v(2,7) disjI2 [OF refl] refl r])
    show "marks_ok dir E (half_purged (Unlink n b ns)) (sys_unlink f (h_world s))"
      using marks_unmark [OF i(2) v(1) m r] by (simp add: pc)
    show "scan_ok dir junk E (Unlink n b ns) (sys_unlink f (h_world s))"
      using i(4) v(1) by (auto simp: scan_ok_def pc u)
    show "accounted dir E (places (s\<lparr>h_scan := Unlink n b ns, h_lost := h_lost s @ []\<rparr>)) (sys_unlink f (h_world s))"
      using i(6) vis unfolding accounted_def u by (auto simp: places_def pc)
  qed (simp_all add: m pc)
  then show ?thesis by (simp add: f_def)
qed

lemma Purge_Mark_keeps:
  assumes inv: "handoff_inv dir junk E s" and pc: "h_scan s = Purge_Mark n ns"
  shows "handoff_inv dir junk E (s\<lparr>h_scan := Purge ns, h_lost := h_lost s @ [n],
     h_world := sys_unlink (dir @ ''/closed/'' @ ''/'' @ n) (h_world s)\<rparr>)"
proof -
  define f where "f = dir @ ''/closed/'' @ ''/'' @ n"
  note i = invD [OF inv]
  have vis: "n \<in> visible dir (h_world s)" using i(4) by (simp add: scan_ok_def pc)
  note v = visibleD [OF inv vis]
  obtain m where m: "node_at (h_world s) (mark_path dir n) = Some (File m)" using v(4) ..
  have r: "resolve f = mark_path dir n" using v(1) by (simp add: f_def)
  note u = visible_unmark [OF v(1) m r]
  show ?thesis unfolding f_def [symmetric]
  proof (rule scan_removes [OF inv v(2,7) disjI2 [OF refl] refl r])
    show "marks_ok dir E (half_purged (Purge ns)) (sys_unlink f (h_world s))"
      using marks_unmark [OF i(2) v(1) m r] by (simp add: pc)
    show "scan_ok dir junk E (Purge ns) (sys_unlink f (h_world s))"
      using i(4) by (auto simp: scan_ok_def pc u)
    show "accounted dir E (places (s\<lparr>h_scan := Purge ns, h_lost := h_lost s @ [n]\<rparr>)) (sys_unlink f (h_world s))"
      using i(6) vis unfolding accounted_def u by (auto simp: places_def pc)
  qed (simp_all add: m pc)
qed

text \<open>Removing a data file hides no name.\<close>

lemma visible_undata:
  assumes "is_name n" and "resolve f = data_path dir n"
  shows "visible dir (sys_unlink f w) = visible dir w"
    and "node_at (sys_unlink f w) (mark_path dir k) = node_at w (mark_path dir k)"
    and "k \<noteq> n \<Longrightarrow> node_at (sys_unlink f w) (data_path dir k) = node_at w (data_path dir k)"
  using assms by (auto simp: visible_def node_at_unlink)

lemma Purge_keeps:
  assumes inv: "handoff_inv dir junk E s" and pc: "h_scan s = Purge (n # ns)"
  shows "handoff_inv dir junk E (s\<lparr>h_scan := Purge_Mark n ns, h_world := sys_unlink (dir @ ''/'' @ n) (h_world s)\<rparr>)"
proof -
  define f where "f = dir @ ''/'' @ n"
  note i = invD [OF inv]
  have vis: "n \<in> visible dir (h_world s)" using i(4) by (simp add: scan_ok_def pc)
  note v = visibleD [OF inv vis]
  obtain c where c: "node_at (h_world s) (data_path dir n) = Some (File c)" using v(5) by (auto simp: pc)
  have r: "resolve f = data_path dir n" using v(1) by (simp add: f_def)
  note u = visible_undata [OF v(1) r]
  have "handoff_inv dir junk E (s\<lparr>h_scan := Purge_Mark n ns, h_lost := h_lost s @ [],
      h_world := sys_unlink f (h_world s)\<rparr>)"
  proof (rule scan_removes [OF inv v(2,7) disjI1 [OF refl] refl r])
    show "marks_ok dir E (half_purged (Purge_Mark n ns)) (sys_unlink f (h_world s))"
      using i(2) by (auto simp: marks_ok_def u pc)
    show "scan_ok dir junk E (Purge_Mark n ns) (sys_unlink f (h_world s))"
      using i(4) by (auto simp: scan_ok_def pc u)
    show "accounted dir E (places (s\<lparr>h_scan := Purge_Mark n ns, h_lost := h_lost s @ []\<rparr>)) (sys_unlink f (h_world s))"
      using i(6) unfolding accounted_def u by (simp add: places_def pc)
  qed (simp_all add: c pc)
  then show ?thesis by (simp add: f_def)
qed

lemma Unlink_keeps:
  assumes inv: "handoff_inv dir junk E s" and pc: "h_scan s = Unlink n b ns"
  shows "handoff_inv dir junk E (s\<lparr>h_scan := Got n b ns, h_world := sys_unlink (dir @ ''/'' @ n) (h_world s)\<rparr>)"
proof -
  define f where "f = dir @ ''/'' @ n"
  note i = invD [OF inv]
  have n: "is_name n" "n \<notin> visible dir (h_world s)" "n \<notin> frame_name ` set (pending (h_frames s) (h_store s))"
    using i(4,6) by (auto simp: scan_ok_def accounted_def places_def pc)
  have r: "resolve f = data_path dir n" using n(1) by (simp add: f_def)
  note u = visible_undata [OF n(1) r]
  have q: "node_at (sys_unlink f (h_world s)) q = node_at (h_world s) q \<or>
     node_at (sys_unlink f (h_world s)) q = None \<and> q = data_path dir n \<and> (\<exists>c. node_at (h_world s) q = Some (File c))" for q
    by (auto simp: node_at_unlink r)
  have d: "node_at (sys_unlink f (h_world s)) q = Some Dir" if "node_at (h_world s) q = Some Dir" for q
    using q [of q] that by auto
  have "handoff_inv dir junk E (s\<lparr>h_scan := Got n b ns, h_world := sys_unlink f (h_world s)\<rparr>)"
    unfolding handoff_inv_def
  proof (intro conjI)
    let ?s' = "s\<lparr>h_scan := Got n b ns, h_world := sys_unlink f (h_world s)\<rparr>"
    show "dir_ok dir (h_world ?s')" using i(1) by (simp add: dir_ok_def fs_ok_unlink d)
    show "marks_ok dir E (half_purged (h_scan ?s')) (h_world ?s')"
      using i(2) n(2) by (simp add: marks_ok_def u pc) (metis u(3))
    show "frames_ok dir E (h_frames ?s') (h_store ?s') (h_world ?s')"
      using storing_side [OF inv n(3), of "sys_unlink f (h_world s)"] q by simp blast
    show "scan_ok dir junk E (h_scan ?s') (h_world ?s')" using i(4) by (simp add: scan_ok_def u pc)
    show "fds_ok (store_fd (h_store ?s')) (scan_fd (h_scan ?s')) (h_world ?s')"
      using i(5) by (simp add: fds_ok_def pc)
    show "accounted dir E (places ?s') (h_world ?s')" using i(6) by (simp add: accounted_def u places_def pc)
    show "\<forall>(n, b) \<in> set (h_taken ?s'). b = handed junk E n" using i(7) by simp
  qed
  then show ?thesis by (simp add: f_def)
qed

lemma listing:
  assumes inv: "handoff_inv dir junk E s" and half: "half_purged (h_scan s) = {}"
  shows "set (shm_ls dir (h_world s)) = visible dir (h_world s)" and "distinct (shm_ls dir (h_world s))"
    and "scandir (h_world s) (dir @ ''/closed/'') file_select_2 = Some (shm_ls dir (h_world s))"
proof -
  note i = invD [OF inv]
  have ok: "spool_ok dir (h_world s)"
    using i(1,2) by (auto simp: spool_ok_def dir_ok_def marks_ok_def visible_def half)
  have "dom (spool_view dir (h_world s)) = visible dir (h_world s)"
    by (auto simp: spool_view_def visible_def split: if_splits)
  then show "set (shm_ls dir (h_world s)) = visible dir (h_world s)" "distinct (shm_ls dir (h_world s))"
    using shm_ls_sorted [OF ok] by simp_all
  show "scandir (h_world s) (dir @ ''/closed/'') file_select_2 = Some (shm_ls dir (h_world s))"
    using i(1) by (simp add: shm_ls_def scandir_def dir_ok_def)
qed

text \<open>Moves without a call that matters to the world.\<close>

lemma scan_stays:
  assumes inv: "handoff_inv dir junk E s"
    and half: "half_purged (h_scan s) = {}" "half_purged pc = {}"
    and sc: "distinct (scan_names pc)" "set (scan_names pc) \<subseteq> visible dir (h_world s)" "scan_at dir junk E pc (h_world s)"
    and fd: "scan_fd pc = None"
    and hand: "in_hand pc @ map fst t = in_hand (h_scan s)" "\<forall>(n, b) \<in> set t. b = handed junk E n"
  shows "handoff_inv dir junk E (s\<lparr>h_scan := pc, h_taken := h_taken s @ t\<rparr>)"
proof -
  have "scan_ok dir junk E pc (h_world s)" using sc by (simp add: scan_ok_def)
  moreover have "fds_ok (store_fd (h_store s)) (scan_fd pc) (h_world s)"
    using invD(5) [OF inv] fd by (simp add: fds_ok_def)
  moreover have "fs_ok (h_world s)" using invD(1) [OF inv] by (simp add: dir_ok_def)
  ultimately show ?thesis
    using scan_moves [OF inv refl _ refl refl half _ _ hand] by simp
qed

lemma Files_keeps:
  assumes inv: "handoff_inv dir junk E s" and pc: "h_scan s = Files (n # ns)"
  shows "\<exists>fd w. open_rdonly (dir @ ''/'' @ n) (h_world s) = (fd, w) \<and> 0 \<le> fd \<and>
     handoff_inv dir junk E (s\<lparr>h_scan := Read n fd ns, h_world := w\<rparr>)"
proof -
  let ?w = "h_world s" and ?f = "dir @ ''/'' @ n"
  note i = invD [OF inv]
  have "n \<in> visible dir ?w" using i(4) by (simp add: scan_ok_def pc)
  note v = visibleD [OF inv this]
  obtain c where c: "node_at ?w (resolve ?f) = Some (File c)" using v(1,5) by (auto simp: pc)
  obtain fd w where o: "open_rdonly ?f ?w = (fd, w)" by (cases "open_rdonly ?f ?w")
  note k = open_rdonly_call [OF c o]
  have vis: "visible dir w = visible dir ?w" by (simp add: visible_def k(4))
  have "handoff_inv dir junk E (s\<lparr>h_scan := Read n fd ns, h_taken := h_taken s @ [], h_world := w\<rparr>)"
  proof (rule scan_moves [OF inv k(4)])
    show "fs_ok w" using i(1) k(5) by (simp add: dir_ok_def)
    show "w_wmax w = w_wmax ?w" by (rule k(6))
    show "map_of (w_fds w) fd' = map_of (w_fds ?w) fd'" if "fd' \<in> set_option (store_fd (h_store s))" for fd'
      using i(5) that k(2,3) by (auto simp: fds_ok_def)
    show "scan_ok dir junk E (Read n fd ns) w" using i(4) k(3) v(1) by (simp add: scan_ok_def pc vis)
    show "fds_ok (store_fd (h_store s)) (scan_fd (Read n fd ns)) w"
      using i(5) k(1,2,3) by (auto simp: fds_ok_def pc)
  qed (simp_all add: pc)
  with o k(1) show ?thesis by auto
qed

lemma Read_keeps:
  assumes inv: "handoff_inv dir junk E s" and pc: "h_scan s = Read n fd ns"
  shows "\<exists>w. scan_call dir nds junk r (Read n fd ns) (h_world s) = Inr (Read_Close n fd (handed junk E n) ns, w) \<and>
     handoff_inv dir junk E (s\<lparr>h_scan := Read_Close n fd (handed junk E n) ns, h_world := w\<rparr>)"
proof -
  let ?w = "h_world s"
  note i = invD [OF inv]
  have vis: "n \<in> visible dir ?w" and at: "map_of (w_fds ?w) fd = Some \<lparr>d_path = data_path dir n, d_pos = 0\<rparr>"
    using i(4) by (simp_all add: scan_ok_def pc)
  obtain c where c: "E n = Some c" "node_at ?w (data_path dir n) = Some (File c)"
    using visibleD(5) [OF inv vis] by (auto simp: pc)
  obtain k bs w where o: "sys_read fd 0x20000 ?w = (k, bs, w)" by (cases "sys_read fd 0x20000 ?w")
  note q = read_call [OF at c(2) o]
  have "poke 0 bs (b_mem (buffer_new 0x80000 (junk n))) = Inr (overwrite 0 bs (b_mem (buffer_new 0x80000 (junk n))))"
    using q(1) by (simp add: poke_def buffer_new_def)
  moreover have "setPayloadSize (word_of_int k - 20)
      (buffer_new 0x80000 (junk n)\<lparr>b_mem := overwrite 0 bs (b_mem (buffer_new 0x80000 (junk n)))\<rparr>) = handed junk E n"
    using q(1,2) by (simp add: handed_def pulled_def c(1))
  ultimately have run: "scan_call dir nds junk r (Read n fd ns) ?w = Inr (Read_Close n fd (handed junk E n) ns, w)"
    using o by (simp add: Let_def)
  have v: "visible dir w = visible dir ?w" by (simp add: visible_def q(3))
  have "handoff_inv dir junk E (s\<lparr>h_scan := Read_Close n fd (handed junk E n) ns, h_taken := h_taken s @ [], h_world := w\<rparr>)"
  proof (rule scan_moves [OF inv q(3)])
    show "fs_ok w" using i(1) q(4) by (simp add: dir_ok_def)
    show "w_wmax w = w_wmax ?w" by (rule q(5))
    show "map_of (w_fds w) fd' = map_of (w_fds ?w) fd'" if "fd' \<in> set_option (store_fd (h_store s))" for fd'
      using i(5) that by (intro q(6)) (auto simp: fds_ok_def pc)
    show "scan_ok dir junk E (Read_Close n fd (handed junk E n) ns) w" using i(4) by (simp add: scan_ok_def pc v)
    show "fds_ok (store_fd (h_store s)) (scan_fd (Read_Close n fd (handed junk E n) ns)) w"
      using i(5) q(6,7) by (auto simp: fds_ok_def pc)
  qed (simp_all add: pc)
  with run show ?thesis by simp
qed

lemma Read_Close_keeps:
  assumes inv: "handoff_inv dir junk E s" and pc: "h_scan s = Read_Close n fd b ns"
  shows "handoff_inv dir junk E (s\<lparr>h_scan := Unmark n b ns, h_world := sys_close fd (h_world s)\<rparr>)"
proof -
  let ?w = "h_world s"
  note i = invD [OF inv]
  have "0 \<le> fd" using i(5) by (simp add: fds_ok_def pc)
  note c = close_call [OF this, of ?w]
  have "handoff_inv dir junk E (s\<lparr>h_scan := Unmark n b ns, h_taken := h_taken s @ [], h_world := sys_close fd ?w\<rparr>)"
  proof (rule scan_moves [OF inv node_at_close])
    show "fs_ok (sys_close fd ?w)" using i(1) c(2) by (simp add: dir_ok_def)
    show "w_wmax (sys_close fd ?w) = w_wmax ?w" by (rule c(3))
    show "map_of (w_fds (sys_close fd ?w)) fd' = map_of (w_fds ?w) fd'" if "fd' \<in> set_option (store_fd (h_store s))" for fd'
      using i(5) that c(1) by (auto simp: fds_ok_def pc)
    show "scan_ok dir junk E (Unmark n b ns) (sys_close fd ?w)" using i(4) by (simp add: scan_ok_def pc visible_def)
    show "fds_ok (store_fd (h_store s)) (scan_fd (Unmark n b ns)) (sys_close fd ?w)"
      using i(5) c(1) by (auto simp: fds_ok_def pc)
  qed (simp_all add: pc)
  then show ?thesis by simp
qed

end
