(* ===== verification/Handoff_Spec.thy ===== *)
theory Handoff_Spec
  imports Handoff_Calls
begin

text \<open>
  The two threads do not disturb each other: whatever the order of their calls, a fragment that
  the scanning thread takes is complete, is taken once, and none is lost but in a purge; but a
  scan that comes between the fragments of an event does purge them. After \<^verbatim>\<open>stop\<close> the scanning
  thread ends.
\<close>

section \<open>Every step keeps the invariant\<close>

lemma store_keeps:
  assumes inv: "handoff_inv dir junk E s" and fs: "h_frames s = f # fs"
  shows "\<exists>pc w. store_call dir (frame_args f) (h_store s) (h_world s) = Inr (pc, w) \<and>
     handoff_inv dir junk E
       (s\<lparr>h_frames := (if pc = Stored then fs else f # fs), h_store := (if pc = Stored then Data else pc), h_world := w\<rparr>)"
proof -
  have same: "s\<lparr>h_frames := f # fs, h_store := pc, h_world := w\<rparr> = s\<lparr>h_store := pc, h_world := w\<rparr>" for pc w
    using fs by simp
  show ?thesis
  proof (cases "h_store s")
    case Data
    from Data_keeps [OF inv fs this] show ?thesis by (auto simp: Data same)
  next
    case (Write fd)
    from Write_keeps [OF inv fs this] show ?thesis by (auto simp: Write same)
  next
    case (Close fd c)
    from Close_keeps [OF inv fs this] show ?thesis by (auto simp: Close same)
  next
    case Mark
    from Mark_keeps [OF inv fs this] show ?thesis by (auto simp: Mark same)
  next
    case (Mark_Close fd)
    from Mark_Close_keeps [OF inv fs this] show ?thesis by (auto simp: Mark_Close)
  next
    case Stored
    with invD(3) [OF inv] fs show ?thesis by (simp add: frames_ok_def)
  qed
qed

text \<open>The steps of the scan that leave the file system as it is, then those that do not.\<close>

lemma scan_looks_keeps:
  assumes inv: "handoff_inv dir junk E s" and nds: "0 < nds"
    and pc: "h_scan s \<in> {Head, Listing, Files [], Purge_List, Purge []} \<or> (\<exists>n b ns. h_scan s = Got n b ns)"
  shows "\<exists>pc w. scan_call dir nds junk (h_running s) (h_scan s) (h_world s) = Inr (pc, w) \<and>
     handoff_inv dir junk E
       (s\<lparr>h_scan := pc, h_taken := h_taken s @ taken_by (h_scan s), h_lost := h_lost s @ lost_by (h_scan s), h_world := w\<rparr>)"
  using pc
proof (elim disjE insertE emptyE exE)
  assume pc: "h_scan s = Head"
  have "handoff_inv dir junk E (s\<lparr>h_scan := (if h_running s then Listing else Ended), h_taken := h_taken s @ []\<rparr>)"
    by (rule scan_stays [OF inv]) (simp_all add: pc)
  then show ?thesis by (simp add: pc taken_by_def lost_by_def)
next
  assume pc: "h_scan s = Listing"
  let ?pc = "if shm_ls dir (h_world s) = [] then Head
    else if length (shm_ls dir (h_world s)) mod nds \<noteq> 0 then Purge_List else Files (shm_ls dir (h_world s))"
  have "handoff_inv dir junk E (s\<lparr>h_scan := ?pc, h_taken := h_taken s @ []\<rparr>)"
    by (rule scan_stays [OF inv]) (use listing [OF inv] in \<open>simp_all add: pc\<close>)
  then show ?thesis using nds by (auto simp: pc taken_by_def lost_by_def Let_def split: if_splits)
next
  assume pc: "h_scan s = Purge_List"
  have "handoff_inv dir junk E (s\<lparr>h_scan := Purge (shm_ls dir (h_world s)), h_taken := h_taken s @ []\<rparr>)"
    by (rule scan_stays [OF inv]) (use listing [OF inv] in \<open>simp_all add: pc\<close>)
  moreover have "scandir (h_world s) (dir @ ''/closed/'') file_select_2 = Some (shm_ls dir (h_world s))"
    by (rule listing(3) [OF inv]) (simp add: pc)
  ultimately show ?thesis by (simp add: pc taken_by_def lost_by_def)
next
  assume pc: "h_scan s = Files []"
  have "handoff_inv dir junk E (s\<lparr>h_scan := Head, h_taken := h_taken s @ []\<rparr>)"
    by (rule scan_stays [OF inv]) (simp_all add: pc)
  then show ?thesis by (simp add: pc taken_by_def lost_by_def)
next
  assume pc: "h_scan s = Purge []"
  have "handoff_inv dir junk E (s\<lparr>h_scan := Head, h_taken := h_taken s @ []\<rparr>)"
    by (rule scan_stays [OF inv]) (simp_all add: pc)
  then show ?thesis by (simp add: pc taken_by_def lost_by_def)
next
  fix n b ns
  assume pc: "h_scan s = Got n b ns"
  have "handoff_inv dir junk E (s\<lparr>h_scan := Files ns, h_taken := h_taken s @ [(n, b)]\<rparr>)"
    by (rule scan_stays [OF inv]) (use invD(4) [OF inv] in \<open>auto simp: pc scan_ok_def\<close>)
  then show ?thesis by (simp add: pc taken_by_def lost_by_def)
qed

lemma scan_keeps:
  assumes inv: "handoff_inv dir junk E s" and go: "h_scan s \<noteq> Ended" and nds: "0 < nds"
  shows "\<exists>pc w. scan_call dir nds junk (h_running s) (h_scan s) (h_world s) = Inr (pc, w) \<and>
     handoff_inv dir junk E
       (s\<lparr>h_scan := pc, h_taken := h_taken s @ taken_by (h_scan s), h_lost := h_lost s @ lost_by (h_scan s), h_world := w\<rparr>)"
proof (cases "h_scan s")
  case (Files ns)
  show ?thesis
  proof (cases ns)
    case Nil
    with Files show ?thesis by (intro scan_looks_keeps [OF inv nds]) simp
  next
    case (Cons n ms)
    from Files_keeps [OF inv Files [unfolded Cons]] show ?thesis
      by (auto simp: Files Cons taken_by_def lost_by_def)
  qed
next
  case (Read n fd ns)
  from Read_keeps [OF inv Read, of nds "h_running s"] show ?thesis by (auto simp: Read taken_by_def lost_by_def)
next
  case (Read_Close n fd b ns)
  from Read_Close_keeps [OF inv this] show ?thesis by (simp add: Read_Close taken_by_def lost_by_def)
next
  case (Unmark n b ns)
  from Unmark_keeps [OF inv this] show ?thesis by (simp add: Unmark taken_by_def lost_by_def)
next
  case (Unlink n b ns)
  from Unlink_keeps [OF inv this] show ?thesis by (simp add: Unlink taken_by_def lost_by_def)
next
  case (Purge ns)
  show ?thesis
  proof (cases ns)
    case Nil
    with Purge show ?thesis by (intro scan_looks_keeps [OF inv nds]) simp
  next
    case (Cons n ms)
    have "n \<in> visible dir (h_world s)" using invD(4) [OF inv] by (simp add: scan_ok_def Purge Cons)
    from visibleD(3) [OF inv this] Purge_keeps [OF inv Purge [unfolded Cons]] show ?thesis
      by (simp add: Purge Cons taken_by_def lost_by_def sprintf_into_def)
  qed
next
  case (Purge_Mark n ns)
  have "n \<in> visible dir (h_world s)" using invD(4) [OF inv] by (simp add: scan_ok_def Purge_Mark)
  from visibleD(3) [OF inv this] Purge_Mark_keeps [OF inv Purge_Mark] show ?thesis
    by (simp add: Purge_Mark taken_by_def lost_by_def sprintf_into_def)
qed (use go in \<open>(simp; fail | intro scan_looks_keeps [OF inv nds]; simp; fail)+\<close>)

lemma handoff_step_keeps:
  assumes step: "handoff_step dir nds junk s s'" and inv: "handoff_inv dir junk E s" and nds: "0 < nds"
  shows "handoff_inv dir junk E s'"
  using step
proof (cases rule: handoff_step.cases)
  case (store f fs pc w)
  with store_keeps [OF inv store(2)] show ?thesis by auto
next
  case (scan pc w)
  with scan_keeps [OF inv scan(2) nds] show ?thesis by auto
next
  case halt
  with inv show ?thesis by (simp add: handoff_inv_def places_def)
next
  case (others w)
  with elsewhere_keeps [OF inv] show ?thesis by simp
qed

lemma handoff_reach:
  assumes "(handoff_step dir nds junk)\<^sup>*\<^sup>* s s'" and "handoff_inv dir junk E s" and "0 < nds"
  shows "handoff_inv dir junk E s'"
  using assms by (induction rule: rtranclp_induct) (auto intro: handoff_step_keeps)

section \<open>What the threads do together\<close>

definition handoff_start :: "frame list \<Rightarrow> world \<Rightarrow> handoff" where
  "handoff_start fs w = \<lparr>h_frames = fs, h_store = Data, h_scan = Head, h_running = True, h_taken = [], h_lost = [], h_world = w\<rparr>"

definition new_frames :: "string \<Rightarrow> frame list \<Rightarrow> world \<Rightarrow> bool" where
  "new_frames dir fs w \<longleftrightarrow> distinct (map frame_name fs) \<and> (\<forall>f \<in> set fs. short f \<and>
     spool_view dir w (frame_name f) = None \<and> content w (data_path dir (frame_name f)) = [])"

text \<open>The fragments of the directory and those to be stored.\<close>

definition history :: "string \<Rightarrow> frame list \<Rightarrow> world \<Rightarrow> string \<Rightarrow> byte list option" where
  "history dir fs w = spool_view dir w ++ map_of (map (\<lambda>f. (frame_name f, frame_bytes f)) fs)"

lemma history_frames:
  assumes "distinct (map frame_name fs)" and "f \<in> set fs"
  shows "history dir fs w (frame_name f) = Some (frame_bytes f)"
proof -
  have "map_of (map (\<lambda>f. (frame_name f, frame_bytes f)) fs) (frame_name f) = Some (frame_bytes f)"
    using assms by (intro map_of_is_SomeI) (auto simp: comp_def)
  then show ?thesis by (simp add: history_def)
qed

lemma start_inv:
  assumes "plain_spool dir w" and "new_frames dir fs w"
  shows "handoff_inv dir junk (history dir fs w) (handoff_start fs w)"
proof -
  let ?E = "history dir fs w"
  have ok: "spool_ok dir w" and lim: "0x20014 \<le> w_wmax w" "length dir < 180"
    and nd: "\<And>f. node_at w (data_path dir (frame_name f)) \<noteq> Some Dir" using assms(1) by (simp_all add: plain_spool_def)
  have nw: "distinct (map frame_name fs)" "\<forall>f \<in> set fs. short f \<and> frame_name f \<notin> visible dir w \<and> data_free dir (frame_name f) w"
    using assms(2) nd by (auto simp: new_frames_def spool_view_def visible_def data_free_def split: if_splits)
  have vis: "dom (spool_view dir w) = visible dir w" by (auto simp: spool_view_def visible_def split: if_splits)
  have E: "?E n = spool_view dir w n" if "n \<in> visible dir w" for n
  proof -
    have "map_of (map (\<lambda>f. (frame_name f, frame_bytes f)) fs) n = None"
      using nw(2) that by (auto simp: map_of_eq_None_iff)
    then show ?thesis by (simp add: history_def map_add_def)
  qed
  have "marks_ok dir ?E {} w"
    unfolding marks_ok_def
  proof
    fix n assume n: "n \<in> visible dir w"
    then obtain c where "spool_view dir w n = Some c" using vis by auto
    with spool_viewD [OF ok this] E [OF n] ok n show "is_name n \<and> n \<noteq> ''closed'' \<and> file_select_2 n \<and> length dir + length n + 9 < 256 \<and>
       (\<exists>m. node_at w (mark_path dir n) = Some (File m)) \<and>
       (n \<notin> {} \<longrightarrow> (\<exists>c. ?E n = Some c \<and> node_at w (data_path dir n) = Some (File c)))"
      by (simp add: spool_ok_def visible_def)
  qed
  moreover have "frames_ok dir ?E fs Data w"
    using nw history_frames [OF nw(1)] by (auto simp: frames_ok_def split: list.splits dest: list.set_sel(2))
  moreover have "dom ?E = frame_name ` set fs \<union> visible dir w"
    by (auto simp: history_def vis dom_map_of_conv_image_fst image_image)
  then have "accounted dir ?E (places (handoff_start fs w)) w"
    using nw by (auto simp: accounted_def places_def handoff_start_def)
  moreover have "dir_ok dir w" using ok lim by (simp add: dir_ok_def spool_ok_def)
  ultimately show ?thesis by (simp add: handoff_inv_def handoff_start_def scan_ok_def fds_ok_def)
qed

text \<open>
  C7: whatever the order of the system calls of the storing and the scanning thread, and whatever the
  rest of the process does in its own directories between them: no call faults; every buffer
  the scanning thread takes holds the whole fragment that was stored under its name (cut to
  128 kB), no name is taken twice or both taken and purged; and whenever the storing thread is
  done and the scanning thread at its loop head, the directory holds exactly the fragments
  that were neither taken nor purged, complete.
\<close>

theorem handoff_whole:
  assumes "plain_spool dir w" and "new_frames dir fs w" and "0 < nds"
    and "(handoff_step dir nds junk)\<^sup>*\<^sup>* (handoff_start fs w) s"
  shows "(\<forall>(n, b) \<in> set (h_taken s). \<exists>c. history dir fs w n = Some c \<and> b = pulled (junk n) (take 0x20000 c)) \<and>
     (\<forall>f \<in> set fs. \<forall>b. (frame_name f, b) \<in> set (h_taken s) \<and> length (frame_bytes f) \<le> 0x20000 \<longrightarrow> frame_of b = f) \<and>
     distinct (map fst (h_taken s) @ h_lost s) \<and>
     (h_frames s = [] \<and> h_scan s \<in> {Head, Ended} \<longrightarrow>
        spool_view dir (h_world s) = history dir fs w |` (- (fst ` set (h_taken s) \<union> set (h_lost s)))) \<and>
     (h_scan s \<noteq> Ended \<longrightarrow> (\<exists>r. scan_call dir nds junk (h_running s) (h_scan s) (h_world s) = Inr r)) \<and>
     (h_frames s \<noteq> [] \<longrightarrow> (\<exists>r. store_call dir (frame_args (hd (h_frames s))) (h_store s) (h_world s) = Inr r))"
proof (intro conjI impI)
  let ?E = "history dir fs w"
  have inv: "handoff_inv dir junk ?E s" by (rule handoff_reach [OF assms(4) start_inv [OF assms(1,2)] assms(3)])
  note i = invD [OF inv]
  have dom: "fst ` set (h_taken s) \<subseteq> dom ?E" and dist: "distinct (map fst (h_taken s) @ h_lost s)"
    using i(6) by (auto simp: accounted_def places_def)
  show taken: "\<forall>(n, b) \<in> set (h_taken s). \<exists>c. ?E n = Some c \<and> b = pulled (junk n) (take 0x20000 c)"
  proof (rule ballI, unfold case_prod_beta)
    fix p assume p: "p \<in> set (h_taken s)"
    then have "fst p \<in> dom ?E" using dom by blast
    then obtain c where c: "?E (fst p) = Some c" by auto
    from i(7) p have "snd p = handed junk ?E (fst p)" by (auto simp: case_prod_beta)
    with c show "\<exists>c. ?E (fst p) = Some c \<and> snd p = pulled (junk (fst p)) (take 0x20000 c)"
      by (intro exI [of _ c]) (simp only: handed_def option.sel simp_thms)
  qed
  show "\<forall>f \<in> set fs. \<forall>b. (frame_name f, b) \<in> set (h_taken s) \<and> length (frame_bytes f) \<le> 0x20000 \<longrightarrow> frame_of b = f"
  proof (intro ballI allI impI)
    fix f b assume f: "f \<in> set fs" and b: "(frame_name f, b) \<in> set (h_taken s) \<and> length (frame_bytes f) \<le> 0x20000"
    have "distinct (map frame_name fs)" using assms(2) by (simp add: new_frames_def)
    from history_frames [OF this f] b taken have "b = pulled (junk (frame_name f)) (frame_bytes f)" by fastforce
    with b show "frame_of b = f" by (simp add: pulled_fragment(2))
  qed
  show "distinct (map fst (h_taken s) @ h_lost s)" by (rule dist)
  show "spool_view dir (h_world s) = ?E |` (- (fst ` set (h_taken s) \<union> set (h_lost s)))"
    if "h_frames s = [] \<and> h_scan s \<in> {Head, Ended}"
    using that i(2,3,6) by (auto simp: spool_view_def fun_eq_iff restrict_map_def content_def marks_ok_def visible_def
        accounted_def places_def frames_ok_def domIff)
  show "\<exists>r. scan_call dir nds junk (h_running s) (h_scan s) (h_world s) = Inr r" if "h_scan s \<noteq> Ended"
    using scan_keeps [OF inv that assms(3)] by blast
  show "\<exists>r. store_call dir (frame_args (hd (h_frames s))) (h_store s) (h_world s) = Inr r" if "h_frames s \<noteq> []"
    using store_keeps [OF inv, of "hd (h_frames s)" "tl (h_frames s)"] that by auto
qed

section \<open>The scanning thread ends\<close>

text \<open>The calls left on the lists of a pass, and the stage of the pass.\<close>

instantiation scan_pc :: size
begin

fun size_scan_pc :: "scan_pc \<Rightarrow> nat" where
  "size_scan_pc (Files ns) = 6 * length ns + 1"
| "size_scan_pc (Read n fd ns) = 6 * length ns + 6"
| "size_scan_pc (Read_Close n fd b ns) = 6 * length ns + 5"
| "size_scan_pc (Unmark n b ns) = 6 * length ns + 4"
| "size_scan_pc (Unlink n b ns) = 6 * length ns + 3"
| "size_scan_pc (Got n b ns) = 6 * length ns + 2"
| "size_scan_pc (Purge ns) = 2 * length ns + 1"
| "size_scan_pc (Purge_Mark n ns) = 2 * length ns + 2"
| "size_scan_pc pc = 0"

instance ..

end

fun stage :: "scan_pc \<Rightarrow> nat" where
  "stage Ended = 0"
| "stage Head = 1"
| "stage Purge_List = 3"
| "stage Listing = 4"
| "stage pc = 2"

definition pc_less :: "(scan_pc \<times> scan_pc) set" where
  "pc_less = inv_image (less_than <*lex*> less_than) (\<lambda>pc. (stage pc, size pc))"

lemma wf_pc_less: "wf pc_less"
  by (auto simp: pc_less_def)

lemma scan_call_less:
  "scan_call dir nds junk False pc w = Inr (pc', w') \<Longrightarrow> pc \<noteq> Ended \<Longrightarrow> (pc', pc) \<in> pc_less"
  by (cases "(dir, nds, junk, False, pc, w)" rule: scan_call.cases)
    (auto simp: pc_less_def Let_def split: prod.splits if_splits option.splits)

text \<open>One turn of the scanning thread.\<close>

definition scan_turn :: "string \<Rightarrow> nat \<Rightarrow> (string \<Rightarrow> nat \<Rightarrow> byte) \<Rightarrow> handoff \<Rightarrow> handoff \<Rightarrow> bool" where
  "scan_turn dir nds junk s s' \<longleftrightarrow> h_scan s \<noteq> Ended \<and>
     (\<exists>w. scan_call dir nds junk (h_running s) (h_scan s) (h_world s) = Inr (h_scan s', w))"

lemma handoff_step_scan:
  assumes "handoff_step dir nds junk s s'" and "\<not> h_running s"
  shows "\<not> h_running s'" and "h_scan s' = h_scan s \<or> (h_scan s', h_scan s) \<in> pc_less"
  using assms by (auto elim!: handoff_stepE dest: scan_call_less)

text \<open>
  C9: \<^verbatim>\<open>stop\<close> returns: once the running flag is false, in every infinite execution in which the
  scanning thread gets turns again and again it ends, whatever the other thread stores
  meanwhile and wherever in its pass it was. So joining it comes back.
\<close>

theorem scan_thread_ends:
  assumes steps: "\<And>i. handoff_step dir nds junk (h i) (h (Suc i))" and stopped: "\<not> h_running (h 0)"
    and fair: "\<And>i. \<exists>j \<ge> i. h_scan (h j) = Ended \<or> scan_turn dir nds junk (h j) (h (Suc j))"
  shows "\<exists>i. h_scan (h i) = Ended \<and> (\<forall>j \<ge> i. h_scan (h j) = Ended)"
proof -
  have off: "\<not> h_running (h i)" for i
    using stopped handoff_step_scan(1) [OF steps] by (induction i) auto
  have mono: "(h_scan (h (i + k)), h_scan (h i)) \<in> pc_less\<^sup>=" for i k
  proof (induction k)
    case (Suc k)
    have "trans pc_less" by (simp add: pc_less_def trans_inv_image)
    with Suc handoff_step_scan(2) [OF steps off, of "i + k"] show ?case by (auto dest: transD)
  qed simp
  obtain pc where pc: "pc \<in> range (\<lambda>i. h_scan (h i))" "\<And>pc'. (pc', pc) \<in> pc_less \<Longrightarrow> pc' \<notin> range (\<lambda>i. h_scan (h i))"
    using wfE_min [OF wf_pc_less, of "h_scan (h 0)" "range (\<lambda>i. h_scan (h i))"] by auto
  then obtain i where i: "h_scan (h i) = pc" by auto
  have stay: "h_scan (h j) = pc" if "j \<ge> i" for j
    using mono [of i "j - i"] that pc(2) [of "h_scan (h j)"] i by auto
  obtain j where j: "j \<ge> i" "h_scan (h j) = Ended \<or> scan_turn dir nds junk (h j) (h (Suc j))" using fair by blast
  have "h_scan (h j) = Ended"
  proof (rule ccontr)
    assume "h_scan (h j) \<noteq> Ended"
    with j(2) off have "(h_scan (h (Suc j)), h_scan (h j)) \<in> pc_less" by (auto simp: scan_turn_def dest: scan_call_less)
    then show False using pc(2) stay [of j] j(1) by auto
  qed
  with stay [of j] j(1) stay show ?thesis by auto
qed

section \<open>A set that is scanned before it is whole\<close>

text \<open>The storing thread alone, for one frame: its name becomes visible.\<close>

lemma visible_accounted:
  assumes "handoff_inv dir junk E s"
  shows "visible dir (h_world s) = dom E - set (places s)"
  using invD(6) [OF assms] by (auto simp: accounted_def)

lemma store_turn:
  assumes "h_frames s = f # fs" and "store_call dir (frame_args f) (h_store s) (h_world s) = Inr (pc, w)" and "pc \<noteq> Stored"
  shows "handoff_step dir nds junk s (s\<lparr>h_store := pc, h_world := w\<rparr>)"
proof -
  have "s\<lparr>h_store := pc, h_world := w\<rparr> = s\<lparr>h_frames := f # fs, h_store := pc, h_world := w\<rparr>" using assms(1) by simp
  with handoff_step.store [OF assms(1,2), of nds junk] assms(3) show ?thesis by (simp only: if_False)
qed

lemma store_one:
  assumes inv: "handoff_inv dir junk E s" and fs: "h_frames s = f # fs" and pc: "h_store s = Data" and nds: "0 < nds"
  obtains w where "(handoff_step dir nds junk)\<^sup>*\<^sup>* s (s\<lparr>h_frames := fs, h_world := w\<rparr>)"
    and "handoff_inv dir junk E (s\<lparr>h_frames := fs, h_world := w\<rparr>)"
proof -
  from Data_keeps [OF inv fs pc] obtain fd1 w1 where
    c1: "store_call dir (frame_args f) (h_store s) (h_world s) = Inr (Write fd1, w1)"
    and i1: "handoff_inv dir junk E (s\<lparr>h_store := Write fd1, h_world := w1\<rparr>)" (is "handoff_inv _ _ _ ?s1") by (auto simp: pc)
  have f1: "h_frames ?s1 = f # fs" using fs by simp
  from Write_keeps [OF i1 f1] obtain w2 where
    c2: "store_call dir (frame_args f) (h_store ?s1) (h_world ?s1) = Inr (Close fd1 True, w2)"
    and i2: "handoff_inv dir junk E (?s1\<lparr>h_store := Close fd1 True, h_world := w2\<rparr>)" (is "handoff_inv _ _ _ ?s2") by auto
  have f2: "h_frames ?s2 = f # fs" using fs by simp
  from Close_keeps [OF i2 f2] obtain w3 where
    c3: "store_call dir (frame_args f) (h_store ?s2) (h_world ?s2) = Inr (Mark, w3)"
    and i3: "handoff_inv dir junk E (?s2\<lparr>h_store := Mark, h_world := w3\<rparr>)" (is "handoff_inv _ _ _ ?s3") by auto
  have f3: "h_frames ?s3 = f # fs" using fs by simp
  from Mark_keeps [OF i3 f3] obtain fd2 w4 where
    c4: "store_call dir (frame_args f) (h_store ?s3) (h_world ?s3) = Inr (Mark_Close fd2, w4)"
    and i4: "handoff_inv dir junk E (?s3\<lparr>h_store := Mark_Close fd2, h_world := w4\<rparr>)" (is "handoff_inv _ _ _ ?s4") by auto
  have f4: "h_frames ?s4 = f # fs" using fs by simp
  from Mark_Close_keeps [OF i4 f4] obtain w5 where
    c5: "store_call dir (frame_args f) (h_store ?s4) (h_world ?s4) = Inr (Stored, w5)"
    and i5: "handoff_inv dir junk E (s\<lparr>h_frames := fs, h_store := Data, h_world := w5\<rparr>)" by auto
  have "s\<lparr>h_frames := fs, h_store := Data, h_world := w5\<rparr> = s\<lparr>h_frames := fs, h_world := w5\<rparr>" using pc by simp
  moreover have "handoff_step dir nds junk ?s4 (s\<lparr>h_frames := fs, h_store := Data, h_world := w5\<rparr>)"
    using handoff_step.store [OF f4 c5] by simp
  moreover have "handoff_step dir nds junk s ?s1" "handoff_step dir nds junk ?s1 ?s2"
    "handoff_step dir nds junk ?s2 ?s3" "handoff_step dir nds junk ?s3 ?s4"
    by (rule store_turn [OF fs c1], simp, rule store_turn [OF f1 c2], simp,
        rule store_turn [OF f2 c3], simp, rule store_turn [OF f3 c4], simp)
  ultimately show thesis
    using i5 by (metis (no_types, lifting) that converse_rtranclp_into_rtranclp rtranclp.rtrancl_refl)
qed

text \<open>The scanning thread alone, in a purge.\<close>

lemma scan_turn_step:
  assumes "h_scan s \<noteq> Ended" and "scan_call dir nds junk (h_running s) (h_scan s) (h_world s) = Inr (pc, w)"
    and "taken_by (h_scan s) = []" and "lost_by (h_scan s) = l"
  shows "handoff_step dir nds junk s (s\<lparr>h_scan := pc, h_lost := h_lost s @ l, h_world := w\<rparr>)"
  using handoff_step.scan [OF assms(1,2)] assms(3,4) by simp

lemma purge_run:
  assumes "handoff_inv dir junk E s" and "h_scan s = Purge ns" and "0 < nds"
  shows "\<exists>w. (handoff_step dir nds junk)\<^sup>*\<^sup>* s (s\<lparr>h_scan := Head, h_lost := h_lost s @ ns, h_world := w\<rparr>)"
  using assms(1,2)
proof (induction ns arbitrary: s)
  case Nil
  have "handoff_step dir nds junk s (s\<lparr>h_scan := Head, h_lost := h_lost s @ [], h_world := h_world s\<rparr>)"
    by (rule scan_turn_step) (simp_all add: Nil taken_by_def lost_by_def)
  then have "(handoff_step dir nds junk)\<^sup>*\<^sup>* s (s\<lparr>h_scan := Head, h_lost := h_lost s @ [], h_world := h_world s\<rparr>)" by blast
  then show ?case by blast
next
  case (Cons n ns)
  let ?s1 = "s\<lparr>h_scan := Purge_Mark n ns, h_world := sys_unlink (dir @ ''/'' @ n) (h_world s)\<rparr>"
  let ?s2 = "?s1\<lparr>h_scan := Purge ns, h_lost := h_lost ?s1 @ [n], h_world := sys_unlink (dir @ ''/closed/'' @ ''/'' @ n) (h_world ?s1)\<rparr>"
  have "n \<in> visible dir (h_world s)" using invD(4) [OF Cons.prems(1)] by (simp add: scan_ok_def Cons.prems(2))
  note v = visibleD(3) [OF Cons.prems(1) this]
  have i1: "handoff_inv dir junk E ?s1" by (rule Purge_keeps [OF Cons.prems])
  have "handoff_step dir nds junk s ?s1"
    using scan_turn_step [of s dir nds junk "Purge_Mark n ns" "sys_unlink (dir @ ''/'' @ n) (h_world s)" "[]"] v
    by (simp add: Cons.prems(2) taken_by_def lost_by_def sprintf_into_def)
  moreover have i2: "handoff_inv dir junk E ?s2" by (rule Purge_Mark_keeps [OF i1]) simp
  have "handoff_step dir nds junk ?s1 ?s2"
    by (rule scan_turn_step) (use v in \<open>simp_all add: taken_by_def lost_by_def sprintf_into_def\<close>)
  moreover from Cons.IH [OF i2] obtain w where
    "(handoff_step dir nds junk)\<^sup>*\<^sup>* ?s2 (?s2\<lparr>h_scan := Head, h_lost := h_lost ?s2 @ ns, h_world := w\<rparr>)" by auto
  ultimately have "(handoff_step dir nds junk)\<^sup>*\<^sup>* s (?s2\<lparr>h_scan := Head, h_lost := h_lost ?s2 @ ns, h_world := w\<rparr>)"
    by (meson converse_rtranclp_into_rtranclp)
  then show ?case by auto
qed

lemma purge_pass:
  assumes inv: "handoff_inv dir junk E s" and pc: "h_scan s = Head" "h_running s"
    and nds: "0 < nds" and odd: "card (visible dir (h_world s)) mod nds \<noteq> 0"
  shows "\<exists>w ns. (handoff_step dir nds junk)\<^sup>*\<^sup>* s (s\<lparr>h_lost := h_lost s @ ns, h_world := w\<rparr>) \<and> set ns = visible dir (h_world s) \<and>
     handoff_inv dir junk E (s\<lparr>h_lost := h_lost s @ ns, h_world := w\<rparr>)"
proof -
  let ?w = "h_world s" and ?ns = "shm_ls dir (h_world s)"
  have ls: "set ?ns = visible dir ?w" "distinct ?ns" "scandir ?w (dir @ ''/closed/'') file_select_2 = Some ?ns"
    using listing [OF inv] by (simp_all add: pc)
  have len: "length ?ns mod nds \<noteq> 0" using odd ls(1,2) by (metis distinct_card)
    let ?s1 = "s\<lparr>h_scan := Listing, h_lost := h_lost s @ [], h_world := ?w\<rparr>"
    let ?s2 = "?s1\<lparr>h_scan := Purge_List, h_lost := h_lost ?s1 @ [], h_world := ?w\<rparr>"
    let ?s3 = "?s2\<lparr>h_scan := Purge ?ns, h_lost := h_lost ?s2 @ [], h_world := ?w\<rparr>"
    have "handoff_step dir nds junk s ?s1" by (rule scan_turn_step) (simp_all add: pc taken_by_def lost_by_def)
    moreover have "handoff_step dir nds junk ?s1 ?s2"
      by (rule scan_turn_step) (use len nds in \<open>auto simp: pc taken_by_def lost_by_def Let_def\<close>)
    moreover have "handoff_step dir nds junk ?s2 ?s3"
      by (rule scan_turn_step) (use ls(3) in \<open>simp_all add: taken_by_def lost_by_def\<close>)
    ultimately have r: "(handoff_step dir nds junk)\<^sup>*\<^sup>* s ?s3" by (meson converse_rtranclp_into_rtranclp rtranclp.rtrancl_refl)
    have i3: "handoff_inv dir junk E ?s3" by (rule handoff_reach [OF r inv]) (rule nds)
    from purge_run [OF i3 _ nds, of ?ns] obtain w where
      w: "(handoff_step dir nds junk)\<^sup>*\<^sup>* ?s3 (?s3\<lparr>h_scan := Head, h_lost := h_lost ?s3 @ ?ns, h_world := w\<rparr>)" by auto
    with r have "(handoff_step dir nds junk)\<^sup>*\<^sup>* s (?s3\<lparr>h_scan := Head, h_lost := h_lost ?s3 @ ?ns, h_world := w\<rparr>)" by simp
    moreover have "?s3\<lparr>h_scan := Head, h_lost := h_lost ?s3 @ ?ns, h_world := w\<rparr> = s\<lparr>h_lost := h_lost s @ ?ns, h_world := w\<rparr>"
      using pc by simp
    ultimately have run: "(handoff_step dir nds junk)\<^sup>*\<^sup>* s (s\<lparr>h_lost := h_lost s @ ?ns, h_world := w\<rparr>)" by simp
    with handoff_reach [OF run inv nds] ls(1) show ?thesis by blast
qed

text \<open>
  C8: a scan between the two fragments of an event destroys the event: with two sources and an empty
  directory there is an execution in which both fragments are stored without a fault, none is
  ever taken, and both are purged.
\<close>

theorem race_loses_event:
  assumes plain: "plain_spool dir w" and new: "new_frames dir [f1, f2] w" and empty: "shm_ls dir w = []"
  shows "\<exists>s. (handoff_step dir 2 junk)\<^sup>*\<^sup>* (handoff_start [f1, f2] w) s \<and> h_frames s = [] \<and> h_taken s = [] \<and>
     set (h_lost s) = {frame_name f1, frame_name f2} \<and> spool_view dir (h_world s) = Map.empty"
proof -
  let ?E = "history dir [f1, f2] w" and ?s0 = "handoff_start [f1, f2] w" and ?R = "(handoff_step dir 2 junk)\<^sup>*\<^sup>*"
  have "spool_ok dir w" using plain by (simp add: plain_spool_def)
  then have "spool_view dir w = Map.empty" using shm_ls_sorted(1) empty by (metis dom_eq_empty_conv list.set(1))
  then have dom: "dom ?E = {frame_name f1, frame_name f2}" by (auto simp: history_def)
  have ne: "frame_name f1 \<noteq> frame_name f2" using new by (simp add: new_frames_def)
  have i0: "handoff_inv dir junk ?E ?s0" by (rule start_inv [OF plain new])
  have two: "0 < (2 :: nat)" by simp
  obtain w1 where r1: "?R ?s0 (?s0\<lparr>h_frames := [f2], h_world := w1\<rparr>)"
    and i1: "handoff_inv dir junk ?E (?s0\<lparr>h_frames := [f2], h_world := w1\<rparr>)"
    by (rule store_one [OF i0, of f1 "[f2]" 2]) (simp_all add: handoff_start_def)
  let ?s1 = "?s0\<lparr>h_frames := [f2], h_world := w1\<rparr>"
  have v1: "visible dir (h_world ?s1) = {frame_name f1}"
    using visible_accounted [OF i1] ne by (auto simp: dom places_def handoff_start_def)
  obtain w2 n1 where r2: "?R ?s1 (?s1\<lparr>h_lost := h_lost ?s1 @ n1, h_world := w2\<rparr>)"
    and n1: "set n1 = {frame_name f1}"
    and i2: "handoff_inv dir junk ?E (?s1\<lparr>h_lost := h_lost ?s1 @ n1, h_world := w2\<rparr>)"
    using purge_pass [OF i1, of 2] v1 by (auto simp: handoff_start_def)
  let ?s2 = "?s1\<lparr>h_lost := h_lost ?s1 @ n1, h_world := w2\<rparr>"
  obtain w3 where r3: "?R ?s2 (?s2\<lparr>h_frames := [], h_world := w3\<rparr>)"
    and i3: "handoff_inv dir junk ?E (?s2\<lparr>h_frames := [], h_world := w3\<rparr>)"
    by (rule store_one [OF i2, of f2 "[]" 2]) (simp_all add: handoff_start_def)
  let ?s3 = "?s2\<lparr>h_frames := [], h_world := w3\<rparr>"
  have v3: "visible dir (h_world ?s3) = {frame_name f2}"
    using visible_accounted [OF i3] ne n1 by (auto simp: dom places_def handoff_start_def)
  obtain w4 n2 where r4: "?R ?s3 (?s3\<lparr>h_lost := h_lost ?s3 @ n2, h_world := w4\<rparr>)"
    and n2: "set n2 = {frame_name f2}"
    and i4: "handoff_inv dir junk ?E (?s3\<lparr>h_lost := h_lost ?s3 @ n2, h_world := w4\<rparr>)"
    using purge_pass [OF i3, of 2] v3 by (auto simp: handoff_start_def)
  let ?s4 = "?s3\<lparr>h_lost := h_lost ?s3 @ n2, h_world := w4\<rparr>"
  have "?R ?s0 ?s4" using r1 r2 r3 r4 by (meson rtranclp_trans)
  moreover have "set (h_lost ?s4) = {frame_name f1, frame_name f2}" using n1 n2 by (simp add: handoff_start_def insert_commute)
  moreover have "visible dir (h_world ?s4) = {}"
    using visible_accounted [OF i4] n1 n2 by (simp add: dom places_def handoff_start_def insert_commute)
  then have "spool_view dir (h_world ?s4) = Map.empty" by (auto simp: visible_def spool_view_def)
  ultimately show ?thesis by (intro exI [of _ ?s4]) (simp add: handoff_start_def)
qed

section \<open>A concrete directory\<close>

lemma demo_new_frames: "new_frames ''/spool'' [demo_frame] (demo_spool [])"
proof -
  have "spool_view ''/spool'' (demo_spool []) = Map.empty" using demo_spool_ok(2) [OF demo_names_Nil] by simp
  moreover have "content (demo_spool []) (data_path ''/spool'' (frame_name demo_frame)) = []"
    using frame_names_ok(2) [of demo_frame] by (simp add: content_def demo_node_at)
  ultimately show ?thesis by (simp add: new_frames_def short_def demo_frame_def)
qed

theorem handoff_whole_witness:
  "\<exists>s r r'. (handoff_step ''/spool'' 1 (\<lambda>_ _. 0))\<^sup>*\<^sup>* (handoff_start [demo_frame] (demo_spool [])) s \<and> h_scan s = Listing \<and>
     scan_call ''/spool'' 1 (\<lambda>_ _. 0) False Listing (h_world s) = Inr r \<and>
     store_call ''/spool'' (frame_args demo_frame) Data (h_world s) = Inr r'"
proof -
  let ?s0 = "handoff_start [demo_frame] (demo_spool [])"
  let ?s1 = "?s0\<lparr>h_scan := Listing, h_taken := h_taken ?s0 @ taken_by (h_scan ?s0),
     h_lost := h_lost ?s0 @ lost_by (h_scan ?s0), h_world := demo_spool []\<rparr>"
  have "handoff_step ''/spool'' 1 (\<lambda>_ _. 0) ?s0 ?s1"
    by (rule handoff_step.scan) (simp_all add: handoff_start_def)
  moreover have "handoff_step ''/spool'' 1 (\<lambda>_ _. 0) ?s1 (?s1\<lparr>h_running := False\<rparr>)" by (rule handoff_step.halt)
  ultimately have r: "(handoff_step ''/spool'' 1 (\<lambda>_ _. 0))\<^sup>*\<^sup>* ?s0 (?s1\<lparr>h_running := False\<rparr>)" by simp
  from handoff_whole [OF demo_plain_spool [OF demo_names_Nil] demo_new_frames zero_less_one r] r
  show ?thesis by (intro exI [of _ "?s1\<lparr>h_running := False\<rparr>"]) (simp add: handoff_start_def)
qed

theorem scan_thread_ends_witness:
  "\<exists>h i. (\<forall>k. handoff_step ''/spool'' 1 (\<lambda>_ _. 0) (h k) (h (Suc k))) \<and> \<not> h_running (h 0) \<and>
     h_scan (h (0 :: nat)) = Head \<and> h_scan (h (i :: nat)) = Ended"
proof -
  define s0 where "s0 = (handoff_start [demo_frame] (demo_spool []))\<lparr>h_running := False\<rparr>"
  define s1 where "s1 = s0\<lparr>h_scan := Ended\<rparr>"
  define h where "h i = (case i of 0 \<Rightarrow> s0 | Suc _ \<Rightarrow> s1)" for i :: nat
  have "fs_ok (demo_spool [])" using demo_spool_ok(1) [OF demo_names_Nil] by (simp add: spool_ok_def)
  then have e: "elsewhere ''/spool'' A (demo_spool []) (demo_spool [])" for A by (simp add: elsewhere_def)
  have "handoff_step ''/spool'' 1 (\<lambda>_ _. 0) s0 s1"
    using handoff_step.scan [of s0 "''/spool''" 1 "\<lambda>_ _. 0" Ended "demo_spool []"]
    by (simp add: s0_def s1_def handoff_start_def taken_by_def lost_by_def)
  moreover have "handoff_step ''/spool'' 1 (\<lambda>_ _. 0) s1 s1"
    using handoff_step.others [of "''/spool''" s1 "demo_spool []" 1 "\<lambda>_ _. 0"] e
    by (simp add: s0_def s1_def handoff_start_def)
  ultimately have steps: "handoff_step ''/spool'' 1 (\<lambda>_ _. 0) (h i) (h (Suc i))" for i by (cases i) (simp_all add: h_def)
  have "\<not> h_running (h 0)" by (simp add: h_def s0_def)
  moreover have "\<exists>j \<ge> i. h_scan (h j) = Ended \<or> scan_turn ''/spool'' 1 (\<lambda>_ _. 0) (h j) (h (Suc j))" for i
    by (rule exI [of _ "Suc i"]) (simp add: h_def s1_def)
  ultimately have "\<exists>i. h_scan (h i) = Ended \<and> (\<forall>j \<ge> i. h_scan (h j) = Ended)" by (rule scan_thread_ends [where h = h, OF steps])
  moreover have "\<not> h_running (h 0)" "h_scan (h 0) = Head" by (simp_all add: h_def s0_def handoff_start_def)
  ultimately show ?thesis using steps by (intro exI [of _ h]) blast
qed

theorem race_loses_event_witness:
  "\<exists>s. (handoff_step ''/spool'' 2 (\<lambda>_ _. 0))\<^sup>*\<^sup>* (handoff_start [demo_frame, demo_frame\<lparr>f_src := 77\<rparr>] (demo_spool [])) s \<and>
     h_frames s = [] \<and> h_taken s = [] \<and> spool_view ''/spool'' (h_world s) = Map.empty"
proof -
  let ?f = "demo_frame\<lparr>f_src := 77\<rparr>"
  have empty: "spool_view ''/spool'' (demo_spool []) = Map.empty" using demo_spool_ok(2) [OF demo_names_Nil] by simp
  have "content (demo_spool []) (data_path ''/spool'' (frame_name f)) = []" for f
    using frame_names_ok(2) [of f] by (simp add: content_def demo_node_at)
  moreover have "frame_name demo_frame \<noteq> frame_name ?f"
    by (auto simp: frame_name_def demo_frame_def dest: event_name_inject)
  ultimately have new: "new_frames ''/spool'' [demo_frame, ?f] (demo_spool [])"
    using empty by (simp add: new_frames_def short_def demo_frame_def)
  have "shm_ls ''/spool'' (demo_spool []) = []"
    using shm_ls_sorted(1) [OF demo_spool_ok(1) [OF demo_names_Nil]] empty by simp
  from race_loses_event [OF demo_plain_spool [OF demo_names_Nil] new this, of "\<lambda>_ _. 0"] show ?thesis by blast
qed

end
