(* ===== verification/Test_Server.thy ===== *)
theory Test_Server
  imports Ex_Server_Spec Data_Socket
begin

text \<open>
  The test server at the end of \<^verbatim>\<open>src/fsmweb.cxx\<close> (\<^verbatim>\<open>wummyServer\<close>; \<^verbatim>\<open>test/dummyServer.cxx\<close> is the same
  without pages). It differs from \<^verbatim>\<open>exServer\<close> in that each thread counts events and bunch crossings
  itself, from 0 on, and publishes at every turn.
\<close>

section \<open>State and transitions\<close>

record wummyServer =
  ws_sources :: "datasource list"
  ws_running :: bool
  ws_threads :: "(nat \<times> u32 \<times> u32) list"

type_synonym 'j ws_transition = "('j, wummyServer) callback"
type_synonym 'j ws_page = "('j, wummyServer) page_function"

definition ws_source ::
  "'j jsonlib \<Rightarrow> (nat \<Rightarrow> byte) \<Rightarrow> int \<Rightarrow> 'j \<Rightarrow> 'j \<times> wummyServer \<Rightarrow> ('j \<times> wummyServer) res" where
  "ws_source J junk det book = (\<lambda>(array_keys, x).
     rbind (j_asInt J book) (\<lambda>sid.
     rbind (j_append J array_keys (j_int J (sint (stat_key (word_of_int det) (word_of_int sid))))) (\<lambda>array_keys'.
     rbind (datasource_new (word_of_int det) (word_of_int sid) 0x20000 junk) (\<lambda>ds.
     Inr (array_keys', x\<lparr>ws_sources := ws_sources x @ [ds]\<rparr>)))))"

definition ws_configure :: "'j jsonlib \<Rightarrow> (nat \<Rightarrow> byte) \<Rightarrow> 'j ws_transition" where
  "ws_configure J junk m x =
     rbind (msg_command J m) (\<lambda>_.
     rbind (msg_content J m) (\<lambda>jc.
     rbind (content_int J ''detid'' jc) (\<lambda>det.
     rbind (j_get J ''sourceid'' jc) (\<lambda>books.
     rbind (rfold (ws_source J junk det) (j_elems J books) (j_null J, x\<lparr>ws_sources := []\<rparr>)) (\<lambda>(array_keys, x').
     rbind (msg_setAnswer J array_keys m) (\<lambda>m'. Inr (m', x')))))))"

definition ws_start :: "'j jsonlib \<Rightarrow> 'j ws_transition" where
  "ws_start J m x =
     rbind (msg_command J m) (\<lambda>_.
     Inr (m, x\<lparr>ws_running := True,
               ws_threads := ws_threads x @ map (\<lambda>i. (i, 0, 0)) [0..<length (ws_sources x)]\<rparr>))"

definition ws_stop :: "'j jsonlib \<Rightarrow> 'j ws_transition" where
  "ws_stop J m x = rbind (msg_command J m) (\<lambda>_. Inr (m, x\<lparr>ws_running := False, ws_threads := []\<rparr>))"

definition ws_halt :: "'j jsonlib \<Rightarrow> 'j ws_transition" where
  "ws_halt J m x =
     rbind (msg_command J m) (\<lambda>_.
     rbind (if ws_running x then ws_stop J m x else Inr (m, x)) (\<lambda>(m', x'). Inr (m', x'\<lparr>ws_sources := []\<rparr>)))"

section \<open>The threads\<close>

text \<open>Random words at every position, then the event number at both ends.\<close>

definition ws_fill :: "(nat \<Rightarrow> u32) \<Rightarrow> u32 \<Rightarrow> u32 \<Rightarrow> datasource \<Rightarrow> datasource res" where
  "ws_fill rnd psi evt d =
     rbind (rfold (\<lambda>i. store_word i (rnd i)) [0..<unat psi] d) (\<lambda>d1.
     rbind (store_word 0 evt d1) (\<lambda>d2. store_word (unat (psi - 1)) evt d2))"

text \<open>One turn of the loop, with the two counters of the thread.\<close>

definition ws_readdata ::
  "(nat \<Rightarrow> u32) \<Rightarrow> nat \<Rightarrow> u32 \<Rightarrow> u32 \<Rightarrow> wummyServer \<Rightarrow> (u32 \<times> u32 \<times> wummyServer) res" where
  "ws_readdata rnd i evt bx x =
     (if \<not> ws_running x then Inr (evt, bx, x)
      else if length (ws_sources x) \<le> i then Inl Bad_Pointer
      else
        (let ds = ws_sources x ! i in
         rbind (dataSourceId (ds_buffer ds)) (\<lambda>psi.
         rbind (ws_fill rnd psi evt ds) (\<lambda>d1.
         rbind (publish evt (ucast bx) (psi * 4) d1) (\<lambda>d2.
         Inr (evt + 1, bx + 1, x\<lparr>ws_sources := (ws_sources x)[i := d2]\<rparr>))))))"

section \<open>Pages and the machine\<close>

definition ws_download :: "'j jsonlib \<Rightarrow> 'j ws_page" where
  "ws_download J rq st rsp x = rbind (response_set J ''answer'' (j_str J ''download called'') rsp) (\<lambda>r. Inr (r, x))"

definition ws_list :: "'j jsonlib \<Rightarrow> 'j ws_page" where
  "ws_list J rq st rsp x = rbind (response_set J ''answer'' (j_str J ''list called'') rsp) (\<lambda>r. Inr (r, x))"

definition ws_table :: "'j jsonlib \<Rightarrow> (nat \<Rightarrow> byte) \<Rightarrow> ('j, wummyServer) fsmweb \<Rightarrow> ('j, wummyServer) fsmweb" where
  "ws_table J junk f0 =
     (let f1 = foldl (\<lambda>f s. addState s f) f0 [''CREATED'', ''CONFIGURED'', ''RUNNING''];
          f2 = addTransition ''CONFIGURE''
                 \<lparr>tr_istate = ''CREATED'', tr_fstate = ''CONFIGURED'', tr_callback = ws_configure J junk\<rparr> f1;
          f3 = addTransition ''CONFIGURE''
                 \<lparr>tr_istate = ''CONFIGURED'', tr_fstate = ''CONFIGURED'', tr_callback = ws_configure J junk\<rparr> f2;
          f4 = addTransition ''START''
                 \<lparr>tr_istate = ''CONFIGURED'', tr_fstate = ''RUNNING'', tr_callback = ws_start J\<rparr> f3;
          f5 = addTransition ''STOP''
                 \<lparr>tr_istate = ''RUNNING'', tr_fstate = ''CONFIGURED'', tr_callback = ws_stop J\<rparr> f4;
          f6 = addTransition ''HALT''
                 \<lparr>tr_istate = ''RUNNING'', tr_fstate = ''CREATED'', tr_callback = ws_halt J\<rparr> f5;
          f7 = addTransition ''HALT''
                 \<lparr>tr_istate = ''CONFIGURED'', tr_fstate = ''CREATED'', tr_callback = ws_halt J\<rparr> f6 in
      addCommand ''LIST'' (ws_list J) (addCommand ''DOWNLOAD'' (ws_download J) f7))"

definition wummyServer_new ::
  "'j jsonlib \<Rightarrow> (nat \<Rightarrow> byte) \<Rightarrow> string \<Rightarrow> string \<Rightarrow> u32 \<Rightarrow> ('j, wummyServer) fsmweb \<times> wummyServer" where
  "wummyServer_new J junk hostname name port =
     (fsmweb_start hostname port (ws_table J junk (fsmweb_new name)),
      \<lparr>ws_sources = [], ws_running = False, ws_threads = []\<rparr>)"

section \<open>What a turn publishes\<close>

definition ws_frame :: "(nat \<Rightarrow> u32) \<Rightarrow> datasource \<Rightarrow> u32 \<Rightarrow> u32 \<Rightarrow> frame" where
  "ws_frame rnd d evt bx =
     \<lparr>f_det = ds_detid d, f_src = ds_sourceid d, f_evt = evt, f_bx = ucast bx,
      f_payload = concat (map enc32 (server_words rnd (unat (ds_sourceid d)) evt))\<rparr>"

lemma ws_turn:
  assumes "ws_running x" and "i < length (ws_sources x)" and "ds_ok 0x20000 (ws_sources x ! i)"
    and "ws_readdata rnd i evt bx x = Inr (evt', bx', x')"
  shows "evt' = evt + 1 \<and> bx' = bx + 1 \<and>
     (\<exists>d'. x' = x\<lparr>ws_sources := (ws_sources x)[i := d']\<rparr> \<and> ds_ok 0x20000 d' \<and>
        sv_sent (ds_service d') = sv_sent (ds_service (ws_sources x ! i)) @ [frame_bytes (ws_frame rnd (ws_sources x ! i) evt bx)])
     \<and> length (frame_bytes (ws_frame rnd (ws_sources x ! i) evt bx)) \<le> 0x20000"
proof -
  let ?d = "ws_sources x ! i"
  let ?psi = "ds_sourceid ?d"
  note g = ds_ok_getters [OF assms(3)]
  have f: "ws_fill rnd ?psi evt ?d = fill_with [0..<unat ?psi] rnd ?psi evt ?d" by (simp add: ws_fill_def fill_with_def)
  have psi: "1 \<le> unat ?psi \<and> unat ?psi \<le> 32763"
  proof (rule ccontr)
    assume "\<not> (1 \<le> unat ?psi \<and> unat ?psi \<le> 32763)"
    from fill_with_overruns [OF assms(3) this] assms show False by (simp add: ws_readdata_def Let_def g f)
  qed
  have "set [0..<unat ?psi] \<subseteq> {..<unat ?psi}" "{1..<unat ?psi - 1} \<subseteq> set [0..<unat ?psi]" by auto
  from fill_with_fits [OF assms(3) _ _ this, of rnd evt] psi obtain d1 where
    d1: "ws_fill rnd ?psi evt ?d = Inr d1" "ds_ok 0x20000 d1" "ds_service d1 = ds_service ?d" "ds_detid d1 = ds_detid ?d"
      "ds_sourceid d1 = ?psi"
      "chunk 20 (4 * unat ?psi) (b_mem (ds_buffer d1)) = concat (map enc32 (server_words rnd (unat ?psi) evt))"
    by (auto simp: f)
  have n: "unat (?psi * 4) = 4 * unat ?psi" using psi by (intro words_bytes) auto
  have "unat (?psi * 4) + 20 \<le> unat (0x20000 :: u32)" using psi by (simp add: n)
  from publish_block [OF d1(2) this, of evt "ucast bx"] obtain d2 where
    d2: "publish evt (ucast bx) (?psi * 4) d1 = Inr d2" "ds_ok 0x20000 d2"
      "sv_sent (ds_service d2) = sv_sent (ds_service ?d) @ [frame_bytes (ws_frame rnd ?d evt bx)]"
    unfolding n d1(3-6) ws_frame_def by blast
  have "length (concat (map enc32 ws)) = 4 * length ws" for ws by (induction ws) simp_all
  moreover have "length (server_words rnd (unat ?psi) evt) = unat ?psi" by (simp add: server_words_def)
  ultimately have "length (frame_bytes (ws_frame rnd ?d evt bx)) \<le> 0x20000"
    using psi by (simp add: ws_frame_def del: map_map)
  with assms d1(1) d2 show ?thesis by (auto simp: ws_readdata_def Let_def g)
qed

section \<open>The invariant\<close>

text \<open>Of what a source has sent, the last part is the run of its thread: \<open>k\<close> frames, numbered from 0.\<close>

definition numbered :: "u32 \<Rightarrow> byte list list \<Rightarrow> bool" where
  "numbered evt sent \<longleftrightarrow> (\<exists>old fs. sent = old @ map frame_bytes fs \<and> evt = word_of_nat (length fs) \<and>
     map f_evt fs = map word_of_nat [0..<length fs] \<and> (\<forall>f \<in> set fs. length (frame_bytes f) \<le> 0x20000))"

lemma numbered_start: "numbered 0 sent"
  unfolding numbered_def by (intro exI [of _ sent] exI [of _ "[]"]) simp

lemma numbered_next:
  assumes "numbered evt sent" and "f_evt f = evt" and "length (frame_bytes f) \<le> 0x20000"
  shows "numbered (evt + 1) (sent @ [frame_bytes f])"
proof -
  from assms(1) obtain old fs where fs: "sent = old @ map frame_bytes fs" "evt = word_of_nat (length fs)"
    "map f_evt fs = map word_of_nat [0..<length fs]" "\<forall>f \<in> set fs. length (frame_bytes f) \<le> 0x20000"
    unfolding numbered_def by blast
  with assms(2,3) show ?thesis
    unfolding numbered_def by (intro exI [of _ old] exI [of _ "fs @ [f]"]) (simp add: add.commute)
qed

definition ws_ok :: "string \<Rightarrow> wummyServer \<Rightarrow> bool" where
  "ws_ok st x \<longleftrightarrow> (ws_running x \<longleftrightarrow> st = ''RUNNING'') \<and> (\<not> ws_running x \<longrightarrow> ws_threads x = []) \<and>
     distinct (map fst (ws_threads x)) \<and> (\<forall>d \<in> set (ws_sources x). ds_ok 0x20000 d) \<and>
     (\<forall>(i, evt, bx) \<in> set (ws_threads x). i < length (ws_sources x) \<and> bx = evt \<and>
        numbered evt (sv_sent (ds_service (ws_sources x ! i))))"

inductive ws_steps :: "(nat \<Rightarrow> nat \<Rightarrow> u32) \<Rightarrow> wummyServer \<Rightarrow> wummyServer \<Rightarrow> bool" for rnd where
  turn: "\<lbrakk>t < length (ws_threads x); ws_threads x ! t = (i, evt, bx); ws_readdata (rnd k) i evt bx x = Inr (evt', bx', x')\<rbrakk>
    \<Longrightarrow> ws_steps rnd x (x'\<lparr>ws_threads := (ws_threads x)[t := (i, evt', bx')]\<rparr>)"

definition ws_transitions :: "'j jsonlib \<Rightarrow> (nat \<Rightarrow> byte) \<Rightarrow> ('j, wummyServer) transition_set" where
  "ws_transitions J junk =
     {(''HALT'', ''CONFIGURED'', ''CREATED'', ws_halt J), (''HALT'', ''RUNNING'', ''CREATED'', ws_halt J),
      (''STOP'', ''RUNNING'', ''CONFIGURED'', ws_stop J), (''START'', ''CONFIGURED'', ''RUNNING'', ws_start J),
      (''CONFIGURE'', ''CONFIGURED'', ''CONFIGURED'', ws_configure J junk),
      (''CONFIGURE'', ''CREATED'', ''CONFIGURED'', ws_configure J junk)}"

lemma ws_table_from: "table_from (ws_table J junk (fsmweb_new n)) (ws_transitions J junk)"
  unfolding ws_table_def Let_def foldl.simps ws_transitions_def by (intro table_from_intros)

lemma ws_pages_from: "pages_from (ws_table J junk (fsmweb_new n)) {ws_list J, ws_download J}"
  unfolding ws_table_def Let_def foldl.simps by (intro pages_from_intros) simp_all

lemma ws_created: "f_state (ws_table J junk (fsmweb_new n)) = ''CREATED''"
  unfolding ws_table_def Let_def foldl.simps by (simp add: table_lookup)

lemma ws_source_ok:
  assumes "ws_source J junk det b (v, x) = Inr (v', x')" and "\<forall>d \<in> set (ws_sources x). ds_ok 0x20000 d"
  shows "(\<forall>d \<in> set (ws_sources x'). ds_ok 0x20000 d) \<and> ws_running x' = ws_running x \<and> ws_threads x' = ws_threads x"
proof -
  from assms(1) obtain sid ds where ds: "datasource_new (word_of_int det) (word_of_int sid) 0x20000 junk = Inr ds"
    "ws_sources x' = ws_sources x @ [ds]" "ws_running x' = ws_running x" "ws_threads x' = ws_threads x"
    by (auto simp: ws_source_def)
  have "20 \<le> unat (0x20000 :: u32)" by simp
  from ds_ok_new [OF this, of "word_of_int det" "word_of_int sid" junk] ds(1) have "ds_ok 0x20000 ds" by auto
  with ds(2-4) assms(2) show ?thesis by auto
qed

lemma ws_configure_keeps:
  assumes "ws_configure J junk m x = Inr (m', x')" and "\<not> ws_running x" and "ws_threads x = []"
  shows "(\<forall>d \<in> set (ws_sources x'). ds_ok 0x20000 d) \<and> \<not> ws_running x' \<and> ws_threads x' = []"
proof -
  from assms(1) obtain det bs v where
    r: "rfold (ws_source J junk det) bs (j_null J, x\<lparr>ws_sources := []\<rparr>) = Inr (v, x')"
    by (auto simp: ws_configure_def)
  let ?P = "\<lambda>(v :: 'a, y). (\<forall>d \<in> set (ws_sources y). ds_ok 0x20000 d) \<and> \<not> ws_running y \<and> ws_threads y = []"
  have "?P (v, x')"
  proof (rule rfold_invariant [where P = ?P, OF r])
    show "?P (j_null J, x\<lparr>ws_sources := []\<rparr>)" using assms(2,3) by simp
    fix b s t
    assume s: "?P s" and st: "ws_source J junk det b s = Inr t"
    obtain v1 y1 v2 y2 where e: "s = (v1, y1)" "t = (v2, y2)" by (cases s; cases t)
    from ws_source_ok [OF st [unfolded e]] s show "?P t" by (simp add: e)
  qed
  then show ?thesis by simp
qed

lemma ws_transition_keeps:
  assumes "(c, st, e, g) \<in> ws_transitions J junk" and "g m x = Inr (m', x')" and "ws_ok st x"
  shows "ws_ok e x'"
  using assms(1) unfolding ws_transitions_def
proof (elim insertE emptyE Pair_inject)
  assume "st = ''CONFIGURED''" "e = ''CREATED''" "g = ws_halt J"
  with assms(2,3) show ?thesis by (auto simp: ws_halt_def ws_ok_def)
next
  assume "st = ''RUNNING''" "e = ''CREATED''" "g = ws_halt J"
  with assms(2,3) show ?thesis by (auto simp: ws_halt_def ws_stop_def ws_ok_def)
next
  assume "st = ''RUNNING''" "e = ''CONFIGURED''" "g = ws_stop J"
  with assms(2,3) show ?thesis by (auto simp: ws_stop_def ws_ok_def)
next
  assume "st = ''CONFIGURED''" "e = ''RUNNING''" "g = ws_start J"
  with assms(2,3) show ?thesis by (auto simp: ws_start_def ws_ok_def numbered_start comp_def)
next
  assume "st = ''CONFIGURED''" "e = ''CONFIGURED''" "g = ws_configure J junk"
  with ws_configure_keeps [of J junk m x m' x'] assms(2,3) show ?thesis by (simp add: ws_ok_def)
next
  assume "st = ''CREATED''" "e = ''CONFIGURED''" "g = ws_configure J junk"
  with ws_configure_keeps [of J junk m x m' x'] assms(2,3) show ?thesis by (simp add: ws_ok_def)
qed

lemma ws_steps_keep:
  assumes "ws_steps rnd x x'" and "ws_ok st x"
  shows "ws_ok st x'"
  using assms
proof (induction rule: ws_steps.induct)
  case (turn t x i evt bx k evt' bx' x')
  let ?th = "ws_threads x" and ?d = "ws_sources x ! i"
  have mem: "(i, evt, bx) \<in> set ?th" using turn.hyps(1,2) by (metis nth_mem)
  with turn.prems have i: "i < length (ws_sources x)" "bx = evt" "numbered evt (sv_sent (ds_service ?d))"
    and run: "ws_running x" and d: "ds_ok 0x20000 ?d" and dist: "distinct (map fst ?th)"
    by (auto simp: ws_ok_def)
  from ws_turn [OF run i(1) d turn.hyps(3)] obtain d' where
    r: "evt' = evt + 1" "bx' = bx + 1" "x' = x\<lparr>ws_sources := (ws_sources x)[i := d']\<rparr>" "ds_ok 0x20000 d'"
      "sv_sent (ds_service d') = sv_sent (ds_service ?d) @ [frame_bytes (ws_frame (rnd k) ?d evt bx)]"
      "length (frame_bytes (ws_frame (rnd k) ?d evt bx)) \<le> 0x20000" by blast
  have new: "numbered (evt + 1) (sv_sent (ds_service d'))"
    unfolding r(5) by (rule numbered_next [OF i(3) _ r(6)]) (simp add: ws_frame_def)
  have others: "j \<noteq> i" if "(j, e, b) \<in> set (?th[t := (i, evt', bx')])" "(j, e, b) \<noteq> (i, evt', bx')" for j e b
  proof -
    from that(1) obtain u where v: "u < length ?th" "?th[t := (i, evt', bx')] ! u = (j, e, b)"
      by (metis in_set_conv_nth length_list_update)
    with that(2) turn.hyps(1) have "u \<noteq> t" by auto
    with v have u: "u < length ?th" "u \<noteq> t" "?th ! u = (j, e, b)" by simp_all
    have "map fst ?th ! u \<noteq> map fst ?th ! t"
      using dist u(1,2) turn.hyps(1) by (simp only: nth_eq_iff_index_eq length_map) simp
    with u turn.hyps(1,2) show ?thesis by simp
  qed
  have "map fst (?th[t := (i, evt', bx')]) = map fst ?th"
    using turn.hyps(1,2) by (metis fst_conv list_update_id map_update)
  moreover have "j < length (ws_sources x) \<and> b = e \<and> numbered e (sv_sent (ds_service ((ws_sources x)[i := d'] ! j)))"
    if m: "(j, e, b) \<in> set (?th[t := (i, evt', bx')])" for j e b
  proof (cases "(j, e, b) = (i, evt', bx')")
    case True
    with i new r(1,2) show ?thesis by simp
  next
    case False
    from others [OF m False] m False turn.prems set_update_subset_insert [of ?th t "(i, evt', bx')"]
    show ?thesis by (auto simp: ws_ok_def)
  qed
  moreover have "\<forall>d \<in> set ((ws_sources x)[i := d']). ds_ok 0x20000 d"
    using set_update_subset_insert [of "ws_sources x" i d'] turn.prems r(4) by (auto simp: ws_ok_def)
  ultimately show ?case using turn.prems run dist by (auto simp: ws_ok_def r(3))
qed

interpretation wummies: application J "ws_transitions J junk" "{ws_list J, ws_download J}" "ws_steps rnd" ws_ok
  for J junk rnd
proof
  show "ws_ok e s'" if "(c, st, e, g) \<in> ws_transitions J junk" and "g m s = Inr (m', s')"
    and "ws_ok st s" for c st e g m s m' s'
    by (rule ws_transition_keeps [OF that])
  show "ws_ok st s'" if "h \<in> {ws_list J, ws_download J}" and "h rq st rsp s = Inr (r, s')" and "ws_ok st s"
    for h rq st rsp s r s'
    using that by (auto simp: ws_list_def ws_download_def)
  show "ws_ok st s'" if "ws_steps rnd s s'" and "ws_ok st s" for s s' st
    by (rule ws_steps_keep [OF that])
qed

section \<open>The first event of a run\<close>

text \<open>
  C20: the test server numbers events from 0: in every reachable state the frames that a thread has
  published since its start carry the numbers 0, 1, 2, and so on in order, and the thread's counters
  agree. A data socket stores nothing for the number 0, so the first fragment of every source
  of every run is lost on the way.
\<close>

theorem first_event_lost:
  assumes "json_ok J" and "(web_step J (ws_steps rnd))\<^sup>*\<^sup>* (wummyServer_new J junk h n port) (f, x)"
    and "(i, evt, bx) \<in> set (ws_threads x)"
  shows "f_state f = ''RUNNING'' \<and> i < length (ws_sources x) \<and> bx = evt \<and>
     (\<exists>old fs. sv_sent (ds_service (ws_sources x ! i)) = old @ map frame_bytes fs \<and> evt = word_of_nat (length fs) \<and>
        map f_evt fs = map word_of_nat [0..<length fs] \<and>
        (fs \<noteq> [] \<longrightarrow> (\<forall>sk w. 0x20000 \<le> length (b_mem (sk_buffer sk)) \<longrightarrow>
           (\<exists>sk'. infoHandler (frame_bytes (hd fs)) sk w = Inr (sk', w)))))"
proof -
  have new: "wummies.served J junk (wummyServer_new J junk h n port)"
    using ws_table_from [of J junk n] ws_pages_from [of J junk n] ws_created [of J junk n]
    by (simp add: wummies.served_def wummyServer_new_def tables_start ws_ok_def)
  from wummies.reachable [OF assms(1,2) new] have ok: "ws_ok (f_state f) x" by (simp add: wummies.served_def)
  with assms(3) have run: "f_state f = ''RUNNING''" "i < length (ws_sources x)" "bx = evt"
    and num: "numbered evt (sv_sent (ds_service (ws_sources x ! i)))"
    by (auto simp: ws_ok_def)
  from num obtain old fs where fs: "sv_sent (ds_service (ws_sources x ! i)) = old @ map frame_bytes fs"
    "evt = word_of_nat (length fs)" "map f_evt fs = map word_of_nat [0..<length fs]"
    "\<forall>f \<in> set fs. length (frame_bytes f) \<le> 0x20000" unfolding numbered_def by blast
  have "\<exists>sk'. infoHandler (frame_bytes (hd fs)) sk w = Inr (sk', w)"
    if "fs \<noteq> []" "0x20000 \<le> length (b_mem (sk_buffer sk))" for sk w
  proof -
    from that(1) fs(3) have "f_evt (hd fs) = 0" by (cases fs) (auto simp: upt_conv_Cons simp del: upt_Suc)
    moreover have len: "length (frame_bytes (hd fs)) \<le> 0x20000" using that(1) fs(4) by simp
    moreover have "short (hd fs)" using len by (simp add: short_def)
    ultimately show ?thesis using socket_ignores [of "hd fs" sk w] that(2) by auto
  qed
  with run fs(1-3) show ?thesis by blast
qed

section \<open>A run\<close>

lemma wummy_run:
  assumes "json_ok J" and "says J m1 ''CONFIGURE'' c1" and "j_object J c1" and "content_int J ''detid'' c1 = Inr det"
    and "j_get J ''sourceid'' c1 = Inr books" and "j_elems J books = [b]" and "j_asInt J b = Inr sid"
    and "says J m2 ''START'' c2"
  shows "\<exists>f x d. web_commands J [m1, m2] (wummyServer_new J junk h n port) = Inr (f, x) \<and>
     x = \<lparr>ws_sources = [d], ws_running = True, ws_threads = [(0, 0, 0)]\<rparr> \<and> ds_ok 0x20000 d \<and>
     ds_sourceid d = word_of_int sid \<and> sv_sent (ds_service d) = []"
proof -
  let ?t = "ws_table J junk (fsmweb_new n)" and ?x0 = "\<lparr>ws_sources = [], ws_running = False, ws_threads = []\<rparr>"
  have "20 \<le> unat (0x20000 :: u32)" by simp
  from ds_ok_new [OF this, of "word_of_int det" "word_of_int sid" junk] obtain d where
    d: "datasource_new (word_of_int det) (word_of_int sid) 0x20000 junk = Inr d" "ds_ok 0x20000 d"
      "ds_sourceid d = word_of_int sid" "sv_sent (ds_service d) = []" by blast
  let ?k = "stat_key (word_of_int det) (word_of_int sid)"
  from json_append [OF assms(1), of "j_null J" "j_int J (sint ?k)"] obtain v where
    v: "j_append J (j_null J) (j_int J (sint ?k)) = Inr v" by auto
  let ?x1 = "\<lparr>ws_sources = [d], ws_running = False, ws_threads = []\<rparr>"
  obtain m1' ct' where m1': "msg_setAnswer J v m1 = Inr m1'" "says J m1' ''CONFIGURE'' ct'"
    using setAnswer_says [OF assms(1,2), of v] assms(3) by auto
  have cf: "ws_configure J junk m1 ?x0 = Inr (m1', ?x1)"
    using v m1'(1) assms(4-7) d(1)
    by (simp add: ws_configure_def ws_source_def says_command [OF assms(2)] says_content [OF assms(2)])
  let ?x2 = "\<lparr>ws_sources = [d], ws_running = True, ws_threads = [(0, 0, 0)]\<rparr>"
  have st: "ws_start J m2 ?x1 = Inr (m2, ?x2)" by (simp add: ws_start_def says_command [OF assms(8)])
  have "transition (fsmweb_start h port ?t) ''CONFIGURE'' (f_state (fsmweb_start h port ?t)) =
      Some \<lparr>tr_istate = ''CREATED'', tr_fstate = ''CONFIGURED'', tr_callback = ws_configure J junk\<rparr>"
    unfolding ws_table_def Let_def foldl.simps by (simp add: tables_start(3) table_lookup)
  from web_commands_step [OF assms(1,2) _ this cf m1'(2), of "[m2]"] obtain f1 where
    f1: "web_commands J [m1, m2] (fsmweb_start h port ?t, ?x0) = web_commands J [m2] (f1, ?x1)" "f_state f1 = ''CONFIGURED''"
      "transition f1 = transition ?t" by auto
  have "transition f1 ''START'' (f_state f1) =
      Some \<lparr>tr_istate = ''CONFIGURED'', tr_fstate = ''RUNNING'', tr_callback = ws_start J\<rparr>"
    unfolding f1(2,3) ws_table_def Let_def foldl.simps by (simp add: table_lookup)
  from web_commands_step [OF assms(1,8) _ this st assms(8), of "[]"] obtain f2 where
    f2: "web_commands J [m2] (f1, ?x1) = Inr (f2, ?x2)" by auto
  with f1(1) d show ?thesis
    by (intro exI [of _ f2] exI [of _ ?x2] exI [of _ d]) (simp add: wummyServer_new_def)
qed

lemma wummy_turn:
  assumes "x = \<lparr>ws_sources = [d], ws_running = True, ws_threads = [(0, 0, 0)]\<rparr>" and "ds_ok 0x20000 d"
    and "ds_sourceid d = 23"
  shows "\<exists>x'. ws_steps rnd x x' \<and> (0, 1, 1) \<in> set (ws_threads x')"
proof -
  have f: "ws_fill (rnd 0) 23 0 d = fill_with [0..<unat (23 :: u32)] (rnd 0) 23 0 d" by (simp only: ws_fill_def fill_with_def)
  have "set [0..<unat (23 :: u32)] \<subseteq> {..<unat (23 :: u32)}" "{1..<unat (23 :: u32) - 1} \<subseteq> set [0..<unat (23 :: u32)]"
    "1 \<le> unat (23 :: u32)" "unat (23 :: u32) \<le> 32763" by auto
  from fill_with_fits [OF assms(2) this(3,4) this(1,2), of "rnd 0" 0] obtain d1 where
    d1: "ws_fill (rnd 0) 23 0 d = Inr d1" "ds_ok 0x20000 d1" unfolding f by blast
  have "unat (23 * 4 :: u32) + 20 \<le> unat (0x20000 :: u32)" by simp
  from publish_block [OF d1(2) this, of 0 0] obtain d2 where d2: "publish 0 0 (23 * 4) d1 = Inr d2" by blast
  have "ws_readdata (rnd 0) 0 0 0 x = Inr (1, 1, x\<lparr>ws_sources := [d2]\<rparr>)"
    using d1(1) d2 by (simp add: ws_readdata_def assms(1,3) Let_def ds_ok_getters [OF assms(2)])
  from ws_steps.turn [where rnd = rnd and k = 0 and t = 0 and x = x, OF _ _ this] have "ws_steps rnd x (x\<lparr>ws_sources := [d2], ws_threads := [(0, 1, 1)]\<rparr>)"
    by (simp add: assms(1))
  then show ?thesis by (intro exI [of _ "x\<lparr>ws_sources := [d2], ws_threads := [(0, 1, 1)]\<rparr>"]) simp
qed

theorem first_event_lost_witness:
  "\<exists>(x :: wummyServer) old fs. sv_sent (ds_service (ws_sources x ! 0)) = old @ map frame_bytes fs \<and> (1 :: u32) = word_of_nat (length fs) \<and>
     fs \<noteq> [] \<and> map f_evt fs = map word_of_nat [0..<length fs]"
proof -
  let ?kvs = "[(''detid'', text_int 100), (''sourceid'', CHR ''A'' # put_texts [text_int 23])]"
  have c: "content_int text_json ''detid'' (object ?kvs) = Inr 100"
    "j_get text_json ''sourceid'' (object ?kvs) = Inr (CHR ''A'' # put_texts [text_int 23])"
    "j_elems text_json (CHR ''A'' # put_texts [text_int 23]) = [text_int 23]" "j_asInt text_json (text_int 23) = Inr 23"
    by (simp_all add: content_int_def text_members)
  from wummy_run [OF text_json_ok demo_command_says c demo_command_says(1) [where kvs = "[]"],
      where junk = "\<lambda>_. 0" and h = "''lyon''" and n = "''WUMMY''" and port = 45000]
  obtain f x d where r: "web_commands text_json [demo_command ''CONFIGURE'' ?kvs, demo_command ''START'' []]
      (wummyServer_new text_json (\<lambda>_. 0) ''lyon'' ''WUMMY'' 45000) = Inr (f, x)"
    "x = \<lparr>ws_sources = [d], ws_running = True, ws_threads = [(0, 0, 0)]\<rparr>" "ds_ok 0x20000 d" "ds_sourceid d = 23" by auto
  from wummy_turn [OF r(2-4), of "\<lambda>_ _. 5"] obtain x' where
    x': "ws_steps (\<lambda>_ _. 5) x x'" "(0, 1, 1) \<in> set (ws_threads x')" by blast
  from web_commands_reach [OF r(1)] have "(web_step text_json (ws_steps (\<lambda>_ _. 5)))\<^sup>*\<^sup>*
      (wummyServer_new text_json (\<lambda>_. 0) ''lyon'' ''WUMMY'' 45000) (f, x')"
    by (rule rtranclp.rtrancl_into_rtrancl) (intro web_step.other x'(1))
  from first_event_lost [OF text_json_ok this x'(2)] obtain old fs where
    o: "sv_sent (ds_service (ws_sources x' ! 0)) = old @ map frame_bytes fs" "(1 :: u32) = word_of_nat (length fs)"
      "map f_evt fs = map word_of_nat [0..<length fs]"
    by (elim conjE exE) (rule that, assumption+)
  moreover have "fs \<noteq> []" using o(2) by auto
  ultimately show ?thesis
    by blast
qed

end
