(* ===== verification/Ex_Main.thy ===== *)
theory Ex_Main
  imports Ex_Builder Ex_Server_Spec
begin

text \<open>
  The main programs of the example, \<^verbatim>\<open>example/src/exServer.cc\<close> and \<^verbatim>\<open>example/src/exBuilder.cc\<close>: the
  options of the command line, the port, the object they create, and the loop of the server.
  \<^verbatim>\<open>argv\<close> is the whole argument vector with the name of the program, \<^verbatim>\<open>webport\<close> the value of the
  variable \<^verbatim>\<open>WEBPORT\<close>. What \<^verbatim>\<open>getopt\<close> and the programs print is left out.
\<close>

section \<open>getopt and atoi\<close>

text \<open>
  One word of options. The letters of the first argument of \<^verbatim>\<open>getopt\<close> are a map: \<open>False\<close> for a
  letter alone, \<open>True\<close> for one followed by a colon. An argument is the rest of the word or, when
  there is none, the next word; a question mark stands for an unknown letter and for a missing
  argument.
\<close>

fun option_word :: "(char \<Rightarrow> bool option) \<Rightarrow> string \<Rightarrow> string list \<Rightarrow> (char \<times> string) list \<times> string list" where
  "option_word L [] ws = ([], ws)"
| "option_word L (c # cs) ws =
     (case L c of
        Some True \<Rightarrow>
          (if cs \<noteq> [] then ([(c, cs)], ws)
           else case ws of [] \<Rightarrow> ([(CHR ''?'', [])], []) | w # ws' \<Rightarrow> ([(c, w)], ws'))
      | Some False \<Rightarrow> (let (xs, ws') = option_word L cs ws in ((c, []) # xs, ws'))
      | None \<Rightarrow> (let (xs, ws') = option_word L cs ws in ((CHR ''?'', []) # xs, ws')))"

lemma option_word_shorter: "length (snd (option_word L cs ws)) \<le> length ws"
  by (induction cs) (auto split: option.split list.split bool.split prod.splits)

text \<open>
  The options \<^verbatim>\<open>getopt\<close> returns before \<open>-1\<close>: words that are no options are moved behind the others,
  and two dashes end the options.
\<close>

function getopt :: "(char \<Rightarrow> bool option) \<Rightarrow> string list \<Rightarrow> (char \<times> string) list" where
  "getopt L [] = []"
| "getopt L (w # ws) =
     (if w = ''--'' then []
      else if 2 \<le> length w \<and> hd w = CHR ''-''
      then (let (xs, ws') = option_word L (tl w) ws in xs @ getopt L ws')
      else getopt L ws)"
  by pat_completeness auto

termination getopt
proof (relation "measure (\<lambda>(L, ws). length ws)")
  fix L w and ws :: "string list" and p xs ws'
  assume "p = option_word L (tl w) ws" and "(xs, ws') = p"
  then have "option_word L (tl w) ws = (xs, ws')" by simp
  then show "((L, ws'), (L, w # ws)) \<in> measure (\<lambda>(L, ws). length ws)"
    using option_word_shorter [of L "tl w" ws] by simp
qed simp_all

text \<open>\<^verbatim>\<open>atoi\<close> is the low half of what \<^verbatim>\<open>strtol\<close> returns, which is 0 for a text without a number.\<close>

definition atoi :: "string \<Rightarrow> u32" where
  "atoi s = (case scan_int True s of None \<Rightarrow> 0 | Some (v, _) \<Rightarrow> ucast v)"

section \<open>The main programs\<close>

datatype 'a program = Exits nat | Runs 'a

record main_vars =
  mv_port :: u32
  mv_detid :: "u32 option"

definition main_letters :: "char \<Rightarrow> bool option" where
  "main_letters = [CHR ''h'' \<mapsto> False, CHR ''d'' \<mapsto> True, CHR ''p'' \<mapsto> True]"

definition main_switch :: "main_vars \<Rightarrow> char \<times> string \<Rightarrow> main_vars" where
  "main_switch v = (\<lambda>(tmp, optarg).
     if tmp = CHR ''d'' then v\<lparr>mv_detid := Some (atoi optarg)\<rparr>
     else if tmp = CHR ''p'' then v\<lparr>mv_port := atoi optarg\<rparr>
     else v)"

text \<open>The variables after the options and the environment; \<^verbatim>\<open>detid\<close> has no value at the start.\<close>

definition main_options :: "u32 \<Rightarrow> string list \<Rightarrow> string option \<Rightarrow> main_vars" where
  "main_options port argv webport =
     (let v = foldl main_switch \<lparr>mv_port = port, mv_detid = None\<rparr> (getopt main_letters (tl argv)) in
      case webport of None \<Rightarrow> v | Some wp \<Rightarrow> v\<lparr>mv_port := atoi wp\<rparr>)"

definition server_main ::
  "'j jsonlib \<Rightarrow> (nat \<Rightarrow> byte) \<Rightarrow> string \<Rightarrow> string option \<Rightarrow> string list
     \<Rightarrow> (('j, exServer) fsmweb \<times> exServer) program res" where
  "server_main J junk hname webport argv =
     (if length argv = 1 then Inr (Exits 1)
      else
        (let v = main_options 46000 argv webport;
             (f, s) = exServer_new J junk hname (''EXS-'' @ hname) (mv_port v) in
         case mv_detid v of None \<Rightarrow> Inl Indeterminate
         | Some detid \<Rightarrow> Inr (Runs (f, setDetectorId_server detid s))))"

definition server_turn :: "exServer \<Rightarrow> exServer" where
  "server_turn s = (if xs_running s then incrementEvent s else s)"

definition builder_main ::
  "'j jsonlib \<Rightarrow> (nat \<Rightarrow> byte) \<Rightarrow> processor shmprocessor \<Rightarrow> string \<Rightarrow> string option \<Rightarrow> string list \<Rightarrow> processor env
     \<Rightarrow> (('j, exBuilder) fsmweb \<times> exBuilder) program res" where
  "builder_main J junk P hname webport argv env =
     (if length argv = 1 then Inr (Exits 1)
      else
        (let v = main_options 45000 argv webport in
         Inr (Runs (exBuilder_new J junk P hname (''EXB-'' @ hname) (mv_port v) env))))"

section \<open>What the programs start\<close>

lemma atoi_show: "n < 2 ^ 31 \<Longrightarrow> atoi (show_nat n) = word_of_nat n"
  using scan_int_show [of "[]" True n] by (simp add: atoi_def scan_value_def min_def unsigned_of_nat take_bit_nat_eq_self)

text \<open>Of several options with the same letter the last one counts.\<close>

lemma main_switches:
  "foldl main_switch v xs =
     \<lparr>mv_port = (case map_of (rev xs) (CHR ''p'') of None \<Rightarrow> mv_port v | Some a \<Rightarrow> atoi a),
      mv_detid = (case map_of (rev xs) (CHR ''d'') of None \<Rightarrow> mv_detid v | Some a \<Rightarrow> Some (atoi a))\<rparr>"
  by (induction xs rule: rev_induct) (auto simp: main_switch_def)

definition option_of :: "char \<Rightarrow> string list \<Rightarrow> string option" where
  "option_of c argv = map_of (rev (getopt main_letters (tl argv))) c"

definition port_of :: "u32 \<Rightarrow> string option \<Rightarrow> string list \<Rightarrow> u32" where
  "port_of port webport argv =
     (case webport of Some wp \<Rightarrow> atoi wp
      | None \<Rightarrow> (case option_of (CHR ''p'') argv of Some p \<Rightarrow> atoi p | None \<Rightarrow> port))"

lemma main_options_result:
  "main_options port argv webport =
     \<lparr>mv_port = port_of port webport argv, mv_detid = map_option atoi (option_of (CHR ''d'') argv)\<rparr>"
  by (auto simp: main_options_def main_switches Let_def port_of_def option_of_def split: option.split)

section \<open>The running server\<close>

text \<open>Between requests the loop of the main program and the threads take turns.\<close>

inductive program_steps :: "(nat \<Rightarrow> nat \<Rightarrow> u32) \<Rightarrow> exServer \<Rightarrow> exServer \<Rightarrow> bool" for rnd where
  loop: "program_steps rnd s (server_turn s)"
| thread: "\<lbrakk>t < length (xs_threads s); xs_threads s ! t = (i, seen); readdata (rnd k) i seen s = Inr (seen', s')\<rbrakk>
    \<Longrightarrow> program_steps rnd s (s'\<lparr>xs_threads := (xs_threads s)[t := (i, seen')]\<rparr>)"

lemma program_is_server:
  assumes "program_steps rnd s s'"
  shows "s' = s \<or> server_steps rnd s s'"
  using assms by cases (auto simp: server_turn_def intro: server_steps.intros)

lemma new_source_detid: "new_source J junk det b (v, s) = Inr (v', s') \<Longrightarrow> xs_detid s' = xs_detid s"
  by (auto simp: new_source_def Let_def)

lemma configure_detid:
  assumes "xs_configure J junk m s = Inr (m', s')"
  shows "xs_detid s' = xs_detid s"
proof -
  from assms obtain det bs v where
    r: "rfold (new_source J junk det) bs (j_null J, s\<lparr>xs_sources := [], xs_stat := []\<rparr>) = Inr (v, s')"
    by (auto simp: xs_configure_def)
  have "(\<lambda>(_, y). xs_detid y = xs_detid s) (v, s')"
    by (rule rfold_invariant [OF r]) (auto dest: new_source_detid)
  then show ?thesis by simp
qed

lemma transitions_detid:
  assumes "(c, st, e, g) \<in> server_transitions J junk" and "g m s = Inr (m', s')"
  shows "xs_detid s' = xs_detid s"
  using assms configure_detid [of J junk m s m' s'] unfolding server_transitions_def
  by (auto simp: xs_halt_def xs_stop_def xs_start_def split: if_splits)

lemma program_detid:
  assumes "program_steps rnd s s'"
  shows "xs_detid s' = xs_detid s"
  using assms
  by cases (auto simp: server_turn_def incrementEvent_def readdata_def Let_def split: if_splits)

definition program_ok :: "u32 \<Rightarrow> string \<Rightarrow> exServer \<Rightarrow> bool" where
  "program_ok d st s \<longleftrightarrow> server_ok st s \<and> xs_detid s = d"

interpretation programs: application J "server_transitions J junk" "{xs_list J, xs_download J}" "program_steps rnd"
  "program_ok d" for J junk rnd d
proof
  show "program_ok d e s'" if "(c, st, e, g) \<in> server_transitions J junk" and "g m s = Inr (m', s')"
    and "program_ok d st s" for c st e g m s m' s'
    using transition_keeps_server [OF that(1,2)] transitions_detid [OF that(1,2)] that(3) by (simp add: program_ok_def)
  show "program_ok d st s'" if "h \<in> {xs_list J, xs_download J}" and "h rq st rsp s = Inr (r, s')"
    and "program_ok d st s" for h rq st rsp s r s'
    using that by (auto simp: xs_list_def xs_download_def)
  show "program_ok d st s'" if "program_steps rnd s s'" and "program_ok d st s" for s s' st
    using program_is_server [OF that(1)] program_detid [OF that(1)] that(2) steps_keep_server
    by (auto simp: program_ok_def)
qed

section \<open>The list page\<close>

lemma stat_entry_value:
  assumes "json_ok J"
  shows "\<exists>v. stat_entry J e = Inr v"
proof -
  obtain k n where e: "e = (k, n)" by (cases e)
  obtain v1 where v1: "j_set J ''detid'' (j_int J (uint (drop_bit 16 k AND 0xFFFF))) (j_null J) = Inr v1" "j_object J v1"
    by (rule json_set [OF assms json_null(1) [OF assms]]) blast
  obtain v2 where v2: "j_set J ''sourceid'' (j_int J (uint (k AND 0xFFFF))) v1 = Inr v2" "j_object J v2"
    by (rule json_set [OF assms v1(2)]) blast
  obtain v3 where "j_set J ''event'' (j_int J (uint n)) v2 = Inr v3"
    by (rule json_set [OF assms v2(2)]) blast
  with v1(1) v2(1) show ?thesis by (simp add: e stat_entry_def)
qed

lemma stat_entries:
  assumes "json_ok J" and "v = j_null J \<or> j_elems J v \<noteq> []"
  shows "\<exists>v'. rfold (\<lambda>e v. rbind (stat_entry J e) (j_append J v)) es v = Inr v' \<and>
     length (j_elems J v') = length (j_elems J v) + length es"
  using assms(2)
proof (induction es arbitrary: v)
  case Nil
  then show ?case by simp
next
  case (Cons e es)
  from stat_entry_value [OF assms(1)] obtain w where w: "stat_entry J e = Inr w" by blast
  from json_append [OF assms(1) Cons.prems, of w] obtain v1 where
    v1: "j_append J v w = Inr v1" "j_elems J v1 = j_elems J v @ [w]" by blast
  with Cons.IH [of v1] w show ?case by auto
qed

lemma server_list_page:
  assumes "json_ok J"
  shows "\<exists>r js es. xs_list J rq st (response_new J) s = Inr (r, s) \<and> j_get J ''answer'' (rs_json r) = Inr js \<and>
     j_get J ''detector'' js = Inr (j_int J (uint (xs_detid s))) \<and> j_get J ''dataSources'' js = Inr es \<and>
     length (j_elems J es) = length (xs_stat s)"
proof -
  from stat_entries [OF assms, of "j_null J" "xs_stat s"] obtain es where
    es: "rfold (\<lambda>e v. rbind (stat_entry J e) (j_append J v)) (xs_stat s) (j_null J) = Inr es"
      "length (j_elems J es) = length (xs_stat s)" by (auto simp: json_null(4) [OF assms])
  obtain js1 where js1: "j_set J ''detector'' (j_int J (uint (xs_detid s))) (j_null J) = Inr js1" "j_object J js1"
    "j_get J ''detector'' js1 = Inr (j_int J (uint (xs_detid s)))"
    by (rule json_set [OF assms json_null(1) [OF assms]]) blast
  obtain v1 where v1: "j_set J ''answer'' js1 (j_null J) = Inr v1" "j_object J v1" "j_get J ''answer'' v1 = Inr js1"
    by (rule json_set [OF assms json_null(1) [OF assms]]) blast
  obtain js2 where js2: "j_set J ''dataSources'' es js1 = Inr js2" "j_get J ''dataSources'' js2 = Inr es"
    "\<And>k. k \<noteq> ''dataSources'' \<Longrightarrow> j_get J k js2 = j_get J k js1"
    by (rule json_set [OF assms js1(2)]) blast
  obtain v2 where v2: "j_set J ''answer'' js2 v1 = Inr v2" "j_get J ''answer'' v2 = Inr js2"
    by (rule json_set [OF assms v1(2)]) blast
  have "xs_list J rq st (response_new J) s = Inr ((response_new J)\<lparr>rs_json := v2\<rparr>, s)"
    using es(1) js1(1) v1(1,3) js2(1) v2(1) json_null(2) [OF assms] by (simp add: xs_list_def j_set2_def response_new_def)
  with v2(2) js2(2,3) js1(3) es(2) show ?thesis by auto
qed

section \<open>The program\<close>

lemma table_name [simp]:
  "fw_name (addState n f) = fw_name f" "fw_name (addTransition c t f) = fw_name f"
  "fw_name (addCommand n g f) = fw_name f" "fw_name (fsmweb_new n) = n"
  by (simp_all add: addState_def addTransition_def addCommand_def fsmweb_new_def fsm.defs split: option.split)

lemma server_table_name: "fw_name (xs_table J junk (fsmweb_new n)) = n"
  unfolding xs_table_def Let_def foldl.simps by (simp only: table_name)

lemma server_started:
  "server_main J junk h webport argv =
     (if length argv = 1 then Inr (Exits 1)
      else case option_of (CHR ''d'') argv of None \<Rightarrow> Inl Indeterminate
        | Some a \<Rightarrow> (let c = exServer_new J junk h (''EXS-'' @ h) (port_of 46000 webport argv) in
            Inr (Runs (fst c, setDetectorId_server (atoi a) (snd c)))))"
  by (auto simp: server_main_def main_options_result Let_def split: option.split prod.split)

lemma server_program_start:
  assumes "c = exServer_new J junk h n port"
  shows "programs.served J junk d (fst c, setDetectorId_server d (snd c))"
  using assms server_table_from [of J junk n] server_pages_from [of J junk n] server_created [of J junk n]
  by (simp add: programs.served_def exServer_new_def tables_start program_ok_def server_ok_def setDetectorId_server_def)

text \<open>
  C39: the server program exits with 1 without arguments; given arguments but no option \<^verbatim>\<open>-d\<close> it goes
  on and reads an indeterminate detector number; otherwise it serves its machine on the port of the
  variable \<^verbatim>\<open>WEBPORT\<close>, else of the last option \<^verbatim>\<open>-p\<close>, else on 46000, and in every state it can
  reach its loop counts an event exactly when the machine is RUNNING and its list page answers,
  with the detector number of the last option \<^verbatim>\<open>-d\<close>, whatever detector the sources were configured
  for.
\<close>

theorem server_program:
  assumes "json_ok J"
  shows "case (if length argv = 1 then None else Some (option_of (CHR ''d'') argv)) of
     None \<Rightarrow> server_main J junk h webport argv = Inr (Exits 1)
   | Some None \<Rightarrow> server_main J junk h webport argv = Inl Indeterminate
   | Some (Some a) \<Rightarrow>
       \<exists>f0 s0. server_main J junk h webport argv = Inr (Runs (f0, s0)) \<and>
         fw_webName f0 = ''http://'' @ h @ '':'' @ show32 (port_of 46000 webport argv) @ ''/EXS-'' @ h \<and>
         (\<forall>f s. (web_step J (program_steps rnd))\<^sup>*\<^sup>* (f0, s0) (f, s) \<longrightarrow>
            server_turn s = (if f_state f = ''RUNNING'' then incrementEvent s else s) \<and>
            (\<forall>rq. \<exists>r js es. xs_list J rq (f_state f) (response_new J) s = Inr (r, s) \<and>
               j_get J ''answer'' (rs_json r) = Inr js \<and>
               j_get J ''detector'' js = Inr (j_int J (uint (atoi a))) \<and> j_get J ''dataSources'' js = Inr es \<and>
               length (j_elems J es) = length (xs_stat s)))"
proof (cases "length argv = 1 \<or> option_of (CHR ''d'') argv = None")
  case True
  then show ?thesis by (auto simp: server_started)
next
  case False
  then obtain a where a: "length argv \<noteq> 1" "option_of (CHR ''d'') argv = Some a" by auto
  define c where "c = exServer_new J junk h (''EXS-'' @ h) (port_of 46000 webport argv)"
  let ?s0 = "setDetectorId_server (atoi a) (snd c)"
  have main: "server_main J junk h webport argv = Inr (Runs (fst c, ?s0))"
    using a by (simp add: server_started c_def Let_def)
  have name: "fw_webName (fst c) = ''http://'' @ h @ '':'' @ show32 (port_of 46000 webport argv) @ ''/EXS-'' @ h"
    by (simp add: c_def exServer_new_def fsmweb_start_def Let_def server_table_name)
  have "program_ok (atoi a) (f_state f) s" if "(web_step J (program_steps rnd))\<^sup>*\<^sup>* (fst c, ?s0) (f, s)" for f s
    using programs.reachable [OF assms that server_program_start [OF c_def]] by (simp add: programs.served_def)
  then have turn: "server_turn s = (if f_state f = ''RUNNING'' then incrementEvent s else s)" and det: "xs_detid s = atoi a"
    if "(web_step J (program_steps rnd))\<^sup>*\<^sup>* (fst c, ?s0) (f, s)" for f s
    using that by (auto simp: program_ok_def server_ok_def server_turn_def)
  have "(\<forall>f s. (web_step J (program_steps rnd))\<^sup>*\<^sup>* (fst c, ?s0) (f, s) \<longrightarrow>
            server_turn s = (if f_state f = ''RUNNING'' then incrementEvent s else s) \<and>
            (\<forall>rq. \<exists>r js es. xs_list J rq (f_state f) (response_new J) s = Inr (r, s) \<and>
               j_get J ''answer'' (rs_json r) = Inr js \<and>
               j_get J ''detector'' js = Inr (j_int J (uint (atoi a))) \<and> j_get J ''dataSources'' js = Inr es \<and>
               length (j_elems J es) = length (xs_stat s)))"
  proof (intro allI impI conjI)
    fix f s rq
    assume r: "(web_step J (program_steps rnd))\<^sup>*\<^sup>* (fst c, ?s0) (f, s)"
    show "server_turn s = (if f_state f = ''RUNNING'' then incrementEvent s else s)" by (rule turn [OF r])
    show "\<exists>r js es. xs_list J rq (f_state f) (response_new J) s = Inr (r, s) \<and>
       j_get J ''answer'' (rs_json r) = Inr js \<and>
       j_get J ''detector'' js = Inr (j_int J (uint (atoi a))) \<and> j_get J ''dataSources'' js = Inr es \<and>
       length (j_elems J es) = length (xs_stat s)"
      using server_list_page [OF assms, of rq "f_state f" s] unfolding det [OF r] .
  qed
  with main name show ?thesis using a by auto
qed

text \<open>The command line \<^verbatim>\<open>exServer -p 46010 run -d100\<close>, with the options on both sides of another word.\<close>

definition demo_argv :: "string list" where
  "demo_argv = [''exServer'', ''-p'', ''46010'', ''run'', ''-d100'']"

lemma demo_port: "show_nat 46010 = ''46010''"
  by (simp add: show_nat.simps [of 46010] show_nat.simps [of 4601] show_nat.simps [of 460] show_nat.simps [of 46]
    show_nat.simps [of 4] digit_char_def char_of_def bit_iff_odd)

lemma demo_options: "option_of (CHR ''d'') demo_argv = Some ''100''" "port_of 46000 None demo_argv = 46010"
proof -
  have "getopt main_letters (tl demo_argv) = [(CHR ''p'', ''46010''), (CHR ''d'', ''100'')]"
    by (simp add: demo_argv_def main_letters_def)
  moreover have "atoi ''46010'' = 46010" using atoi_show [of 46010] unfolding demo_port by simp
  ultimately show "option_of (CHR ''d'') demo_argv = Some ''100''" "port_of 46000 None demo_argv = 46010"
    by (simp_all add: option_of_def port_of_def)
qed

theorem server_program_witness:
  "\<exists>f0 s0. server_main text_json (\<lambda>_. 0) ''lyon'' None demo_argv = Inr (Runs (f0, s0)) \<and>
     fw_webName f0 = ''http://lyon:46010/EXS-lyon''"
proof -
  have n: "length demo_argv \<noteq> 1" by (simp add: demo_argv_def)
  have p: "show32 (port_of 46000 None demo_argv) = ''46010''" using demo_port by (simp add: show32_def demo_options)
  have url: "''http://'' @ ''lyon'' @ '':'' @ ''46010'' @ ''/EXS-'' @ ''lyon'' = ''http://lyon:46010/EXS-lyon''" by simp
  from server_program [OF text_json_ok, where argv = demo_argv and junk = "\<lambda>_. 0" and h = "''lyon''" and webport = None and rnd = "\<lambda>_ _. 0",
      unfolded if_not_P [OF n] option.case demo_options(1) p url]
  show ?thesis by blast
qed

end
