(* ===== verification/Example_System.thy ===== *)
theory Example_System
  imports Ex_Main Ex_Builder_Spec Delivery
begin

text \<open>
  The example as a whole: a server and a builder that were configured for the same sources and
  started, and one event on its way from the threads of the server to the writer of the builder.
\<close>

section \<open>A round of the server\<close>

text \<open>The thread with position \<open>t\<close> takes a turn; \<open>rnd t\<close> are its random words.\<close>

definition thread_turn :: "(nat \<Rightarrow> nat \<Rightarrow> u32) \<Rightarrow> nat \<Rightarrow> exServer \<Rightarrow> exServer res" where
  "thread_turn rnd t s =
     (let (i, seen) = xs_threads s ! t in
      rbind (readdata (rnd t) i seen s) (\<lambda>(seen', s'). Inr (s'\<lparr>xs_threads := (xs_threads s)[t := (i, seen')]\<rparr>)))"

lemma thread_turn_step: "t < length (xs_threads s) \<Longrightarrow> thread_turn rnd t s = Inr s' \<Longrightarrow> program_steps rnd s s'"
  by (auto simp: thread_turn_def split: prod.splits intro: program_steps.thread)

text \<open>
  After the threads in \<open>A\<close> have taken a turn on the event of \<open>s\<close>, each of their sources has sent its
  frame and the others nothing.
\<close>

definition turns_taken :: "(nat \<Rightarrow> nat \<Rightarrow> u32) \<Rightarrow> exServer \<Rightarrow> nat set \<Rightarrow> exServer \<Rightarrow> bool" where
  "turns_taken rnd s A s' \<longleftrightarrow> xs_running s' \<and> xs_event s' = xs_event s \<and> xs_bx s' = xs_bx s \<and>
     length (xs_sources s') = length (xs_sources s) \<and>
     xs_threads s' = map (\<lambda>i. (i, if i \<in> A then xs_event s else 0)) [0..<length (xs_sources s)] \<and>
     (\<forall>i < length (xs_sources s). ds_ok 0x20000 (xs_sources s' ! i) \<and>
        ds_detid (xs_sources s' ! i) = ds_detid (xs_sources s ! i) \<and>
        ds_sourceid (xs_sources s' ! i) = ds_sourceid (xs_sources s ! i) \<and>
        sv_sent (ds_service (xs_sources s' ! i)) =
          (if i \<in> A then [frame_bytes (server_frame (rnd i) (xs_sources s ! i) s)] else []))"

lemma turn_taken:
  assumes "turns_taken rnd s A s'" and "xs_event s \<noteq> 0" and i: "i < length (xs_sources s)" "i \<notin> A"
    and psi: "1 \<le> unat (ds_sourceid (xs_sources s ! i))" "unat (ds_sourceid (xs_sources s ! i)) \<le> 32763"
  shows "\<exists>s''. thread_turn rnd i s' = Inr s'' \<and> turns_taken rnd s (insert i A) s''"
proof -
  let ?d = "xs_sources s' ! i"
  have t: "xs_running s'" "xs_event s' \<noteq> 0" "i < length (xs_sources s')" "ds_ok 0x20000 ?d"
    "xs_threads s' ! i = (i, 0)" "ds_sourceid ?d = ds_sourceid (xs_sources s ! i)" "sv_sent (ds_service ?d) = []"
    and fr: "server_frame (rnd i) ?d s' = server_frame (rnd i) (xs_sources s ! i) s"
    using assms(1,2) i by (auto simp: turns_taken_def server_frame_def)
  from readdata_turn [OF t(1-4), of "rnd i"] psi obtain d' st where
    r: "readdata (rnd i) i 0 s' = Inr (xs_event s', s'\<lparr>xs_sources := (xs_sources s')[i := d'], xs_stat := st\<rparr>)"
    and d': "ds_ok 0x20000 d'" "ds_detid d' = ds_detid ?d" "ds_sourceid d' = ds_sourceid ?d"
      "sv_sent (ds_service d') = [frame_bytes (server_frame (rnd i) (xs_sources s ! i) s)]"
    by (auto simp: t(6,7) fr)
  let ?s = "s'\<lparr>xs_sources := (xs_sources s')[i := d'], xs_stat := st, xs_threads := (xs_threads s')[i := (i, xs_event s')]\<rparr>"
  have "thread_turn rnd i s' = Inr ?s" by (simp add: thread_turn_def t(5) r)
  moreover have "turns_taken rnd s (insert i A) ?s"
    using assms(1) i d' by (auto simp: turns_taken_def nth_list_update intro!: nth_equalityI)
  ultimately show ?thesis by blast
qed

lemma turns_all:
  assumes "turns_taken rnd s A s'" and "xs_event s \<noteq> 0" and "distinct ts" and "set ts \<subseteq> {..<length (xs_sources s)} - A"
    and "\<forall>d \<in> set (xs_sources s). 1 \<le> unat (ds_sourceid d) \<and> unat (ds_sourceid d) \<le> 32763"
  shows "\<exists>s''. rfold (thread_turn rnd) ts s' = Inr s'' \<and> turns_taken rnd s (A \<union> set ts) s''"
  using assms(1,3,4)
proof (induction ts arbitrary: A s')
  case Nil
  then show ?case by simp
next
  case (Cons i ts)
  then have i: "i < length (xs_sources s)" "i \<notin> A" by auto
  with assms(5) have "1 \<le> unat (ds_sourceid (xs_sources s ! i)) \<and> unat (ds_sourceid (xs_sources s ! i)) \<le> 32763" by simp
  with turn_taken [OF Cons.prems(1) assms(2) i] obtain s1 where
    s1: "thread_turn rnd i s' = Inr s1" "turns_taken rnd s (insert i A) s1" by blast
  have "distinct ts" "set ts \<subseteq> {..<length (xs_sources s)} - insert i A" using Cons.prems(2,3) by auto
  from Cons.IH [OF s1(2) this] s1(1) show ?case by auto
qed

lemma started_turns:
  assumes "server_started det sids s"
  shows "turns_taken rnd (incrementEvent s) {} (incrementEvent s)"
  using assms by (simp add: turns_taken_def server_started_def incrementEvent_def)

section \<open>The event\<close>

definition server_requests :: "'j jsonlib \<Rightarrow> 'j fsmmessage list \<Rightarrow> int \<Rightarrow> int list \<Rightarrow> bool" where
  "server_requests J ms det sids \<longleftrightarrow>
     (\<exists>m1 m2 c1 c2 books. ms = [m1, m2] \<and>
        says J m1 ''CONFIGURE'' c1 \<and> j_object J c1 \<and> content_int J ''detid'' c1 = Inr det \<and>
        j_get J ''sourceid'' c1 = Inr books \<and> map (j_asInt J) (j_elems J books) = map Inr sids \<and>
        says J m2 ''START'' c2)"

definition event_frames :: "(nat \<Rightarrow> nat \<Rightarrow> u32) \<Rightarrow> exServer \<Rightarrow> frame list" where
  "event_frames rnd s = map (\<lambda>i. server_frame (rnd i) (xs_sources s ! i) s) [0..<length (xs_sources s)]"

definition source_numbers :: "int list \<Rightarrow> bool" where
  "source_numbers sids \<longleftrightarrow> sids \<noteq> [] \<and> distinct sids \<and> (\<forall>s \<in> set sids. 1 \<le> s \<and> s \<le> 32763)"

lemma source_number_word:
  assumes "1 \<le> s" and "s \<le> 32763"
  shows "unat (word_of_int s :: u32) = nat s"
proof -
  have "uint (word_of_int s :: u32) = s" using assms by (simp add: uint_word_of_int)
  then show ?thesis by (simp only: unat_eq_nat_uint)
qed

lemma source_numbers_words:
  assumes "source_numbers sids"
  shows "distinct (map word_of_int sids :: u32 list)" and "length sids < 2 ^ 32"
proof -
  have "inj_on (word_of_int :: int \<Rightarrow> u32) (set sids)"
  proof (rule inj_onI)
    fix s t
    assume "s \<in> set sids" "t \<in> set sids" and e: "(word_of_int s :: u32) = word_of_int t"
    with assms have st: "1 \<le> s" "s \<le> 32763" "1 \<le> t" "t \<le> 32763" by (auto simp: source_numbers_def)
    from arg_cong [OF e, of unat] show "s = t"
      using st by (simp add: source_number_word [OF st(1,2)] source_number_word [OF st(3,4)] nat_eq_iff)
  qed
  with assms show "distinct (map word_of_int sids :: u32 list)" by (simp add: source_numbers_def distinct_map)
  have "set sids \<subseteq> {1..32763}" using assms by (auto simp: source_numbers_def)
  then have "card (set sids) \<le> card {1..32763 :: int}" by (rule card_mono [rotated]) simp
  moreover have "card (set sids) = length sids" using assms by (simp add: source_numbers_def distinct_card)
  ultimately show "length sids < 2 ^ 32" by simp
qed

lemma started_sources:
  assumes "server_started det sids s" and "source_numbers sids" and "i < length sids"
  shows "length (xs_sources s) = length sids" and "ds_sourceid (xs_sources s ! i) = word_of_int (sids ! i)"
    and "ds_detid (xs_sources s ! i) = word_of_int det" and "unat (ds_sourceid (xs_sources s ! i)) = nat (sids ! i)"
    and "1 \<le> nat (sids ! i)" and "nat (sids ! i) \<le> 32763"
proof -
  have m: "map ds_sourceid (xs_sources s) = map word_of_int sids" using assms(1) by (simp add: server_started_def)
  from arg_cong [OF m, of length] show l: "length (xs_sources s) = length sids" by simp
  from arg_cong [OF m, of "\<lambda>xs. xs ! i"] l assms(3) show src: "ds_sourceid (xs_sources s ! i) = word_of_int (sids ! i)" by simp
  show "ds_detid (xs_sources s ! i) = word_of_int det" using assms(1,3) l by (simp add: server_started_def)
  have b: "1 \<le> sids ! i" "sids ! i \<le> 32763" using assms(2,3) by (simp_all add: source_numbers_def)
  show "unat (ds_sourceid (xs_sources s ! i)) = nat (sids ! i)" unfolding src by (rule source_number_word [OF b])
  show "1 \<le> nat (sids ! i)" "nat (sids ! i) \<le> 32763" using b by linarith+
qed

text \<open>The frames of the first event.\<close>

lemma first_frames:
  assumes "server_started det sids s" and "source_numbers sids" and frs_def: "frs = event_frames rnd (incrementEvent s)"
  shows "length frs = length sids" and "distinct (map frame_name frs)"
    and "\<forall>f \<in> set frs. f_evt f = 1 \<and> length (frame_bytes f) \<le> 0x20000"
    and "i < length sids \<Longrightarrow> f_src (frs ! i) = word_of_int (sids ! i) \<and>
      f_payload (frs ! i) = concat (map enc32 (server_words (rnd i) (nat (sids ! i)) 1))"
proof -
  have l: "length (xs_sources s) = length sids"
    using assms(1) by (simp add: server_started_def) (metis length_map)
  have e: "xs_event s = 0" using assms(1) by (simp add: server_started_def)
  show len: "length frs = length sids" by (simp add: frs_def event_frames_def incrementEvent_def l)
  have at: "frs ! i = server_frame (rnd i) (xs_sources s ! i) (incrementEvent s)" if "i < length sids" for i
    using that by (simp add: frs_def event_frames_def incrementEvent_def l)
  show fr: "f_src (frs ! i) = word_of_int (sids ! i) \<and>
      f_payload (frs ! i) = concat (map enc32 (server_words (rnd i) (nat (sids ! i)) 1))" if "i < length sids" for i
    using started_sources(2,4) [OF assms(1,2) that] by (simp add: at [OF that] server_frame_def incrementEvent_def e)
  have "map f_src frs = map word_of_int sids"
    by (rule nth_equalityI) (simp_all add: len fr)
  with source_numbers_words(1) [OF assms(2)] have "distinct (map f_src frs)" by simp
  then show "distinct (map frame_name frs)"
    by (auto simp: distinct_map inj_on_def frame_name_def dest: event_name_inject)
  have "f_evt (frs ! i) = 1 \<and> length (frame_bytes (frs ! i)) \<le> 0x20000" if "i < length sids" for i
  proof -
    have "length (f_payload (frs ! i)) = 4 * nat (sids ! i)"
      using fr [OF that] by (simp add: server_words_def c32.length_concat_enc del: map_map)
    with started_sources(6) [OF assms(1,2) that] show ?thesis
      by (simp add: at [OF that] server_frame_def incrementEvent_def e)
  qed
  then show "\<forall>f \<in> set frs. f_evt f = 1 \<and> length (frame_bytes f) \<le> 0x20000"
    by (auto simp: in_set_conv_nth len)
qed

text \<open>
  A builder that idles takes in one frame for each of its sockets, in any order, and hands over the
  event they make.
\<close>

lemma idle_builder_delivers:
  assumes idle: "builder_idle Z memdir det sids env x D" and "sids \<noteq> []"
    and new: "\<forall>fr. content (create_directories memdir (e_world env)) (data_path memdir (frame_name fr)) = []"
    and frs: "length frs = length sids" "distinct (map frame_name frs)"
      "\<forall>f \<in> set frs. f_evt f = e \<and> length (frame_bytes f) \<le> 0x20000" and "e \<noteq> 0"
    and order: "distinct order" "set order = {..<length sids}"
  shows "\<exists>c D' en v. rfold (update_socket frs) order (daq_of x D) = Inr c \<and>
     scan_pass (processor_ops Z hjunk) fjunk (q_driver c) (q_env c) = Inr (D', en) \<and>
     abs_log (e_log en) = [(ucast e, v)] \<and> mset v = mset frs"
proof -
  have inv: "daq_inv Z memdir {length (e_objs env)} (length sids) (daq_of x D)" using idle by (simp add: builder_idle_def)
  have "f_evt (frs ! i) = e \<and> length (frame_bytes (frs ! i)) \<le> 0x20000" if "i < length frs" for i
    using frs(3) that by simp
  then have "sockets_ready memdir frs (daq_of x D)"
    using idle frs(1) \<open>e \<noteq> 0\<close> by (force simp: sockets_ready_def builder_idle_def builder_socket_def daq_of_def short_def)
  moreover have "d_eventMap (q_driver (daq_of x D)) = []" using idle by (simp add: builder_idle_def daq_of_def)
  moreover have "shm_ls memdir (e_world (q_env (daq_of x D))) = []"
  proof -
    have "spool_ok memdir (e_world (xb_env x))" using inv by (simp add: daq_inv_def Let_def plain_spool_def daq_of_def)
    from shm_ls_sorted(1) [OF this] idle show ?thesis by (simp add: builder_idle_def daq_of_def)
  qed
  moreover have "\<forall>f \<in> set frs. content (e_world (q_env (daq_of x D))) (data_path memdir (frame_name f)) = []"
    using idle new by (auto simp: builder_idle_def daq_of_def)
  moreover have "e_log (q_env (daq_of x D)) = []" using idle by (simp add: builder_idle_def daq_of_def)
  ultimately show ?thesis
    using full_set_arrives [OF inv _ frs(1) _ _ _ frs(2,3) order(1), of hjunk fjunk] order(2) frs(1)
    by (fastforce simp: abs_log_def)
qed

section \<open>From the threads to the writer\<close>

text \<open>
  C5: the example works: when a server and a builder have been configured for the same sources, with
  different numbers from 1 to 32763, and started, then after the first turn of the server's loop
  each thread, whatever their order, sends one frame for event 1 whose payload is its random words
  between two words with the number of the event; each goes to the socket that waits on the name
  of its source; and when they have arrived, in any order, the next scan hands the writer
  exactly one event, number 1, made of exactly these frames.
\<close>

theorem example_event_delivered:
  assumes "json_ok J" and "zlib_ok Z" and "server_requests J msv det sids"
    and "run_requests J msb memdir datadir det sids run" and "directories_ready memdir datadir (e_world env)"
    and "e_log env = []" and "\<forall>fr. content (create_directories memdir (e_world env)) (data_path memdir (frame_name fr)) = []"
    and "source_numbers sids" and "distinct turns" and "set turns = {..<length sids}"
    and "distinct order" and "set order = {..<length sids}"
  shows "\<exists>fs s s' fb x D frs c D' en v.
     web_commands J msv (exServer_new J sjunk hs ns sport) = Inr (fs, s) \<and>
     web_commands J msb (exBuilder_new J junk (processor_ops Z hjunk) hb nb bport env) = Inr (fb, x) \<and> xb_evb x = To D \<and>
     rfold (thread_turn rnd) turns (server_turn s) = Inr s' \<and>
     (\<forall>i < length sids. sv_sent (ds_service (xs_sources s' ! i)) = [frame_bytes (frs ! i)] \<and>
        f_src (frs ! i) = word_of_int (sids ! i) \<and>
        f_payload (frs ! i) = concat (map enc32 (server_words (rnd i) (nat (sids ! i)) 1)) \<and>
        sk_info (xb_sources x ! i) = sv_name (ds_service (xs_sources s' ! i))) \<and>
     rfold (update_socket frs) order (daq_of x D) = Inr c \<and>
     scan_pass (processor_ops Z hjunk) fjunk (q_driver c) (q_env c) = Inr (D', en) \<and>
     abs_log (e_log en) = [(1, v)] \<and> mset v = mset frs"
proof -
  obtain fs s where s: "web_commands J msv (exServer_new J sjunk hs ns sport) = Inr (fs, s)" "server_started det sids s"
    using assms(3) server_run [OF assms(1), where junk = sjunk and h = hs and n = ns and port = sport]
    unfolding server_requests_def by blast
  have ne: "sids \<noteq> []" using assms(8) by (simp add: source_numbers_def)
  from builder_started [OF assms(1,2,4-6) ne source_numbers_words(2) [OF assms(8)], of junk hjunk hb nb bport]
  obtain fb x D where b: "web_commands J msb (exBuilder_new J junk (processor_ops Z hjunk) hb nb bport env) = Inr (fb, x)"
    "xb_evb x = To D" and idle: "builder_idle Z memdir det sids env x D" by blast
  let ?s = "incrementEvent s"
  have turn: "server_turn s = ?s" using s(2) by (simp add: server_turn_def server_started_def)
  note src = started_sources [OF s(2) assms(8)]
  have len: "length (xs_sources ?s) = length sids" and ev: "xs_event ?s \<noteq> 0"
    using src(1) ne s(2) by (simp_all add: incrementEvent_def server_started_def length_greater_0_conv [symmetric] del: length_greater_0_conv)
  have "\<forall>d \<in> set (xs_sources ?s). 1 \<le> unat (ds_sourceid d) \<and> unat (ds_sourceid d) \<le> 32763"
    using src(4-6) len by (auto simp: in_set_conv_nth incrementEvent_def)
  with turns_all [OF started_turns [OF s(2), of rnd] ev assms(9)] assms(10) len obtain s' where
    s': "rfold (thread_turn rnd) turns ?s = Inr s'" "turns_taken rnd ?s {..<length sids} s'" by auto
  define frs where "frs = event_frames rnd ?s"
  note fr = first_frames [OF s(2) assms(8) frs_def]
  have sent: "sv_sent (ds_service (xs_sources s' ! i)) = [frame_bytes (frs ! i)] \<and>
      sk_info (xb_sources x ! i) = sv_name (ds_service (xs_sources s' ! i))" if i: "i < length sids" for i
  proof -
    have "xs_sources ?s = xs_sources s" by (simp add: incrementEvent_def)
    moreover have "sk_info (xb_sources x ! i) = ds_service_name (word_of_int det) (word_of_int (sids ! i))"
      using idle i by (auto simp: builder_idle_def dest: arg_cong [of _ _ "\<lambda>xs. xs ! i"])
    ultimately show ?thesis
      using s'(2) i len src(2,3) [OF i] by (simp add: turns_taken_def ds_ok_def frs_def event_frames_def)
  qed
  from idle_builder_delivers [OF idle ne assms(7) fr(1-3) _ assms(11,12), of hjunk fjunk] obtain c D' en v where
    c: "rfold (update_socket frs) order (daq_of x D) = Inr c"
      "scan_pass (processor_ops Z hjunk) fjunk (q_driver c) (q_env c) = Inr (D', en)"
      "abs_log (e_log en) = [(1, v)]" "mset v = mset frs" by auto
  have "\<forall>i < length sids. sv_sent (ds_service (xs_sources s' ! i)) = [frame_bytes (frs ! i)] \<and>
        f_src (frs ! i) = word_of_int (sids ! i) \<and>
        f_payload (frs ! i) = concat (map enc32 (server_words (rnd i) (nat (sids ! i)) 1)) \<and>
        sk_info (xb_sources x ! i) = sv_name (ds_service (xs_sources s' ! i))"
    using sent fr(4) by blast
  with s(1) b s'(1) [folded turn] c show ?thesis by blast
qed

definition demo_server_requests :: "string fsmmessage list" where
  "demo_server_requests = [demo_command ''CONFIGURE'' demo_sources, demo_command ''START'' []]"

lemma demo_server: "server_requests text_json demo_server_requests 100 [23, 24]"
  unfolding server_requests_def demo_server_requests_def
  using demo_contents(3-5) demo_command_says by blast

lemma demo_no_files:
  "\<forall>fr. content (create_directories ''/spool'' (e_world demo_env)) (data_path ''/spool'' (frame_name fr)) = []"
proof -
  have "create_directories ''/spool'' (demo_spool []) = demo_spool []"
    by (simp add: create_directories_def sys_mkdir_def Let_def resolve_def node_at_def demo_spool_def)
  then show ?thesis
    using event_name_not_closed
    by (simp add: demo_env_def demo_spool_def content_def node_at_def data_path_def resolve_def frame_name_def)
qed

theorem example_event_delivered_witness:
  "\<exists>fs s s' fb x D frs c D' en v.
     web_commands text_json demo_server_requests (exServer_new text_json (\<lambda>_. 0) ''lyon'' ''EXS'' 46000) = Inr (fs, s) \<and>
     web_commands text_json demo_run_requests
       (exBuilder_new text_json (\<lambda>_. 0) (processor_ops demo_zlib (\<lambda>_. 0)) ''lyon'' ''EVB'' 45000 demo_env) = Inr (fb, x) \<and>
     xb_evb x = To D \<and> rfold (thread_turn (\<lambda>_ _. 5)) [0, 1] (server_turn s) = Inr s' \<and>
     sv_sent (ds_service (xs_sources s' ! 1)) = [frame_bytes (frs ! 1)] \<and>
     rfold (update_socket frs) [1, 0] (daq_of x D) = Inr c \<and>
     scan_pass (processor_ops demo_zlib (\<lambda>_. 0)) (\<lambda>_ _. 0) (q_driver c) (q_env c) = Inr (D', en) \<and>
     abs_log (e_log en) = [(1, v)] \<and> mset v = mset frs"
proof -
  have "source_numbers [23, 24]" by (simp add: source_numbers_def)
  moreover have "distinct [0, 1 :: nat]" "set [0, 1 :: nat] = {..<length [23, 24 :: int]}"
    "distinct [1, 0 :: nat]" "set [1, 0 :: nat] = {..<length [23, 24 :: int]}" by auto
  moreover have "1 < length [23, 24 :: int]" by simp
  ultimately show ?thesis
    using example_event_delivered [OF text_json_ok demo_zlib_ok demo_server demo_run demo_env_ready demo_no_files,
        where turns = "[0, 1]" and order = "[1, 0]" and rnd = "\<lambda>_ _. 5" and hjunk = "\<lambda>_. 0" and fjunk = "\<lambda>_ _. 0"
          and junk = "\<lambda>_. 0" and sjunk = "\<lambda>_. 0" and hs = "''lyon''" and ns = "''EXS''" and sport = 46000
          and hb = "''lyon''" and nb = "''EVB''" and bport = 45000]
    by blast
qed

end
