(* ===== verification/Spec2Isabelle.thy ===== *)
theory Spec2Isabelle
  imports Daq Job_Spec Base_App Delivery Handoff_Spec Test_Server Example_System
begin

text \<open>
  \<^bold>\<open>levbdim, a light event builder over DIM.\<close>

  \<^bold>\<open>The program.\<close> A read-out process holds \<^verbatim>\<open>datasource\<close>s: each fills a \<^verbatim>\<open>buffer\<close> (detector, source,
  event and bunch crossing identifiers, then the payload) and publishes it as a DIM service. The
  builder process subscribes to each with a \<^verbatim>\<open>datasocket\<close>, which stores every update as a file of a
  shared-memory directory. The scanning thread of \<^verbatim>\<open>shmdriver\<close> lists the directory, pulls the
  files, groups the fragments by event number in an event map and, when an event has a fragment
  of every registered source, hands it to the \<^verbatim>\<open>shmprocessor\<close>s: \<^verbatim>\<open>basicwriter\<close> writes it to a
  file, \<^verbatim>\<open>monitorProcessor\<close> copies it into a second such directory. The processes are steered by state
  machines: \<^verbatim>\<open>fsm\<close> is driven by JSON messages over DIM, \<^verbatim>\<open>fsmweb\<close> also over HTTP, \<^verbatim>\<open>fsmwebCaller\<close> and
  \<^verbatim>\<open>wget\<close> are its clients, and \<^verbatim>\<open>fsmjob\<close> (the job control), \<^verbatim>\<open>baseApplication\<close> and the examples
  \<^verbatim>\<open>exBuilder\<close> and \<^verbatim>\<open>exServer\<close> are applications behind such a machine. \<^verbatim>\<open>mdbReader\<close> keeps
  configurations in a database.

  \<^bold>\<open>Common ground.\<close>
  \<^item> \<open>Prelude\<close>: machine integers as words, the faults a C++ execution can end in (writing outside a
    block, an invalid pointer, a division by zero, a thrown exception), the result type \<open>res\<close>
    with \<open>rbind\<close> and \<open>rfold\<close>, memory blocks as byte lists (\<open>chunk\<close>, \<open>overwrite\<close>).
  \<^item> \<open>Byte_Codec\<close>: little-endian fields of a block; locale \<open>fixed_codec\<close>, interpreted for 32 and
    64 bits.
  \<^item> \<open>Std_Map\<close>: \<^verbatim>\<open>std::map\<close> as a sorted association list; locale \<open>std_map\<close>, interpreted on it.
  \<^item> \<open>Stdio\<close>: decimal output, \<^verbatim>\<open>sprintf\<close> into an array, \<^verbatim>\<open>sscanf\<close>. \<open>Posix\<close>: files, directories and
    descriptors, an explicit state of type \<open>world\<close>. \<open>Event_Time\<close>: the binary64 product
    \<^verbatim>\<open>bxId()*2E-7\<close> and its comparison. \<open>Json_Lib\<close>: the JSON library as a record of operations,
    what its documentation promises as the hypothesis \<open>json_ok\<close>.

  \<^bold>\<open>Data path.\<close>
  \<^item> \<open>Buffer\<close> (\<^verbatim>\<open>include/buffer.hh\<close>): tags, payload, compression; zlib is a record of operations with
    the hypothesis \<open>zlib_ok\<close>.
  \<^item> \<open>Data_Source\<close> (\<^verbatim>\<open>src/datasource.cxx\<close>) and \<open>Data_Socket\<close> (\<^verbatim>\<open>src/datasocket.cxx\<close>): DIM is the list
    of byte blocks handed to a service, and the block an update delivers.
  \<^item> \<open>Spool\<close>: the static functions of \<^verbatim>\<open>src/shmdriver.cxx\<close>: names, listing, pull, store, purge.
    The abstract view \<open>spool_view\<close> of a directory is a map from names to bytes; the lemmas show
    how each operation changes the view, and what it leaves of every other name.
  \<^item> \<open>Shm_Driver\<close>: the record of the driver, registration, \<open>processEvent\<close>, \<open>cleanBufferMap\<close>, one pass
    \<open>scan_pass\<close> of the scanning thread, \<open>shm_start\<close> and \<open>shm_stop\<close>; the processors are a record
    of operations on a heap of objects, as virtual calls are.
  \<^item> \<open>Event_Builder\<close>: the abstract builder (\<open>build\<close>, \<open>build_pass\<close>) and the proof that a pass refines
    it, inside the locale \<open>event_sink\<close>, the contract of the processors the driver calls.
  \<^item> \<open>Basic_Writer\<close> (\<^verbatim>\<open>src/basicwriter.cc\<close>), \<open>Event_File\<close> (a reader of the writer's files, and the
    round trip), \<open>Monitor\<close> (\<^verbatim>\<open>src/monitorProcessor.cxx\<close>), \<open>Processors\<close> (the interpretation \<open>sink\<close>
    of \<open>event_sink\<close> on both), \<open>Driver_Control\<close> (registration, clean-up, corner cases of a scan).
  \<^item> \<open>Transport\<close>: one fragment from the source to the builder. \<open>Daq\<close>: the builder process, whose
    steps \<open>daq_step\<close> are updates and passes in any order, with the invariant \<open>daq_inv\<close>.
    \<open>Delivery\<close>: a full set of fragments, received in any order, is handed over as one event.
  \<^item> \<open>Handoff\<close>: the same directory at the grain of system calls, for the DIM thread that stores and
    the scanning thread that lists, pulls and purges; uninterrupted, the calls are the functions
    of \<open>Spool\<close>. \<open>Handoff_Calls\<close>: the invariant of the two threads, kept by every call.
    \<open>Handoff_Spec\<close>: fragments are taken whole and once, every fragment is in exactly one place, the
    scanning thread ends after \<^verbatim>\<open>stop\<close>, and a scan between the fragments of an event loses it.

  \<^bold>\<open>Control.\<close>
  \<^item> \<open>Fsm_Message\<close> (\<^verbatim>\<open>src/fsmmessage.cxx\<close>), \<open>Fsm\<close> (\<^verbatim>\<open>src/fsm.cxx\<close>: states, transitions, commands,
    publication), \<open>Fsm_Control\<close> (RPC handler, client, reachable machines; locale
    \<open>command_server\<close>, interpreted on the plain and on the web machine), \<open>Fsm_Web\<close>
    (\<^verbatim>\<open>src/fsmweb.cxx\<close>: pages and routes).
  \<^item> \<open>Url_Codec\<close> and \<open>Web_Caller\<close> (\<^verbatim>\<open>src/fsmwebCaller.cxx\<close>, \<^verbatim>\<open>src/wget.cxx\<close>): encoders, CURL callbacks,
    the caller; CURL is the function from an address to the pieces it delivers.
  \<^item> \<open>Machine\<close>: the locale \<open>application\<close>: a transition table and pages whose functions keep an
    invariant indexed by the machine's state; every sequence of commands, page requests and
    other steps then keeps it. Interpreted as \<open>jobs\<close>, \<open>builders\<close>, \<open>servers\<close>,
    \<open>wummies\<close> and \<open>programs\<close>.
  \<^item> \<open>File_Tailer\<close> (\<^verbatim>\<open>src/fileTailer.cxx\<close>), \<open>Job_Process\<close>, \<open>Fsm_Job\<close>, \<open>Job_Table\<close>, \<open>Job_Spec\<close>
    (\<^verbatim>\<open>src/fsmjob.cxx\<close>): the system as a state with a history of signals and started programs.
  \<^item> \<open>Mdb_Reader\<close> (\<^verbatim>\<open>src/mdbReader.cxx\<close>) over a record of database operations, and \<open>Base_App\<close>
    (\<^verbatim>\<open>src/baseApplication.cxx\<close>).
  \<^item> \<open>Ex_Builder\<close>, \<open>Ex_Server\<close> (\<^verbatim>\<open>example/src\<close>) and their properties \<open>Ex_Builder_Spec\<close> and
    \<open>Ex_Server_Spec\<close>: the composition of machine, driver, writer, sockets and sources. \<open>Test_Server\<close>:
    the test server at the end of \<^verbatim>\<open>src/fsmweb.cxx\<close>, whose threads count events themselves.
    \<open>Ex_Main\<close>: the two main programs of the example (\<^verbatim>\<open>exServer.cc\<close>, \<^verbatim>\<open>exBuilder.cc\<close>), their options
    read by a model of \<^verbatim>\<open>getopt\<close> and \<^verbatim>\<open>atoi\<close>, and the server's loop beside its machine and threads.
    \<open>Example_System\<close>: a server and a builder together, from the configuration to the writer.

  \<^bold>\<open>What the lemmas show.\<close> Safety and refinement of the event builder under every interleaving, of
  handlers and of system calls, that complete sets are delivered and that \<^verbatim>\<open>stop\<close> returns; round
  trips of names, frames, files, payloads, URLs and database entries; the bounds within which fixed arrays suffice, and that they are overrun
  beyond; the transition function of the machines and the agreement of their interfaces; which
  processes a job control signals; the error paths of each component.

  \<^bold>\<open>Conventions.\<close> Undefined behaviour and exceptions are \<open>Inl\<close> results and end the execution; the
  state at that moment is not kept. Memory that the code leaves uninitialised is a parameter
  (\<open>junk\<close>), so every theorem holds for all its contents. A thread is its loop body: concurrency
  is the interleaving of whole handlers and passes, in \<open>Handoff\<close> that of single system calls;
  sleeps are steps of nobody. Loops over data
  are structural recursion or total functions with a measure; the only
  counts of steps are those of the system calls run in a row in \<open>Handoff\<close>, which are exact.

  \<^bold>\<open>Not modelled.\<close> The serving loop of the web server, console
  output, sleeps, semaphores, the loading of shared libraries beyond the call of their
  constructor, \<^verbatim>\<open>setuid\<close> and the closing of descriptors in a forked child, failing allocations,
  requests that reach the example server before its main program has set the detector number, and
  the earlier versions of the examples under \<^verbatim>\<open>test\<close>.
\<close>

end
